(* ===== verification/Prelude.thy ===== *)
theory Prelude
  imports Main "HOL-Library.Word" "HOL-Library.Signed_Division"
begin

text \<open>
  The vocabulary every component of the development shares.

  Go values are modelled as follows.  A Go \<^verbatim>\<open>string\<close> or \<^verbatim>\<open>[]byte\<close> is a byte sequence, so it
  is a \<^typ>\<open>string\<close> (\<^typ>\<open>char\<close> is a byte).  A Go \<^verbatim>\<open>int\<close> (64 bits on the supported
  platforms) or \<^verbatim>\<open>int64\<close> is an \<^typ>\<open>int\<close> in the signed 64-bit range, and the arithmetic that
  can leave the range is written with \<open>add64\<close> and \<open>sub64\<close>, which wrap around as the machine
  does.  A \<^verbatim>\<open>time.Time\<close> or \<^verbatim>\<open>time.Duration\<close> is a number of nanoseconds.  A Go error is a value
  of \<open>go_error\<close>; \<^verbatim>\<open>nil\<close> is \<^const>\<open>None\<close>.  A value of Go's \<^verbatim>\<open>any\<close> is an \<open>any\<close>.
\<close>

section \<open>Collections of facts\<close>

named_theorems int64_simps "arithmetic that stays in the signed 64-bit range"
named_theorems key_defs "definitions of the storage keys"
named_theorems go_defs "small definitions that proofs unfold"


section \<open>Signed 64-bit integers\<close>

definition min_int64 :: int where
  "min_int64 = - (2 ^ 63)"

definition max_int64 :: int where
  "max_int64 = 2 ^ 63 - 1"

definition in_int64 :: "int \<Rightarrow> bool" where
  "in_int64 x \<longleftrightarrow> min_int64 \<le> x \<and> x \<le> max_int64"

definition wrap64 :: "int \<Rightarrow> int" where
  "wrap64 x = (x + 2 ^ 63) mod 2 ^ 64 - 2 ^ 63"

definition add64 :: "int \<Rightarrow> int \<Rightarrow> int" where
  "add64 a b = wrap64 (a + b)"

definition sub64 :: "int \<Rightarrow> int \<Rightarrow> int" where
  "sub64 a b = wrap64 (a - b)"

lemma in_int64_wrap64 [simp, intro]: "in_int64 (wrap64 x)"
proof -
  have "0 \<le> (x + 2 ^ 63) mod 2 ^ 64" and "(x + 2 ^ 63) mod 2 ^ 64 < 2 ^ 64"
    by simp_all
  then show ?thesis
    by (simp add: in_int64_def wrap64_def min_int64_def max_int64_def)
qed

lemma wrap64_id [int64_simps]: "in_int64 x \<Longrightarrow> wrap64 x = x"
  by (simp add: in_int64_def wrap64_def min_int64_def max_int64_def)

text \<open>\<open>wrap64\<close> is two's complement: the signed reading of the low 64 bits.\<close>

lemma wrap64_sint: "wrap64 x = sint (word_of_int x :: 64 word)"
proof -
  have "in_int64 (sint (word_of_int x :: 64 word))"
    using sint_greater_eq [of "word_of_int x :: 64 word"] sint_less [of "word_of_int x :: 64 word"]
    by (simp add: in_int64_def min_int64_def max_int64_def)
  then have "wrap64 (sint (word_of_int x :: 64 word)) = sint (word_of_int x :: 64 word)"
    by (rule wrap64_id)
  moreover have "sint (word_of_int x :: 64 word) mod 2 ^ 64 = x mod 2 ^ 64"
  proof -
    have "uint (word_of_int (sint (word_of_int x :: 64 word)) :: 64 word) = uint (word_of_int x :: 64 word)"
      by simp
    then show ?thesis by (simp only: uint_word_of_int len_num1 len_bit0 len_num0) simp
  qed
  ultimately show ?thesis
    unfolding wrap64_def by (metis mod_add_left_eq)
qed

lemma add64_id [int64_simps]: "in_int64 (a + b) \<Longrightarrow> add64 a b = a + b"
  by (simp add: add64_def wrap64_id)

lemma sub64_id [int64_simps]: "in_int64 (a - b) \<Longrightarrow> sub64 a b = a - b"
  by (simp add: sub64_def wrap64_id)

lemma in_int64_add64 [simp, intro]: "in_int64 (add64 a b)"
  by (simp add: add64_def)

lemma in_int64_sub64 [simp, intro]: "in_int64 (sub64 a b)"
  by (simp add: sub64_def)

lemma in_int64_small [simp, intro]: "in_int64 0" "in_int64 1"
  by (simp_all add: in_int64_def min_int64_def max_int64_def)

lemma in_int64_between [intro]:
  "min_int64 \<le> a \<Longrightarrow> a \<le> x \<Longrightarrow> x \<le> b \<Longrightarrow> b \<le> max_int64 \<Longrightarrow> in_int64 x"
  by (simp add: in_int64_def)


section \<open>Time\<close>

text \<open>
  A \<^verbatim>\<open>time.Time\<close> is its nanoseconds since the Unix epoch; \<^verbatim>\<open>Unix()\<close> is the whole seconds, rounded
  towards minus infinity.  A \<open>clock\<close> gives the successive results of \<^verbatim>\<open>time.Now()\<close> within one call
  that reads it more than once.
\<close>

type_synonym time = int
type_synonym duration = int
type_synonym clock = "nat \<Rightarrow> time"

definition second :: duration where
  "second = 1000000000"

definition minute :: duration where
  "minute = 60 * second"

definition unix :: "time \<Rightarrow> int" where
  "unix t = t div second"

lemma unix_add_seconds: "unix (t + n * second) = unix t + n"
  by (simp add: unix_def second_def)

lemma unix_mono: "t \<le> u \<Longrightarrow> unix t \<le> unix u"
  by (simp add: unix_def second_def zdiv_mono1)


section \<open>Errors and dynamically typed values\<close>

text \<open>
  The errors the code makes (\<open>ErrMsg\<close> for \<^verbatim>\<open>fmt.Errorf\<close> with a fixed text, \<open>Wrap\<close> for \<^verbatim>\<open>%w\<close>), its
  sentinel \<^verbatim>\<open>types.ErrNotFound\<close>, the three errors of the client libraries it tests for
  (\<^verbatim>\<open>redis.Nil\<close>, \<^verbatim>\<open>ConditionalCheckFailedException\<close>, \<^verbatim>\<open>ResourceInUseException\<close>) and every other
  error a library or a service returns (\<open>LibErr\<close>).
\<close>

datatype go_error =
    ErrMsg string
  | Wrap string go_error
  | ErrNotFound
  | RedisNil
  | ConditionalCheckFailed
  | ResourceInUse
  | LibErr string

text \<open>\<^verbatim>\<open>err.Error()\<close>, for the errors whose text the handlers send back.\<close>

fun error_text :: "go_error \<Rightarrow> string" where
  "error_text (ErrMsg m) = m"
| "error_text (Wrap m e) = m @ '': '' @ error_text e"
| "error_text ErrNotFound = ''not found''"
| "error_text RedisNil = ''redis: nil''"
| "error_text ConditionalCheckFailed = ''ConditionalCheckFailedException''"
| "error_text ResourceInUse = ''ResourceInUseException''"
| "error_text (LibErr m) = m"

text \<open>An error and the errors it wraps, which is where \<^verbatim>\<open>errors.Is\<close> looks for its target.\<close>

fun unwrap_chain :: "go_error \<Rightarrow> go_error list" where
  "unwrap_chain (Wrap m e) = Wrap m e # unwrap_chain e"
| "unwrap_chain e = [e]"

definition errors_Is :: "go_error \<Rightarrow> go_error \<Rightarrow> bool" where
  "errors_Is e target \<longleftrightarrow> target \<in> set (unwrap_chain e)"

text \<open>
  The dynamic values that decoded JSON and aggregates are made of.  A \<^verbatim>\<open>float64\<close> is kept as its 64
  bits (no code of the program computes with one); a \<^verbatim>\<open>map[string]any\<close> is \<^const>\<open>None\<close> for the nil map.
\<close>

datatype any =
    AnyNil
  | AnyBool bool
  | AnyInt int
  | AnyFloat "64 word"
  | AnyStr string
  | AnySlice "any list"
  | AnyMap "(string \<Rightarrow> any option) option"

type_synonym payload = "(string \<Rightarrow> any option) option"


section \<open>Lists\<close>

text \<open>\<open>lastn n xs\<close> is the Go slice \<^verbatim>\<open>xs[len(xs)-n:]\<close>.\<close>

definition lastn :: "nat \<Rightarrow> 'a list \<Rightarrow> 'a list" where
  "lastn n xs = drop (length xs - n) xs"

lemma length_lastn [simp]: "length (lastn n xs) = min n (length xs)"
  by (simp add: lastn_def)

lemma lastn_all [simp]: "length xs \<le> n \<Longrightarrow> lastn n xs = xs"
  by (simp add: lastn_def)

lemma lastn_rev: "lastn n xs = rev (take n (rev xs))"
  by (simp add: lastn_def take_rev)

lemma set_lastn_subset: "set (lastn n xs) \<subseteq> set xs"
  by (simp add: lastn_def set_drop_subset)

lemma lastn_one_snoc [simp]: "lastn (Suc 0) (xs @ [x]) = [x]"
  by (simp add: lastn_def)

text \<open>Splitting at the last (or first) occurrence of a separator is unique.\<close>

lemma append_sep_inject_right:
  assumes "a @ x # b = c @ x # d" and "x \<notin> set b" and "x \<notin> set d"
  shows "a = c \<and> b = d"
  using assms by (auto simp: append_eq_append_conv2 append_eq_Cons_conv Cons_eq_append_conv)

lemma append_sep_inject_left:
  assumes "a @ x # b = c @ x # d" and "x \<notin> set a" and "x \<notin> set c"
  shows "a = c \<and> b = d"
  using assms by (auto simp: append_eq_append_conv2 append_eq_Cons_conv Cons_eq_append_conv)

lemma remdups_adj_Cons_tl: "remdups_adj (x # xs) = x # tl (remdups_adj (x # xs))"
  by (metis hd_remdups_adj list.collapse list.distinct(1) list.sel(1) remdups_adj_Nil_iff)

end
