(* ===== verification/Errors.thy ===== *)
theory Errors
  imports Prelude
begin

text \<open>
  \<^verbatim>\<open>internal/types/errors.go\<close>: the sentinel errors and \<^verbatim>\<open>Err\<close>, which joins a sentinel with the error behind it and a
  formatted message.  \<^verbatim>\<open>errors.Join\<close> drops nil errors and is nil when nothing is left; \<^verbatim>\<open>errors.Is\<close> looks through the
  joined errors and what they wrap.  \<open>Errorf\<close> stands for the verbs of \<^verbatim>\<open>fmt.Errorf\<close>.
\<close>

definition ErrPrecondition :: go_error where
  "ErrPrecondition = ErrMsg ''precondition failed''"

definition ErrInvalidClientConfig :: go_error where
  "ErrInvalidClientConfig = ErrMsg ''invalid client config''"

definition ErrInvalidBackend :: go_error where
  "ErrInvalidBackend = ErrMsg ''invalid backend''"

definition ErrDataStoreAccess :: go_error where
  "ErrDataStoreAccess = ErrMsg ''data store read/write error''"

definition errors_Join :: "go_error option list \<Rightarrow> go_error list option" where
  "errors_Join errs = (let es = map the (filter (\<lambda>e. e \<noteq> None) errs) in if es = [] then None else Some es)"

fun joined_Is :: "go_error list option \<Rightarrow> go_error \<Rightarrow> bool" where
  "joined_Is None target \<longleftrightarrow> False"
| "joined_Is (Some es) target \<longleftrightarrow> (\<exists>e \<in> set es. errors_Is e target)"

definition Err ::
    "(string \<Rightarrow> any list \<Rightarrow> go_error) \<Rightarrow> go_error option \<Rightarrow> go_error option \<Rightarrow> string \<Rightarrow> any list \<Rightarrow> go_error list option" where
  "Err Errorf typedError innerErr msgTemplate args =
     (if msgTemplate = [] then errors_Join [typedError, innerErr]
      else errors_Join [typedError, innerErr, Some (Errorf msgTemplate args)])"

section \<open>Lemmas\<close>

lemma Is_Join: "joined_Is (errors_Join errs) t \<longleftrightarrow> (\<exists>e. Some e \<in> set errs \<and> errors_Is e t)"
  by (force simp: errors_Join_def Let_def filter_empty_conv)

text \<open>The sentinel, the error behind it and all that one wraps can be asked for.\<close>

lemma Err_Is:
  "typedError = Some e \<or> innerErr = Some e \<Longrightarrow> errors_Is e t \<Longrightarrow>
     joined_Is (Err Errorf typedError innerErr msgTemplate args) t"
  by (auto simp: Err_def Is_Join)

end
