(* ===== verification/Strconv.thy ===== *)
theory Strconv
  imports Prelude
begin

text \<open>
  Go's \<^verbatim>\<open>strconv\<close> as the program uses it: \<^verbatim>\<open>FormatInt(i, 10)\<close> and the \<^verbatim>\<open>%d\<close> verb, \<^verbatim>\<open>ParseInt(s, 10,
  64)\<close>, \<^verbatim>\<open>Atoi\<close> and \<^verbatim>\<open>ParseBool\<close>.  The store keys and the Redis hash fields are made with these,
  so the lemmas that matter are that printing is injective, that a printed number contains only
  digits and a sign, and that parsing a printed 64-bit number gives it back.
\<close>

section \<open>Printing\<close>

definition digit_char :: "nat \<Rightarrow> char" where
  "digit_char d = char_of (48 + d)"

fun format_nat :: "nat \<Rightarrow> string" where
  "format_nat n = (if n < 10 then [digit_char n] else format_nat (n div 10) @ [digit_char (n mod 10)])"

declare format_nat.simps [simp del]

definition FormatInt :: "int \<Rightarrow> string" where
  "FormatInt i = (if i < 0 then CHR ''-'' # format_nat (nat (- i)) else format_nat (nat i))"


section \<open>Parsing\<close>

datatype num_error = ErrSyntax | ErrRange

definition is_digit :: "char \<Rightarrow> bool" where
  "is_digit c \<longleftrightarrow> 48 \<le> (of_char c :: nat) \<and> (of_char c :: nat) \<le> 57"

definition digit_val :: "char \<Rightarrow> nat" where
  "digit_val c = of_char c - 48"

text \<open>The digit loop of \<^verbatim>\<open>ParseUint(s, 10, 64)\<close>: the first offending byte decides the error.\<close>

fun parse_digits :: "nat \<Rightarrow> string \<Rightarrow> num_error + nat" where
  "parse_digits n [] = Inr n"
| "parse_digits n (c # cs) =
     (if \<not> is_digit c then Inl ErrSyntax
      else let n1 = n * 10 + digit_val c
           in if n1 > 2 ^ 64 - 1 then Inl ErrRange else parse_digits n1 cs)"

definition ParseUint :: "string \<Rightarrow> num_error + nat" where
  "ParseUint s = (if s = [] then Inl ErrSyntax else parse_digits 0 s)"

definition ParseInt :: "string \<Rightarrow> num_error + int" where
  "ParseInt s =
     (if s = [] then Inl ErrSyntax
      else let neg = (hd s = CHR ''-'');
               body = (if hd s = CHR ''+'' \<or> hd s = CHR ''-'' then tl s else s)
           in case ParseUint body of
                Inl e \<Rightarrow> Inl e
              | Inr un \<Rightarrow>
                  if \<not> neg \<and> un \<ge> 2 ^ 63 then Inl ErrRange
                  else if neg \<and> un > 2 ^ 63 then Inl ErrRange
                  else Inr (if neg then - int un else int un))"

text \<open>\<^verbatim>\<open>Atoi\<close> is \<^verbatim>\<open>ParseInt(s, 10, 0)\<close> where \<^verbatim>\<open>int\<close> has 64 bits.\<close>

definition Atoi :: "string \<Rightarrow> num_error + int" where
  "Atoi s = ParseInt s"

definition ParseBool :: "string \<Rightarrow> bool option" where
  "ParseBool s =
     (if s \<in> {''1'', ''t'', ''T'', ''true'', ''TRUE'', ''True''} then Some True
      else if s \<in> {''0'', ''f'', ''F'', ''false'', ''FALSE'', ''False''} then Some False
      else None)"


section \<open>Lemmas\<close>

lemma of_char_digit_char: "d < 10 \<Longrightarrow> of_char (digit_char d) = 48 + d"
  by (simp add: digit_char_def)

lemma is_digit_digit_char [simp]: "d < 10 \<Longrightarrow> is_digit (digit_char d)"
  by (simp add: is_digit_def of_char_digit_char)

lemma digit_val_digit_char [simp]: "d < 10 \<Longrightarrow> digit_val (digit_char d) = d"
  by (simp add: digit_val_def of_char_digit_char)

lemma format_nat_nonempty [simp]: "format_nat n \<noteq> []"
  by (subst format_nat.simps) simp

lemma format_nat_digits: "c \<in> set (format_nat n) \<Longrightarrow> is_digit c"
proof (induction n rule: format_nat.induct)
  case (1 n)
  show ?case
  proof (cases "n < 10")
    case True
    with "1.prems" show ?thesis by (simp add: format_nat.simps [of n])
  next
    case False
    with "1.prems" have "c \<in> set (format_nat (n div 10)) \<or> c = digit_char (n mod 10)"
      by (auto simp: format_nat.simps [of n])
    with "1.IH" [OF False] show ?thesis by auto
  qed
qed

lemma parse_digits_append:
  "parse_digits n (s @ t) = (case parse_digits n s of Inl e \<Rightarrow> Inl e | Inr m \<Rightarrow> parse_digits m t)"
  by (induction s arbitrary: n) (auto simp: Let_def)

lemma parse_format_nat: "n < 2 ^ 64 \<Longrightarrow> parse_digits 0 (format_nat n) = Inr n"
proof (induction n rule: format_nat.induct)
  case (1 n)
  show ?case
  proof (cases "n < 10")
    case True
    then show ?thesis by (simp add: format_nat.simps [of n] Let_def)
  next
    case False
    with 1 have "parse_digits 0 (format_nat (n div 10)) = Inr (n div 10)" by simp
    moreover have "n div 10 * 10 + n mod 10 = n" by simp
    ultimately show ?thesis
      using False "1.prems"
      by (simp add: format_nat.simps [of n] parse_digits_append Let_def)
  qed
qed

lemma hd_format_nat: "is_digit (hd (format_nat n))"
  by (rule format_nat_digits) (rule hd_in_set, rule format_nat_nonempty)

lemma digit_not_sign:
  "is_digit c \<Longrightarrow> c \<noteq> CHR ''-''" "is_digit c \<Longrightarrow> c \<noteq> CHR ''+''"
  "is_digit c \<Longrightarrow> c \<noteq> CHR ''_''" "is_digit c \<Longrightarrow> c \<noteq> CHR ''#''"
  by (auto simp: is_digit_def)

lemma ParseUint_format_nat: "n < 2 ^ 64 \<Longrightarrow> ParseUint (format_nat n) = Inr n"
  by (simp add: ParseUint_def parse_format_nat)

lemma ParseInt_FormatInt [simp]:
  assumes "in_int64 i"
  shows "ParseInt (FormatInt i) = Inr i"
proof (cases "i < 0")
  case True
  with assms have "nat (- i) \<le> 2 ^ 63" by (simp add: in_int64_def min_int64_def nat_le_iff)
  then show ?thesis
    using True by (simp add: FormatInt_def ParseInt_def ParseUint_format_nat Let_def)
next
  case False
  with assms have "nat i < 2 ^ 63" by (simp add: in_int64_def max_int64_def nat_less_iff)
  then show ?thesis
    using False hd_format_nat [of "nat i"]
    by (simp add: FormatInt_def ParseInt_def ParseUint_format_nat Let_def digit_not_sign)
qed

lemma Atoi_FormatInt [simp]: "in_int64 i \<Longrightarrow> Atoi (FormatInt i) = Inr i"
  by (simp add: Atoi_def)

lemma FormatInt_nonempty [simp]: "FormatInt i \<noteq> []"
  by (simp add: FormatInt_def)

lemma FormatInt_chars: "c \<in> set (FormatInt i) \<Longrightarrow> is_digit c \<or> c = CHR ''-''"
  by (auto simp: FormatInt_def dest: format_nat_digits split: if_splits)

lemma FormatInt_no_sep [simp]: "CHR ''_'' \<notin> set (FormatInt i)" "CHR ''#'' \<notin> set (FormatInt i)"
  by (auto dest!: FormatInt_chars simp: is_digit_def)

text \<open>Printing is injective on all integers, not only on those that parse back.\<close>

fun digits_val :: "nat \<Rightarrow> string \<Rightarrow> nat" where
  "digits_val n [] = n"
| "digits_val n (c # cs) = digits_val (n * 10 + digit_val c) cs"

lemma digits_val_append: "digits_val n (s @ t) = digits_val (digits_val n s) t"
  by (induction s arbitrary: n) auto

lemma digits_val_format_nat: "digits_val 0 (format_nat n) = n"
proof (induction n rule: format_nat.induct)
  case (1 n)
  then show ?case
    by (cases "n < 10") (simp_all add: format_nat.simps [of n] digits_val_append)
qed

lemma format_nat_inject [simp]: "format_nat m = format_nat n \<longleftrightarrow> m = n"
  by (metis digits_val_format_nat)

lemma FormatInt_inject [simp]: "FormatInt i = FormatInt j \<longleftrightarrow> i = j"
proof
  assume eq: "FormatInt i = FormatInt j"
  have "hd (FormatInt k) = CHR ''-'' \<longleftrightarrow> k < 0" for k
    using hd_format_nat [of "nat k"] by (auto simp: FormatInt_def digit_not_sign)
  with eq have "i < 0 \<longleftrightarrow> j < 0" by metis
  with eq show "i = j" by (auto simp: FormatInt_def split: if_splits)
qed simp

end
