(* ===== verification/Types.thy ===== *)
theory Types
  imports Strconv
begin

text \<open>
  \<^verbatim>\<open>internal/types\<close>: the client configuration with its validation, and the persisted edge state with
  its bounded list of recent flips.  A nil and an empty \<^verbatim>\<open>[]Flip\<close> are the same list here: the code
  only takes lengths, appends, indexes and re-slices.
\<close>

section \<open>Configuration (config.go)\<close>

definition ClientKeyMinLength :: int where
  "ClientKeyMinLength = 8"

definition ClientIDHdrName :: string where
  "ClientIDHdrName = ''x-client-id''"

definition ClientKeyHdrName :: string where
  "ClientKeyHdrName = ''x-client-key''"

definition MinWindowSizeSeconds :: int where
  "MinWindowSizeSeconds = 10"

record Passthrough =
  PassFieldExpr :: string
  Negate :: bool

record TargetConfig =
  SNSArn :: string
  SNSRPM :: int

record FlapConfig =
  WindowSeconds :: int
  SuppressBelow :: int
  AggregateAt :: int
  AggregateMaxItems :: int
  AggregateCooldownSeconds :: int

record TriggerConfig =
  FieldExpr :: string
  ScopeFields :: "string list"
  Target :: TargetConfig
  Flapping :: "FlapConfig option"

record ClientConfig =
  ClientID :: string
  ClientName :: string
  ClientKey :: string
  IPRPM :: int
  ClientRPM :: int
  Passthrough :: Passthrough
  Trigger :: TriggerConfig

text \<open>The flapping part of \<^verbatim>\<open>Validate\<close>.\<close>

definition ValidateFlapping :: "FlapConfig \<Rightarrow> go_error option" where
  "ValidateFlapping flapping =
     (if WindowSeconds flapping < MinWindowSizeSeconds
      then Some (ErrMsg (''flapping.window_seconds must be greater than or equal to ''
                         @ FormatInt MinWindowSizeSeconds @ '' seconds''))
      else if SuppressBelow flapping < 0 \<or> SuppressBelow flapping > WindowSeconds flapping
      then Some (ErrMsg ''flapping.suppress_below must be non-negative and less than or equal to window_seconds'')
      else None)"

definition Validate :: "ClientConfig \<Rightarrow> go_error option" where
  "Validate c =
     (if ClientID c = [] then Some (ErrMsg ''client_id is required'')
      else if ClientName c = [] then Some (ErrMsg ''client_name is required'')
      else if ClientKey c = [] then Some (ErrMsg ''client_key is required'')
      else if int (length (ClientKey c)) < ClientKeyMinLength
      then Some (ErrMsg (''api_key must be at least '' @ FormatInt ClientKeyMinLength @ '' characters''))
      else if IPRPM c < 0 then Some (ErrMsg ''ip_rpm must be non-negative. 0 for non limit'')
      else if ClientRPM c < 0 then Some (ErrMsg ''client_rpm must be non-negative. 0 for non limit'')
      else (case Flapping (Trigger c) of None \<Rightarrow> None | Some flapping \<Rightarrow> ValidateFlapping flapping))"

text \<open>What a validated configuration is, as a predicate.\<close>

definition valid_flapping :: "FlapConfig \<Rightarrow> bool" where
  "valid_flapping f \<longleftrightarrow> 10 \<le> WindowSeconds f \<and> 0 \<le> SuppressBelow f \<and> SuppressBelow f \<le> WindowSeconds f"

definition valid_config :: "ClientConfig \<Rightarrow> bool" where
  "valid_config c \<longleftrightarrow>
     ClientID c \<noteq> [] \<and> ClientName c \<noteq> [] \<and> 8 \<le> length (ClientKey c)
     \<and> 0 \<le> IPRPM c \<and> 0 \<le> ClientRPM c
     \<and> (case Flapping (Trigger c) of None \<Rightarrow> True | Some f \<Rightarrow> valid_flapping f)"


section \<open>Edge state (state.go)\<close>

definition HardLimitRecentItems :: nat where
  "HardLimitRecentItems = 128"

record Flip =
  At :: int
  From :: string
  To :: string
  Payload :: string

record Edge =
  ScopeKey :: string
  LastValue :: string
  LastChangeTS :: int
  WindowStart :: int
  FlipCount :: int
  Recent :: "Flip list"
  AggUntilTS :: int
  Version :: int

text \<open>
  \<^verbatim>\<open>AppendRecent\<close>; its only caller passes the constant capacity, so the capacity is a \<^typ>\<open>nat\<close>.
\<close>

definition AppendRecent :: "'a list \<Rightarrow> 'a \<Rightarrow> nat \<Rightarrow> 'a list" where
  "AppendRecent rs f cap =
     (let rs1 = rs @ [f] in if length rs1 > cap then drop (length rs1 - cap) rs1 else rs1)"


section \<open>Lemmas\<close>

lemma ValidateFlapping_None: "ValidateFlapping f = None \<longleftrightarrow> valid_flapping f"
  by (auto simp: ValidateFlapping_def valid_flapping_def MinWindowSizeSeconds_def)

lemma Validate_None: "Validate c = None \<longleftrightarrow> valid_config c"
  by (auto simp: Validate_def valid_config_def ClientKeyMinLength_def ValidateFlapping_None
      split: option.splits)

lemma AppendRecent_lastn: "AppendRecent rs f cap = lastn cap (rs @ [f])"
  by (auto simp: AppendRecent_def lastn_def Let_def)

lemma length_AppendRecent: "length (AppendRecent rs f cap) = min cap (Suc (length rs))"
  by (simp add: AppendRecent_lastn)

lemma last_AppendRecent: "0 < cap \<Longrightarrow> last (AppendRecent rs f cap) = f"
  by (simp add: AppendRecent_lastn lastn_def)

lemma set_AppendRecent: "set (AppendRecent rs f cap) \<subseteq> insert f (set rs)"
  using set_lastn_subset [of cap "rs @ [f]"] by (simp add: AppendRecent_lastn)

text \<open>Appending one by one keeps the newest \<^term>\<open>cap\<close> entries of everything ever appended.\<close>

lemma AppendRecent_foldl:
  "foldl (\<lambda>rs f. AppendRecent rs f cap) (lastn cap rs) fs = lastn cap (rs @ fs)"
proof (induction fs arbitrary: rs)
  case (Cons f fs)
  have "AppendRecent (lastn cap rs) f cap = lastn cap (rs @ [f])"
    by (cases "length rs < cap")
      (auto simp: AppendRecent_lastn lastn_def Suc_diff_le not_less)
  with Cons.IH [of "rs @ [f]"] show ?case by simp
qed simp

end
