(* ===== verification/Utf8.thy ===== *)
theory Utf8
  imports Prelude
begin

text \<open>
  Go's \<^verbatim>\<open>unicode/utf8\<close>: which byte strings are valid UTF-8.  JSON and the DynamoDB protocol carry text,
  so only such strings come back unchanged from a store.
\<close>

definition cont_byte :: "nat \<Rightarrow> bool" where
  "cont_byte b \<longleftrightarrow> 128 \<le> b \<and> b \<le> 191"

text \<open>The ranges of the second byte exclude overlong forms, surrogates and values above U+10FFFF.\<close>

definition second_byte :: "nat \<Rightarrow> nat \<Rightarrow> bool" where
  "second_byte b c \<longleftrightarrow>
     (if b = 224 then 160 \<le> c else if b = 237 then c \<le> 159
      else if b = 240 then 144 \<le> c else if b = 244 then c \<le> 143 else True) \<and> cont_byte c"

fun utf8_bytes :: "nat list \<Rightarrow> bool" where
  "utf8_bytes [] = True"
| "utf8_bytes (b # bs) =
     (if b < 128 then utf8_bytes bs
      else if 194 \<le> b \<and> b \<le> 223 then
        (case bs of c # r \<Rightarrow> cont_byte c \<and> utf8_bytes r | _ \<Rightarrow> False)
      else if 224 \<le> b \<and> b \<le> 239 then
        (case bs of c # d # r \<Rightarrow> second_byte b c \<and> cont_byte d \<and> utf8_bytes r | _ \<Rightarrow> False)
      else if 240 \<le> b \<and> b \<le> 244 then
        (case bs of c # d # e # r \<Rightarrow> second_byte b c \<and> cont_byte d \<and> cont_byte e \<and> utf8_bytes r | _ \<Rightarrow> False)
      else False)"

definition ValidString :: "string \<Rightarrow> bool" where
  "ValidString s = utf8_bytes (map of_char s)"

lemma ValidString_Nil [simp]: "ValidString []"
  by (simp add: ValidString_def)

lemma ValidString_ascii: "(\<And>c. c \<in> set s \<Longrightarrow> (of_char c :: nat) < 128) \<Longrightarrow> ValidString s"
  by (induction s) (auto simp: ValidString_def)

end
