(* ===== verification/Ports.thy ===== *)
theory Ports
  imports Types Utf8
begin

text \<open>
  \<^verbatim>\<open>internal/ports\<close>: the interfaces the flow is written against, as records of operations over a
  store state \<^typ>\<open>'s\<close>.  The contracts the interface comments state are locales:
  \<^item> \<open>edge_store\<close>: \<^verbatim>\<open>Load\<close> reports the stored edge and its version, and \<^verbatim>\<open>UpsertCAS\<close> with the current
    version commits;
  \<^item> \<open>rate_limiter\<close>: \<^verbatim>\<open>Acquire\<close> grants at most the rate in one minute bucket;
  \<^item> \<open>seq_data_store\<close>: both, on one state, without disturbing each other;
  \<^item> \<open>data_store\<close>: moreover \<^verbatim>\<open>UpsertCAS\<close> refuses every stale version, so concurrent callers are safe.
  An operation may fail with an I/O error, after which a write may or may not have happened; \<open>up\<close>
  holds of the states from which no I/O error occurs.
\<close>

section \<open>DataStore (datastore.go)\<close>

record 's DataStore =
  Acquire :: "clock \<Rightarrow> string \<Rightarrow> int \<Rightarrow> duration \<Rightarrow> 's \<Rightarrow> (bool \<times> go_error option) \<times> 's"
  Load :: "string \<Rightarrow> string \<Rightarrow> 's \<Rightarrow> (Edge option \<times> int \<times> go_error option) \<times> 's"
  UpsertCAS :: "string \<Rightarrow> string \<Rightarrow> int \<Rightarrow> Edge \<Rightarrow> 's \<Rightarrow> (bool \<times> go_error option) \<times> 's"

section \<open>ClientStore (clientstore.go)\<close>

text \<open>\<^verbatim>\<open>ClearAll\<close> can end the process (\<^verbatim>\<open>log.Fatalf\<close>), which is the result \<^const>\<open>None\<close>.\<close>

record 's ClientStore =
  GetClientConfig :: "string \<Rightarrow> 's \<Rightarrow> (go_error + ClientConfig) \<times> 's"
  ListClients :: "'s \<Rightarrow> (go_error + string list) \<times> 's"
  PutClientConfig :: "string \<Rightarrow> ClientConfig \<Rightarrow> 's \<Rightarrow> go_error option \<times> 's"
  DeleteClientConfig :: "string \<Rightarrow> 's \<Rightarrow> go_error option \<times> 's"
  ClearAll :: "'s \<Rightarrow> go_error option option \<times> 's"

section \<open>Publisher (publisher.go)\<close>

record 's Publisher =
  PublishRaw :: "string \<Rightarrow> string \<Rightarrow> 's \<Rightarrow> go_error option \<times> 's"


section \<open>The contract of DataStore\<close>

text \<open>
  The values a store can keep: integer fields hold 64-bit values and texts are valid UTF-8.  Then what a
  store keeps of an edge under a scope.
\<close>

definition flip_range :: "Flip \<Rightarrow> bool" where
  "flip_range f \<longleftrightarrow> in_int64 (At f) \<and> ValidString (From f) \<and> ValidString (To f) \<and> ValidString (Payload f)"

definition edge_range :: "Edge \<Rightarrow> bool" where
  "edge_range e \<longleftrightarrow>
     ValidString (LastValue e) \<and> in_int64 (LastChangeTS e) \<and> in_int64 (WindowStart e)
     \<and> in_int64 (FlipCount e) \<and> in_int64 (AggUntilTS e) \<and> (\<forall>f \<in> set (Recent e). flip_range f)"

definition flap_range :: "FlapConfig \<Rightarrow> bool" where
  "flap_range f \<longleftrightarrow>
     in_int64 (WindowSeconds f) \<and> in_int64 (SuppressBelow f) \<and> in_int64 (AggregateAt f)
     \<and> in_int64 (AggregateMaxItems f) \<and> in_int64 (AggregateCooldownSeconds f)"

definition config_range :: "ClientConfig \<Rightarrow> bool" where
  "config_range c \<longleftrightarrow>
     ValidString (ClientID c) \<and> ValidString (ClientName c) \<and> ValidString (ClientKey c)
     \<and> in_int64 (IPRPM c) \<and> in_int64 (ClientRPM c) \<and> ValidString (PassFieldExpr (Passthrough c))
     \<and> ValidString (FieldExpr (Trigger c)) \<and> (\<forall>x \<in> set (ScopeFields (Trigger c)). ValidString x)
     \<and> ValidString (SNSArn (Target (Trigger c))) \<and> in_int64 (SNSRPM (Target (Trigger c)))
     \<and> (case Flapping (Trigger c) of None \<Rightarrow> True | Some f \<Rightarrow> flap_range f)"

definition stored :: "string \<Rightarrow> Edge \<Rightarrow> Edge" where
  "stored k e = e\<lparr>ScopeKey := k, Version := 0\<rparr>"

type_synonym edge_map = "string \<times> string \<Rightarrow> (Edge \<times> int) option"

text \<open>
  The scope keys of the program are the results of \<^verbatim>\<open>ComputeKey\<close>, which contain no underscore; a store need
  only tell such scopes apart.
\<close>

definition scope_ok :: "string \<Rightarrow> bool" where
  "scope_ok k \<longleftrightarrow> CHR ''_'' \<notin> set k"

definition version_at :: "(Edge \<times> int) option \<Rightarrow> int" where
  "version_at x = (case x of None \<Rightarrow> 0 | Some (_, v) \<Rightarrow> v)"

definition epoch_minute :: "time \<Rightarrow> int" where
  "epoch_minute t = unix t sdiv 60"

locale edge_store =
  fixes ds :: "'s DataStore"
    and edges :: "'s \<Rightarrow> edge_map"
    and inv :: "'s \<Rightarrow> bool"
    and up :: "'s \<Rightarrow> bool"
  assumes stored_edge:
      "inv s \<Longrightarrow> edges s (c, k) = Some (e, v) \<Longrightarrow>
         0 < v \<and> v \<le> max_int64 \<and> edge_range e \<and> stored k e = e"
    and load:
      "inv s \<Longrightarrow> scope_ok k \<Longrightarrow> Load ds c k s = ((eo, v, err), s') \<Longrightarrow>
         inv s' \<and> edges s' = edges s \<and> (up s \<longrightarrow> up s' \<and> err = None)
         \<and> (err = None \<longrightarrow>
              (case edges s (c, k) of
                 None \<Rightarrow> eo = None \<and> v = 0
               | Some (e, w) \<Rightarrow> v = w \<and> (\<exists>e'. eo = Some e' \<and> e'\<lparr>Version := 0\<rparr> = e)))"
    and upsert_current:
      "inv s \<Longrightarrow> scope_ok k \<Longrightarrow> edge_range e \<Longrightarrow> pv = version_at (edges s (c, k)) \<Longrightarrow> pv < max_int64 \<Longrightarrow>
         UpsertCAS ds c k pv e s = ((ok, err), s') \<Longrightarrow>
         inv s' \<and> (up s \<longrightarrow> up s' \<and> err = None)
         \<and> (err = None \<longrightarrow> ok \<and> edges s' = (edges s)((c, k) \<mapsto> (stored k e, pv + 1)))
         \<and> (err \<noteq> None \<longrightarrow> edges s' = edges s \<or> edges s' = (edges s)((c, k) \<mapsto> (stored k e, pv + 1)))"

locale rate_limiter =
  fixes ds :: "'s DataStore"
    and granted :: "'s \<Rightarrow> string \<times> int \<Rightarrow> int"
    and inv :: "'s \<Rightarrow> bool"
    and up :: "'s \<Rightarrow> bool"
  assumes granted_nonneg: "inv s \<Longrightarrow> 0 \<le> granted s b"
    and acquire_off: "inv s \<Longrightarrow> rate \<le> 0 \<Longrightarrow> Acquire ds clk scope rate w s = ((False, None), s)"
    and acquire:
      "inv s \<Longrightarrow> 0 < rate \<Longrightarrow> rate \<le> max_int64 \<Longrightarrow> 0 < w \<Longrightarrow>
         Acquire ds clk scope rate w s = ((ok, err), s') \<Longrightarrow>
         b = (scope, epoch_minute (clk 0)) \<Longrightarrow>
         inv s' \<and> (up s \<longrightarrow> up s' \<and> err = None)
         \<and> (err = None \<longrightarrow> ok = (granted s b < rate))
         \<and> (err = None \<longrightarrow> granted s' = (if ok then (granted s)(b := granted s b + 1) else granted s))
         \<and> (err \<noteq> None \<longrightarrow> \<not> ok \<and> (granted s' = granted s \<or>
              (granted s b < rate \<and> granted s' = (granted s)(b := granted s b + 1))))"

locale seq_data_store = edge_store ds edges inv up + rate_limiter ds granted inv up
  for ds :: "'s DataStore" and edges granted inv up +
  assumes acquire_edges:
      "inv s \<Longrightarrow> rate \<le> max_int64 \<Longrightarrow> 0 < w \<Longrightarrow> Acquire ds clk scope rate w s = (ar, s') \<Longrightarrow> edges s' = edges s"
    and load_granted: "inv s \<Longrightarrow> scope_ok k \<Longrightarrow> Load ds c k s = (lr, s') \<Longrightarrow> granted s' = granted s"
    and upsert_granted: "inv s \<Longrightarrow> scope_ok k \<Longrightarrow> UpsertCAS ds c k pv e s = (ur, s') \<Longrightarrow> granted s' = granted s"

locale data_store = seq_data_store +
  assumes upsert_stale:
      "inv s \<Longrightarrow> scope_ok k \<Longrightarrow> edge_range e \<Longrightarrow> 0 \<le> pv \<Longrightarrow> pv < max_int64 \<Longrightarrow> pv \<noteq> version_at (edges s (c, k)) \<Longrightarrow>
         UpsertCAS ds c k pv e s = ((ok, err), s') \<Longrightarrow>
         inv s' \<and> (up s \<longrightarrow> up s' \<and> err = None) \<and> edges s' = edges s \<and> \<not> ok"

text \<open>The invariant of a store can be extended by anything its operations preserve.\<close>

lemma seq_data_store_frame:
  assumes st: "seq_data_store ds edges granted Inv up"
    and acq: "\<And>clk scope rate w s ar s'. Inv s \<Longrightarrow> Q s \<Longrightarrow> rate \<le> max_int64 \<Longrightarrow> 0 < w \<Longrightarrow>
           Acquire ds clk scope rate w s = (ar, s') \<Longrightarrow> Q s'"
    and ld: "\<And>c k s lr s'. Inv s \<Longrightarrow> Q s \<Longrightarrow> scope_ok k \<Longrightarrow> Load ds c k s = (lr, s') \<Longrightarrow> Q s'"
    and ups: "\<And>c k pv e s ur s'. Inv s \<Longrightarrow> Q s \<Longrightarrow> scope_ok k \<Longrightarrow> UpsertCAS ds c k pv e s = (ur, s') \<Longrightarrow> Q s'"
  shows "seq_data_store ds edges granted (\<lambda>s. Inv s \<and> Q s) up"
proof -
  note es = seq_data_store.axioms(1) [OF st] and rl = seq_data_store.axioms(2) [OF st]
  note laws = edge_store.stored_edge [OF es] edge_store.load [OF es] edge_store.upsert_current [OF es]
    rate_limiter.granted_nonneg [OF rl] rate_limiter.acquire_off [OF rl] rate_limiter.acquire [OF rl]
    seq_data_store.acquire_edges [OF st] seq_data_store.load_granted [OF st] seq_data_store.upsert_granted [OF st]
  show ?thesis
  proof (unfold_locales, goal_cases)
    case (1 s c k e v)
    then show ?case using laws(1) by blast
  next
    case (2 s k c eo v err s')
    then show ?case using laws(2) [of s k c eo v err s'] ld [of s k c] by blast
  next
    case (3 s k e pv c ok err s')
    then show ?case using laws(3) [of s k e pv c ok err s'] ups [of s k c] by blast
  next
    case (4 s b)
    then show ?case using laws(4) by blast
  next
    case (5 s rate clk scope w)
    then show ?case using laws(5) by blast
  next
    case (6 s rate w clk scope ok err s' b)
    then show ?case using laws(6) [of s rate w clk scope ok err s' b] acq [of s rate w clk scope] by blast
  next
    case (7 s rate w clk scope ar s')
    then show ?case using laws(7) by blast
  next
    case (8 s k c lr s')
    then show ?case using laws(8) by blast
  next
    case (9 s k c pv e ur s')
    then show ?case using laws(9) by blast
  qed
qed

lemma data_store_frame:
  assumes st: "data_store ds edges granted Inv up"
    and "\<And>clk scope rate w s ar s'. Inv s \<Longrightarrow> Q s \<Longrightarrow> rate \<le> max_int64 \<Longrightarrow> 0 < w \<Longrightarrow>
           Acquire ds clk scope rate w s = (ar, s') \<Longrightarrow> Q s'"
    and "\<And>c k s lr s'. Inv s \<Longrightarrow> Q s \<Longrightarrow> scope_ok k \<Longrightarrow> Load ds c k s = (lr, s') \<Longrightarrow> Q s'"
    and ups: "\<And>c k pv e s ur s'. Inv s \<Longrightarrow> Q s \<Longrightarrow> scope_ok k \<Longrightarrow> UpsertCAS ds c k pv e s = (ur, s') \<Longrightarrow> Q s'"
  shows "data_store ds edges granted (\<lambda>s. Inv s \<and> Q s) up"
proof (rule data_store.intro)
  show "seq_data_store ds edges granted (\<lambda>s. Inv s \<and> Q s) up"
    by (rule seq_data_store_frame [OF data_store.axioms(1) [OF st]]) (fact assms)+
  show "data_store_axioms ds edges (\<lambda>s. Inv s \<and> Q s) up"
  proof
    fix s k e pv c ok err s'
    assume a: "Inv s \<and> Q s" "scope_ok k" "edge_range e" "0 \<le> pv" "pv < max_int64" "pv \<noteq> version_at (edges s (c, k))"
      "UpsertCAS ds c k pv e s = ((ok, err), s')"
    then show "(Inv s' \<and> Q s') \<and> (up s \<longrightarrow> up s' \<and> err = None) \<and> edges s' = edges s \<and> \<not> ok"
      using data_store.upsert_stale [OF st, of s k e pv c ok err s'] ups [of s k c] by blast
  qed
qed

section \<open>The contract of ClientStore\<close>

text \<open>
  \<open>client_store\<close>: what \<^verbatim>\<open>PutClientConfig\<close>, \<^verbatim>\<open>GetClientConfig\<close> and \<^verbatim>\<open>DeleteClientConfig\<close> do to the
  configurations by client id; \<open>missing\<close> is the error for an unknown client.
\<close>

locale client_store =
  fixes cs :: "'s ClientStore"
    and configs :: "'s \<Rightarrow> string \<Rightarrow> ClientConfig option"
    and missing :: go_error
    and inv :: "'s \<Rightarrow> bool"
    and up :: "'s \<Rightarrow> bool"
  assumes get:
      "inv s \<Longrightarrow> up s \<Longrightarrow> GetClientConfig cs i s = (gr, s') \<Longrightarrow>
         inv s' \<and> up s' \<and> configs s' = configs s
         \<and> gr = (case configs s i of None \<Rightarrow> Inl missing | Some cc \<Rightarrow> Inr cc)"
    and put_invalid:
      "Validate cc = Some e \<Longrightarrow> PutClientConfig cs i cc s = (Some e, s)"
    and put_valid:
      "inv s \<Longrightarrow> up s \<Longrightarrow> config_range cc \<Longrightarrow> Validate cc = None \<Longrightarrow> PutClientConfig cs i cc s = (r, s') \<Longrightarrow>
         inv s' \<and> up s' \<and> r = None \<and> configs s' = (configs s)(i \<mapsto> cc)"
    and delete:
      "inv s \<Longrightarrow> up s \<Longrightarrow> DeleteClientConfig cs i s = (r, s') \<Longrightarrow>
         inv s' \<and> up s' \<and> r = None \<and> configs s' = (configs s)(i := None)"


section \<open>Consequences every store shares\<close>

lemma version_at_simps [simp]: "version_at None = 0" "version_at (Some (e, v)) = v"
  by (simp_all add: version_at_def)

lemma stored_simps [simp]:
  "ScopeKey (stored k e) = k" "Version (stored k e) = 0" "LastValue (stored k e) = LastValue e"
  "LastChangeTS (stored k e) = LastChangeTS e" "WindowStart (stored k e) = WindowStart e"
  "FlipCount (stored k e) = FlipCount e" "Recent (stored k e) = Recent e"
  "AggUntilTS (stored k e) = AggUntilTS e" "stored k (stored k e) = stored k e"
  by (simp_all add: stored_def)

lemma edge_range_stored [simp]: "edge_range (stored k e) = edge_range e"
  by (simp add: edge_range_def)

end
