(* ===== verification/Expressions.thy ===== *)
theory Expressions
  imports Types
begin

text \<open>
  \<^verbatim>\<open>internal/flow/common.go\<close>, \<^verbatim>\<open>jmes.go\<close> and \<^verbatim>\<open>passthrough.go\<close>: the actions, the evaluation of JMESPath
  expressions over a payload, and the passthrough rule.  The third-party packages are the fields of
  \<open>Libs\<close>: \<^verbatim>\<open>jmespath.Search\<close>, the JSON encoder and decoder (what \<^verbatim>\<open>Unmarshal\<close> leaves in a nil
  \<^verbatim>\<open>map[string]any\<close>, also when it fails) and the zstd encoder and decoder.
\<close>

section \<open>Third-party packages\<close>

record Libs =
  jmes_search :: "string \<Rightarrow> any \<Rightarrow> go_error + any"
  json_marshal :: "any \<Rightarrow> go_error + string"
  json_unmarshal :: "string \<Rightarrow> payload \<times> go_error option"
  zstd_encode :: "string \<Rightarrow> string"
  zstd_decode :: "string \<Rightarrow> go_error + string"

section \<open>Actions (common.go)\<close>

datatype Action =
    NoOp
  | SuppressFlapping
  | SuppressDedup
  | EdgeTriggeredForward
  | ForwardedAsIs
  | AggregateSent

fun StatusTextMap :: "Action \<Rightarrow> string" where
  "StatusTextMap NoOp = ''no_op''"
| "StatusTextMap SuppressFlapping = ''suppress_flap''"
| "StatusTextMap SuppressDedup = ''suppress_dedup''"
| "StatusTextMap EdgeTriggeredForward = ''edge_triggered_forward''"
| "StatusTextMap ForwardedAsIs = ''forwarded_as_is''"
| "StatusTextMap AggregateSent = ''aggregate_sent''"

text \<open>The package variable \<^verbatim>\<open>timeNow\<close>: what replaces it, and what puts \<^verbatim>\<open>time.Now\<close> back.\<close>

definition SetTimNowFn :: "clock \<Rightarrow> clock \<Rightarrow> clock" where
  "SetTimNowFn f timeNow = f"

definition RestoreTimeNow :: "clock \<Rightarrow> clock \<Rightarrow> clock" where
  "RestoreTimeNow time_Now timeNow = time_Now"

definition EpochTime :: "time \<Rightarrow> int" where
  "EpochTime t = unix t"

section \<open>JMESPath evaluation (jmes.go)\<close>

definition EvalAny :: "Libs \<Rightarrow> string \<Rightarrow> payload \<Rightarrow> go_error + any" where
  "EvalAny L expr p =
     (case jmes_search L expr (AnyMap p) of
        Inl e \<Rightarrow> Inl (Wrap ''jmespath'' e)
      | Inr v \<Rightarrow> Inr v)"

definition EvalString :: "Libs \<Rightarrow> string \<Rightarrow> payload \<Rightarrow> go_error + string option" where
  "EvalString L expr p =
     (case EvalAny L expr p of
        Inl e \<Rightarrow> Inl e
      | Inr v \<Rightarrow>
          (case v of
             AnyNil \<Rightarrow> Inr None
           | AnyStr t \<Rightarrow> Inr (Some t)
           | _ \<Rightarrow> (case json_marshal L v of Inl _ \<Rightarrow> Inr (Some []) | Inr b \<Rightarrow> Inr (Some b))))"

section \<open>Passthrough (passthrough.go)\<close>

definition CheckPassthrough :: "Libs \<Rightarrow> Passthrough \<Rightarrow> payload \<Rightarrow> bool" where
  "CheckPassthrough L cfg p =
     (if PassFieldExpr cfg = [] then False
      else case EvalAny L (PassFieldExpr cfg) p of
             Inl _ \<Rightarrow> False
           | Inr match \<Rightarrow>
               (case match of
                  AnyBool matched \<Rightarrow> (if Negate cfg then \<not> matched else matched)
                | _ \<Rightarrow> False))"

section \<open>Lemmas\<close>

lemma StatusTextMap_inject: "StatusTextMap a = StatusTextMap b \<longleftrightarrow> a = b"
  by (cases a; cases b) simp_all

lemma CheckPassthrough_iff:
  "CheckPassthrough L cfg p \<longleftrightarrow>
     PassFieldExpr cfg \<noteq> [] \<and> jmes_search L (PassFieldExpr cfg) (AnyMap p) = Inr (AnyBool (\<not> Negate cfg))"
  by (auto simp: CheckPassthrough_def EvalAny_def split: sum.splits any.splits if_splits)

end
