(* ===== verification/Base64.thy ===== *)
theory Base64
  imports Utf8
begin

text \<open>
  Go's \<^verbatim>\<open>encoding/base64\<close> with \<^verbatim>\<open>RawURLEncoding\<close>: the URL-safe alphabet and no padding.  Flips keep
  their payload in this encoding.  Decoding skips \<^verbatim>\<open>\r\<close> and \<^verbatim>\<open>\n\<close>, refuses every other byte outside
  the alphabet and a last group of one character, and (not being \<^verbatim>\<open>Strict\<close>) ignores the unused low
  bits of a short last group.
\<close>

section \<open>The alphabet\<close>

definition enc_char :: "nat \<Rightarrow> char" where
  "enc_char n =
     (if n < 26 then char_of (65 + n)
      else if n < 52 then char_of (97 + (n - 26))
      else if n < 62 then char_of (48 + (n - 52))
      else if n = 62 then CHR ''-''
      else CHR ''_'')"

definition dec_char :: "char \<Rightarrow> nat option" where
  "dec_char c =
     (let k = (of_char c :: nat) in
      if 65 \<le> k \<and> k \<le> 90 then Some (k - 65)
      else if 97 \<le> k \<and> k \<le> 122 then Some (k - 97 + 26)
      else if 48 \<le> k \<and> k \<le> 57 then Some (k - 48 + 52)
      else if k = 45 then Some 62
      else if k = 95 then Some 63
      else None)"


section \<open>Encoding and decoding\<close>

fun encode_bytes :: "nat list \<Rightarrow> nat list" where
  "encode_bytes [] = []"
| "encode_bytes [a] = [a div 4, a mod 4 * 16]"
| "encode_bytes [a, b] = [a div 4, a mod 4 * 16 + b div 16, b mod 16 * 4]"
| "encode_bytes (a # b # c # r) =
     a div 4 # (a mod 4 * 16 + b div 16) # (b mod 16 * 4 + c div 64) # c mod 64 # encode_bytes r"

definition EncodeToString :: "string \<Rightarrow> string" where
  "EncodeToString s = map enc_char (encode_bytes (map of_char s))"

fun decode_sextets :: "nat list \<Rightarrow> nat list option" where
  "decode_sextets [] = Some []"
| "decode_sextets [a] = None"
| "decode_sextets [a, b] = Some [a * 4 + b div 16]"
| "decode_sextets [a, b, c] = Some [a * 4 + b div 16, b mod 16 * 16 + c div 4]"
| "decode_sextets (a # b # c # d # r) =
     (case decode_sextets r of
        None \<Rightarrow> None
      | Some bs \<Rightarrow> Some ((a * 4 + b div 16) # (b mod 16 * 16 + c div 4) # (c mod 4 * 64 + d) # bs))"

fun dec_chars :: "string \<Rightarrow> nat list option" where
  "dec_chars [] = Some []"
| "dec_chars (c # cs) =
     (case dec_char c of
        None \<Rightarrow> None
      | Some d \<Rightarrow> (case dec_chars cs of None \<Rightarrow> None | Some ds \<Rightarrow> Some (d # ds)))"

definition DecodeString :: "string \<Rightarrow> go_error + string" where
  "DecodeString s =
     (case dec_chars (filter (\<lambda>c. c \<noteq> CHR 0x0A \<and> c \<noteq> CHR 0x0D) s) of
        None \<Rightarrow> Inl (LibErr ''illegal base64 data'')
      | Some ds \<Rightarrow> (case decode_sextets ds of
          None \<Rightarrow> Inl (LibErr ''illegal base64 data'')
        | Some bs \<Rightarrow> Inr (map char_of bs)))"


section \<open>The round trip\<close>

lemma of_char_enc_char:
  assumes "n < 64"
  shows "of_char (enc_char n) =
    (if n < 26 then 65 + n else if n < 52 then 71 + n else if n < 62 then n - 4
     else if n = 62 then 45 else (95::nat))"
  using assms by (simp add: enc_char_def)

lemma dec_enc_char [simp]: "n < 64 \<Longrightarrow> dec_char (enc_char n) = Some n"
  by (simp add: dec_char_def of_char_enc_char Let_def) arith

lemma enc_char_not_newline [simp]:
  assumes "n < 64"
  shows "enc_char n \<noteq> CHR 0x0A" "enc_char n \<noteq> CHR 0x0D"
  using dec_enc_char [OF assms] by (auto simp: dec_char_def)

lemma encode_bytes_sextets: "\<forall>b \<in> set bs. b < 256 \<Longrightarrow> \<forall>x \<in> set (encode_bytes bs). x < 64"
  by (induction bs rule: encode_bytes.induct) (simp_all, linarith+)

text \<open>The high part of a byte fits the low bits of the sextet that carries it.\<close>

lemma high_part_fits:
  fixes b :: nat
  assumes "b < 256"
  shows "b div 16 div 16 = 0" "b div 16 mod 16 = b div 16" "b div 64 div 4 = 0" "b div 64 mod 4 = b div 64"
proof -
  from assms have "b div 16 < 16" and "b div 64 < 4" by (simp_all add: less_mult_imp_div_less)
  then show "b div 16 div 16 = 0" "b div 16 mod 16 = b div 16" "b div 64 div 4 = 0" "b div 64 mod 4 = b div 64"
    by simp_all
qed

lemma decode_encode_sextets: "\<forall>b \<in> set bs. b < 256 \<Longrightarrow> decode_sextets (encode_bytes bs) = Some bs"
  by (induction bs rule: encode_bytes.induct) (simp_all add: high_part_fits)

lemma dec_chars_map_enc: "\<forall>x \<in> set xs. x < 64 \<Longrightarrow> dec_chars (map enc_char xs) = Some xs"
  by (induction xs) auto

lemma filter_map_enc:
  "\<forall>x \<in> set xs. x < 64 \<Longrightarrow>
     filter (\<lambda>c. c \<noteq> CHR 0x0A \<and> c \<noteq> CHR 0x0D) (map enc_char xs) = map enc_char xs"
  by (induction xs) auto

lemma DecodeString_EncodeToString [simp]: "DecodeString (EncodeToString s) = Inr s"
proof -
  let ?bs = "map of_char s :: nat list"
  have bytes: "\<forall>b \<in> set ?bs. b < 256" by auto
  show ?thesis
    by (simp add: DecodeString_def EncodeToString_def filter_map_enc encode_bytes_sextets [OF bytes]
        dec_chars_map_enc decode_encode_sextets [OF bytes] o_def)
qed

lemma EncodeToString_eq_Nil [simp]: "EncodeToString s = [] \<longleftrightarrow> s = []"
  by (cases "map of_char s :: nat list" rule: encode_bytes.cases) (auto simp: EncodeToString_def)

lemma ValidString_EncodeToString [simp]: "ValidString (EncodeToString s)"
  by (rule ValidString_ascii) (auto simp: EncodeToString_def enc_char_def)

end
