(* ===== verification/Edge_Flap.thy ===== *)
theory Edge_Flap
  imports Ports Expressions Base64
begin

text \<open>
  \<^verbatim>\<open>internal/flow/edge_flap.go\<close>: edge detection and flapping control over a \<^verbatim>\<open>DataStore\<close>.

  The definitions follow the body of \<^verbatim>\<open>EvaluateEdgeAndFlap\<close> from top to bottom: \<open>observe_flip\<close> records
  the flip, \<open>roll_window\<close> opens a new window or counts the flip, \<open>try_aggregate\<close> decides about the
  aggregate, and the commits are its calls of \<^verbatim>\<open>UpsertCAS\<close>.  \<open>edge_step\<close> is the same decision without
  the store: what one observation does to the edge of a scope.  \<open>edge_store.evaluate_refines\<close> shows
  that over any store that keeps its contract the code does exactly this step; the properties of
  sequences of observations are then about \<open>edge_step\<close>.
\<close>

section \<open>Payload encoding\<close>

text \<open>
  The package's \<^verbatim>\<open>init\<close>: the results of \<^verbatim>\<open>zstd.NewWriter\<close> and \<^verbatim>\<open>zstd.NewReader\<close> become the package's encoder and
  decoder; an error is a panic with the text given.
\<close>

definition init_codecs :: "go_error + 'enc \<Rightarrow> go_error + 'dec \<Rightarrow> string + 'enc \<times> 'dec" where
  "init_codecs NewWriter NewReader =
     (case NewWriter of
        Inl err \<Rightarrow> Inl (''failed to create zstd encoder: '' @ error_text err)
      | Inr enc \<Rightarrow>
          (case NewReader of
             Inl err \<Rightarrow> Inl (''failed to create zstd decoder: '' @ error_text err)
           | Inr dec \<Rightarrow> Inr (enc, dec)))"

definition EncodePayload :: "Libs \<Rightarrow> payload \<Rightarrow> go_error + string" where
  "EncodePayload L d =
     (case json_marshal L (AnyMap d) of
        Inl err \<Rightarrow> Inl err
      | Inr s \<Rightarrow> Inr (EncodeToString (zstd_encode L s)))"

definition DecodePayload :: "Libs \<Rightarrow> string \<Rightarrow> go_error + string" where
  "DecodePayload L inp =
     (case DecodeString inp of
        Inl err \<Rightarrow> Inl err
      | Inr b \<Rightarrow> (case zstd_decode L b of Inl err \<Rightarrow> Inl err | Inr out \<Rightarrow> Inr out))"

section \<open>The aggregate message\<close>

text \<open>The body of the loop of \<^verbatim>\<open>BuildAggregate\<close>: one flip with its decoded payload.\<close>

definition agg_payload :: "Libs \<Rightarrow> Flip \<Rightarrow> payload" where
  "agg_payload L it =
     (if Payload it \<noteq> [] then
        (case DecodePayload L (Payload it) of
           Inl _ \<Rightarrow> None
         | Inr b \<Rightarrow> fst (json_unmarshal L b))
      else None)"

definition agg_item :: "Libs \<Rightarrow> Flip \<Rightarrow> any" where
  "agg_item L it =
     AnyMap (Some [''at'' \<mapsto> AnyInt (At it), ''from'' \<mapsto> AnyStr (From it), ''to'' \<mapsto> AnyStr (To it),
                   ''payload'' \<mapsto> AnyMap (agg_payload L it)])"

text \<open>\<^verbatim>\<open>for i := num - 1; i > num-k-1; i--\<close>: the loop from index \<^term>\<open>i\<close> down to \<^term>\<open>lo\<close>, exclusive.\<close>

function agg_loop :: "Libs \<Rightarrow> Flip list \<Rightarrow> int \<Rightarrow> int \<Rightarrow> any list" where
  "agg_loop L rs i lo = (if i > lo then agg_item L (rs ! nat i) # agg_loop L rs (i - 1) lo else [])"
  by pat_completeness auto
termination
  by (relation "measure (\<lambda>(L, rs, i, lo). nat (i - lo))") auto

declare agg_loop.simps [simp del]

definition agg_items :: "Libs \<Rightarrow> Flip list \<Rightarrow> int \<Rightarrow> any list" where
  "agg_items L rs k =
     (let num = int (length rs) in
      if k > 0 \<and> num > 0 then
        (let k1 = (if k > num then num else k) in agg_loop L rs (num - 1) (num - k1 - 1))
      else [])"

definition BuildAggregate :: "Libs \<Rightarrow> Edge \<Rightarrow> int \<Rightarrow> payload" where
  "BuildAggregate L e k =
     Some [''type'' \<mapsto> AnyStr ''flap_aggregate'', ''scope'' \<mapsto> AnyStr (ScopeKey e),
           ''last_value'' \<mapsto> AnyStr (LastValue e), ''window_start'' \<mapsto> AnyInt (WindowStart e),
           ''flip_count'' \<mapsto> AnyInt (FlipCount e), ''recent'' \<mapsto> AnySlice (agg_items L (Recent e) k)]"

section \<open>One observation\<close>

definition initial_edge :: "int \<Rightarrow> string \<Rightarrow> Edge" where
  "initial_edge now newVal =
     \<lparr>ScopeKey = [], LastValue = newVal, LastChangeTS = now, WindowStart = now, FlipCount = 0,
      Recent = [], AggUntilTS = 0, Version = 0\<rparr>"

definition observe_flip :: "int \<Rightarrow> string \<Rightarrow> string \<Rightarrow> Edge \<Rightarrow> Edge" where
  "observe_flip now newVal encoded e =
     e\<lparr>Recent := AppendRecent (Recent e)
                   \<lparr>At = now, From = LastValue e, To = newVal, Payload = encoded\<rparr> HardLimitRecentItems,
       LastValue := newVal,
       LastChangeTS := now\<rparr>"

definition roll_window :: "FlapConfig \<Rightarrow> int \<Rightarrow> Edge \<Rightarrow> Edge \<times> bool" where
  "roll_window f now e =
     (if WindowSeconds f > 0 \<and> sub64 now (WindowStart e) > WindowSeconds f then
        (let e1 = e\<lparr>WindowStart := now, FlipCount := 1\<rparr>;
             e2 = (if length (Recent e1) > 0
                   then e1\<lparr>Recent := drop (length (Recent e1) - 1) (Recent e1)\<rparr> else e1)
         in (e2, True))
      else (e\<lparr>FlipCount := add64 (FlipCount e) 1\<rparr>, False))"

definition try_aggregate :: "Libs \<Rightarrow> FlapConfig \<Rightarrow> int \<Rightarrow> Edge \<Rightarrow> Edge \<times> Action \<times> payload" where
  "try_aggregate L f now e =
     (if FlipCount e smod AggregateAt f = 0 \<and> now \<ge> AggUntilTS e
         \<and> int (length (Recent e)) \<ge> AggregateAt f then
        (let e1 = e\<lparr>AggUntilTS := add64 now (AggregateCooldownSeconds f)\<rparr>;
             agg = BuildAggregate L e1 (AggregateMaxItems f)
         in (e1\<lparr>Recent := []\<rparr>, AggregateSent, agg))
      else (e, SuppressFlapping, None))"

text \<open>The last statement of \<^verbatim>\<open>EvaluateEdgeAndFlap\<close>: commit, and forward if the commit won.\<close>

definition commit_forward ::
    "'s DataStore \<Rightarrow> string \<Rightarrow> string \<Rightarrow> int \<Rightarrow> Edge \<Rightarrow> 's \<Rightarrow> (Action \<times> payload \<times> go_error option) \<times> 's" where
  "commit_forward store clientID scopeKey ver e s =
     (case UpsertCAS store clientID scopeKey ver e s of
        ((ok, err), s1) \<Rightarrow>
          (case err of
             Some x \<Rightarrow> ((NoOp, None, Some x), s1)
           | None \<Rightarrow> if ok then ((EdgeTriggeredForward, None, None), s1) else ((NoOp, None, None), s1)))"

text \<open>The commit of the aggregate path.\<close>

definition commit_aggregate ::
    "'s DataStore \<Rightarrow> string \<Rightarrow> string \<Rightarrow> int \<Rightarrow> Edge \<Rightarrow> Action \<Rightarrow> payload \<Rightarrow> 's \<Rightarrow>
       (Action \<times> payload \<times> go_error option) \<times> 's" where
  "commit_aggregate store clientID scopeKey ver e action agg s =
     (case UpsertCAS store clientID scopeKey ver e s of
        ((ok, err), s1) \<Rightarrow>
          (case err of
             Some x \<Rightarrow> ((SuppressFlapping, None, Some x), s1)
           | None \<Rightarrow> if ok then ((action, agg, None), s1) else ((NoOp, None, None), s1)))"

text \<open>The part of \<^verbatim>\<open>EvaluateEdgeAndFlap\<close> after a flip was recorded.\<close>

definition evaluate_flip ::
    "Libs \<Rightarrow> 's DataStore \<Rightarrow> int \<Rightarrow> string \<Rightarrow> string \<Rightarrow> FlapConfig option \<Rightarrow> int \<Rightarrow> Edge \<Rightarrow> 's \<Rightarrow>
       (Action \<times> payload \<times> go_error option) \<times> 's" where
  "evaluate_flip L store now clientID scopeKey flap ver e s =
     (case flap of
        None \<Rightarrow> commit_forward store clientID scopeKey ver e s
      | Some f \<Rightarrow>
          (case roll_window f now e of
             (e1, newWindow) \<Rightarrow>
               if FlipCount e1 \<le> SuppressBelow f then
                 (case UpsertCAS store clientID scopeKey ver e1 s of
                    (_, s1) \<Rightarrow> ((SuppressFlapping, None, None), s1))
               else if AggregateAt f > 0 \<and> \<not> newWindow then
                 (case try_aggregate L f now e1 of
                    (e2, action, agg) \<Rightarrow> commit_aggregate store clientID scopeKey ver e2 action agg s)
               else commit_forward store clientID scopeKey ver e1 s))"

text \<open>Everything after the call of \<^verbatim>\<open>Load\<close>; \<open>EvaluateEdgeAndFlap\<close> is \<^verbatim>\<open>Load\<close> followed by it.\<close>

definition evaluate_loaded ::
    "Libs \<Rightarrow> 's DataStore \<Rightarrow> int \<Rightarrow> string \<Rightarrow> string \<Rightarrow> string \<Rightarrow> FlapConfig option \<Rightarrow> payload \<Rightarrow>
       Edge option \<times> int \<times> go_error option \<Rightarrow> 's \<Rightarrow> (Action \<times> payload \<times> go_error option) \<times> 's" where
  "evaluate_loaded L store now clientID scopeKey newVal flap p loaded s =
     (case loaded of
        (edgeInfo, ver, err) \<Rightarrow>
          (case err of
             Some x \<Rightarrow> ((NoOp, None, Some x), s)
           | None \<Rightarrow>
               (case edgeInfo of
                  None \<Rightarrow>
                    (case UpsertCAS store clientID scopeKey 0 (initial_edge now newVal) s of
                       ((ok, err2), s1) \<Rightarrow>
                         (case err2 of
                            Some x \<Rightarrow> ((NoOp, None, Some x), s1)
                          | None \<Rightarrow> if ok then ((EdgeTriggeredForward, None, None), s1)
                                    else ((SuppressFlapping, None, None), s1)))
                | Some e \<Rightarrow>
                    if LastValue e = newVal then ((NoOp, None, None), s)
                    else (case EncodePayload L p of
                            Inl x \<Rightarrow> ((NoOp, None, Some x), s)
                          | Inr encoded \<Rightarrow>
                              evaluate_flip L store now clientID scopeKey flap ver
                                (observe_flip now newVal encoded e) s))))"

definition EvaluateEdgeAndFlap ::
    "Libs \<Rightarrow> 's DataStore \<Rightarrow> time \<Rightarrow> string \<Rightarrow> string \<Rightarrow> string \<Rightarrow> FlapConfig option \<Rightarrow> payload \<Rightarrow> 's \<Rightarrow>
       (Action \<times> payload \<times> go_error option) \<times> 's" where
  "EvaluateEdgeAndFlap L store t clientID scopeKey newVal flap p s =
     (let now = EpochTime t in
      case Load store clientID scopeKey s of
        (loaded, s1) \<Rightarrow> evaluate_loaded L store now clientID scopeKey newVal flap p loaded s1)"

section \<open>The step without the store\<close>

text \<open>
  What an observation of value \<^term>\<open>v\<close> (with encoded payload \<^term>\<open>enc\<close>) does when the commit wins: the
  action, the aggregate, and the edge to write, if any.
\<close>

definition flip_step :: "Libs \<Rightarrow> FlapConfig option \<Rightarrow> int \<Rightarrow> Edge \<Rightarrow> Action \<times> payload \<times> Edge" where
  "flip_step L flap now e =
     (case flap of
        None \<Rightarrow> (EdgeTriggeredForward, None, e)
      | Some f \<Rightarrow>
          (case roll_window f now e of
             (e1, newWindow) \<Rightarrow>
               if FlipCount e1 \<le> SuppressBelow f then (SuppressFlapping, None, e1)
               else if AggregateAt f > 0 \<and> \<not> newWindow then
                 (case try_aggregate L f now e1 of (e2, action, agg) \<Rightarrow> (action, agg, e2))
               else (EdgeTriggeredForward, None, e1)))"

definition edge_step ::
    "Libs \<Rightarrow> FlapConfig option \<Rightarrow> int \<Rightarrow> string \<Rightarrow> string \<Rightarrow> Edge option \<Rightarrow> Action \<times> payload \<times> Edge option" where
  "edge_step L flap now v enc eo =
     (case eo of
        None \<Rightarrow> (EdgeTriggeredForward, None, Some (initial_edge now v))
      | Some e \<Rightarrow>
          if LastValue e = v then (NoOp, None, None)
          else (case flip_step L flap now (observe_flip now v enc e) of
                  (action, agg, e1) \<Rightarrow> (action, agg, Some e1)))"

section \<open>Lemmas: the parts of a step\<close>

lemma observe_flip_simps [simp]:
  "LastValue (observe_flip now v enc e) = v"
  "LastChangeTS (observe_flip now v enc e) = now"
  "WindowStart (observe_flip now v enc e) = WindowStart e"
  "FlipCount (observe_flip now v enc e) = FlipCount e"
  "AggUntilTS (observe_flip now v enc e) = AggUntilTS e"
  "ScopeKey (observe_flip now v enc e) = ScopeKey e"
  "length (Recent (observe_flip now v enc e)) = min 128 (Suc (length (Recent e)))"
  by (simp_all add: observe_flip_def length_AppendRecent HardLimitRecentItems_def)

lemma initial_edge_simps [simp]:
  "LastValue (initial_edge now v) = v" "FlipCount (initial_edge now v) = 0"
  "WindowStart (initial_edge now v) = now" "Recent (initial_edge now v) = []"
  "AggUntilTS (initial_edge now v) = 0" "LastChangeTS (initial_edge now v) = now"
  by (simp_all add: initial_edge_def)

lemma roll_window_same:
  "\<not> sub64 now (WindowStart e) > WindowSeconds f \<Longrightarrow>
     roll_window f now e = (e\<lparr>FlipCount := add64 (FlipCount e) 1\<rparr>, False)"
  by (simp add: roll_window_def)

lemma roll_window_new:
  "WindowSeconds f > 0 \<Longrightarrow> sub64 now (WindowStart e) > WindowSeconds f \<Longrightarrow>
     roll_window f now e = (e\<lparr>WindowStart := now, FlipCount := 1, Recent := lastn 1 (Recent e)\<rparr>, True)"
  by (auto simp: roll_window_def Let_def lastn_def)

lemma roll_window_keeps:
  assumes "roll_window f now e = (e1, nw)"
  shows "LastValue e1 = LastValue e" and "LastChangeTS e1 = LastChangeTS e"
    and "AggUntilTS e1 = AggUntilTS e" and "ScopeKey e1 = ScopeKey e"
    and "length (Recent e1) \<le> length (Recent e)" and "set (Recent e1) \<subseteq> set (Recent e)"
  using assms by (auto simp: roll_window_def Let_def split: if_splits dest: in_set_dropD)

lemma flip_step_keeps:
  assumes "flip_step L flap now e = (a, g, e1)"
  shows "LastValue e1 = LastValue e" and "LastChangeTS e1 = LastChangeTS e" and "ScopeKey e1 = ScopeKey e"
    and "length (Recent e1) \<le> length (Recent e)" and "set (Recent e1) \<subseteq> set (Recent e)"
    and "a \<in> {SuppressFlapping, EdgeTriggeredForward, AggregateSent}"
  using assms
  by (auto simp: flip_step_def try_aggregate_def Let_def
      split: option.splits prod.splits if_splits dest: roll_window_keeps)

lemma roll_window_range:
  assumes "edge_range e" and "in_int64 now" and "roll_window f now e = (e1, nw)"
  shows "edge_range e1"
proof -
  have "set (Recent e1) \<subseteq> set (Recent e)" by (rule roll_window_keeps(6) [OF assms(3)])
  then show ?thesis
    using assms by (auto simp: roll_window_def edge_range_def Let_def split: if_splits)
qed

lemma try_aggregate_range:
  "edge_range e \<Longrightarrow> try_aggregate L f now e = (e1, a, g) \<Longrightarrow> edge_range e1"
  by (auto simp: try_aggregate_def edge_range_def Let_def split: if_splits)

lemma observe_flip_range:
  "edge_range e \<Longrightarrow> in_int64 now \<Longrightarrow> ValidString v \<Longrightarrow> ValidString enc \<Longrightarrow>
     edge_range (observe_flip now v enc e)"
  using set_AppendRecent [of "Recent e" "\<lparr>At = now, From = LastValue e, To = v, Payload = enc\<rparr>" HardLimitRecentItems]
  by (auto simp: edge_range_def flip_range_def observe_flip_def)

lemma initial_edge_range: "in_int64 now \<Longrightarrow> ValidString v \<Longrightarrow> edge_range (initial_edge now v)"
  by (simp add: edge_range_def initial_edge_def)

lemma flip_step_range:
  "edge_range e \<Longrightarrow> in_int64 now \<Longrightarrow> flip_step L flap now e = (a, g, e1) \<Longrightarrow> edge_range e1"
  by (auto simp: flip_step_def split: option.splits prod.splits if_splits
      dest: roll_window_range intro: try_aggregate_range)

lemma edge_step_range:
  "(\<And>e. eo = Some e \<Longrightarrow> edge_range e) \<Longrightarrow> in_int64 now \<Longrightarrow> ValidString v \<Longrightarrow> ValidString enc \<Longrightarrow>
     edge_step L flap now v enc eo = (a, g, Some e1) \<Longrightarrow> edge_range e1"
  by (auto simp: edge_step_def initial_edge_range split: option.splits if_splits prod.splits
      dest: flip_step_range [OF observe_flip_range])

text \<open>The version inside the record plays no role: a step commutes with changing it.\<close>

lemma observe_flip_version:
  "observe_flip now v enc (e\<lparr>Version := x\<rparr>) = (observe_flip now v enc e)\<lparr>Version := x\<rparr>"
  by (simp add: observe_flip_def)

lemma BuildAggregate_version: "BuildAggregate L (e\<lparr>Version := x\<rparr>) k = BuildAggregate L e k"
  by (simp add: BuildAggregate_def)

lemma flip_step_version:
  "flip_step L flap now (e\<lparr>Version := x\<rparr>) =
     (case flip_step L flap now e of (a, g, e1) \<Rightarrow> (a, g, e1\<lparr>Version := x\<rparr>))"
  using BuildAggregate_version
  by (auto simp: flip_step_def try_aggregate_def roll_window_def Let_def BuildAggregate_def
      split: option.splits prod.splits)

section \<open>The code over a store does the step\<close>

lemma EncodePayload_text: "EncodePayload L p = Inr enc \<Longrightarrow> ValidString enc"
  by (auto simp: EncodePayload_def split: sum.splits)

lemma evaluate_flip_committed:
  "flip_step L flap now e = (a, g, e1) \<Longrightarrow> UpsertCAS ds c k ver e1 s = ((True, None), s') \<Longrightarrow>
     evaluate_flip L ds now c k flap ver e s = ((a, g, None), s')"
  by (auto simp: flip_step_def evaluate_flip_def commit_forward_def commit_aggregate_def
      split: option.splits prod.splits if_splits)

text \<open>The step on the edge as loaded, whose version is the stored one, commits the same edge.\<close>

lemma flip_step_loaded:
  assumes fs: "flip_step L flap now (observe_flip now v enc (e\<lparr>Version := 0\<rparr>)) = (a, g, e1)"
    and rng: "edge_range (e\<lparr>Version := 0\<rparr>)" and now: "in_int64 now" and v: "ValidString v"
    and enc: "EncodePayload L p = Inr enc"
  obtains e2 where "flip_step L flap now (observe_flip now v enc e) = (a, g, e2)"
    and "edge_range e2" and "stored k e2 = stored k e1"
proof -
  define e2 where "e2 = e1\<lparr>Version := Version e\<rparr>"
  have "observe_flip now v enc e = (observe_flip now v enc (e\<lparr>Version := 0\<rparr>))\<lparr>Version := Version e\<rparr>"
    by (simp add: observe_flip_def)
  then have "flip_step L flap now (observe_flip now v enc e) = (a, g, e2)"
    by (simp add: flip_step_version fs e2_def)
  moreover have "edge_range e1"
    by (rule flip_step_range [OF observe_flip_range [OF rng now v EncodePayload_text [OF enc]] now fs])
  then have "edge_range e2" by (simp add: e2_def edge_range_def)
  ultimately show thesis by (intro that [of e2]) (simp_all add: e2_def stored_def)
qed

context edge_store
begin

lemma load_up:
  assumes "inv s" and "up s" and "scope_ok k"
  obtains eo s' where "Load ds c k s = ((eo, version_at (edges s (c, k)), None), s')"
    and "inv s'" and "up s'" and "edges s' = edges s"
    and "map_option (\<lambda>e. e\<lparr>Version := 0\<rparr>) eo = map_option fst (edges s (c, k))"
proof -
  obtain eo v err s' where l: "Load ds c k s = ((eo, v, err), s')" by (metis surj_pair)
  from load [OF assms(1,3) l] assms(2) have
    "err = None" "inv s'" "up s'" "edges s' = edges s" "v = version_at (edges s (c, k))"
    "map_option (\<lambda>e. e\<lparr>Version := 0\<rparr>) eo = map_option fst (edges s (c, k))"
    by (auto split: option.splits)
  with l show thesis by (intro that [of eo s']) simp_all
qed

lemma upsert_up:
  assumes "inv s" and "up s" and "scope_ok k" and "edge_range e" and "version_at (edges s (c, k)) < max_int64"
  obtains s' where "UpsertCAS ds c k (version_at (edges s (c, k))) e s = ((True, None), s')"
    and "inv s'" and "up s'"
    and "edges s' = (edges s)((c, k) \<mapsto> (stored k e, version_at (edges s (c, k)) + 1))"
proof -
  obtain ok err s' where u: "UpsertCAS ds c k (version_at (edges s (c, k))) e s = ((ok, err), s')"
    by (metis surj_pair)
  from upsert_current [OF assms(1,3,4) refl assms(5) u] assms(2) have
    "ok" "err = None" "inv s'" "up s'"
    "edges s' = (edges s)((c, k) \<mapsto> (stored k e, version_at (edges s (c, k)) + 1))"
    by auto
  with u show thesis by (intro that [of s']) simp_all
qed

text \<open>
  The part after \<^verbatim>\<open>Load\<close>, when the loaded edge is still the stored one and the service answers: it
  returns the action and the aggregate of \<^const>\<open>edge_step\<close> and commits its edge.
\<close>

lemma evaluate_loaded_current:
  assumes s: "inv s" "up s" and k: "scope_ok k" and now: "in_int64 (unix t)" and v: "ValidString v"
    and enc: "EncodePayload L p = Inr enc"
    and ver: "version_at (edges s (c, k)) < max_int64"
    and eo: "map_option (\<lambda>e. e\<lparr>Version := 0\<rparr>) eo = map_option fst (edges s (c, k))"
    and step: "edge_step L flap (unix t) v enc (map_option fst (edges s (c, k))) = (a, g, w)"
  shows "\<exists>s'. evaluate_loaded L ds (unix t) c k v flap p (eo, version_at (edges s (c, k)), None) s = ((a, g, None), s')
    \<and> inv s' \<and> up s' \<and> edges s' = (case w of None \<Rightarrow> edges s
        | Some e \<Rightarrow> (edges s)((c, k) \<mapsto> (stored k e, version_at (edges s (c, k)) + 1)))"
proof (cases eo)
  case None
  then have none: "edges s (c, k) = None" using eo by (cases "edges s (c, k)") auto
  obtain s' where "UpsertCAS ds c k (version_at (edges s (c, k))) (initial_edge (unix t) v) s = ((True, None), s')"
    and "inv s'" "up s'"
    and "edges s' = (edges s)((c, k) \<mapsto> (stored k (initial_edge (unix t) v), version_at (edges s (c, k)) + 1))"
    by (rule upsert_up [OF s k initial_edge_range [OF now v] ver])
  then show ?thesis using none step None by (auto simp: evaluate_loaded_def edge_step_def)
next
  case (Some e')
  then obtain e x where e: "edges s (c, k) = Some (e, x)" and e': "e = e'\<lparr>Version := 0\<rparr>"
    using eo by (cases "edges s (c, k)") auto
  have rng: "edge_range e" using stored_edge [OF s(1) e] by simp
  show ?thesis
  proof (cases "LastValue e' = v")
    case True
    then show ?thesis using step s e e' Some by (auto simp: evaluate_loaded_def edge_step_def)
  next
    case False
    obtain e1 where fs: "flip_step L flap (unix t) (observe_flip (unix t) v enc e) = (a, g, e1)"
      and w: "w = Some e1"
      using step e e' False by (auto simp: edge_step_def split: prod.splits)
    obtain e2 where fs': "flip_step L flap (unix t) (observe_flip (unix t) v enc e') = (a, g, e2)"
      and rng2: "edge_range e2" and st: "stored k e2 = stored k e1"
      by (rule flip_step_loaded [OF fs [unfolded e'] rng [unfolded e'] now v enc])
    obtain s' where u: "UpsertCAS ds c k (version_at (edges s (c, k))) e2 s = ((True, None), s')"
      and s': "inv s'" "up s'" "edges s' = (edges s)((c, k) \<mapsto> (stored k e2, version_at (edges s (c, k)) + 1))"
      by (rule upsert_up [OF s k rng2 ver])
    from evaluate_flip_committed [OF fs' u]
    show ?thesis using s' w False Some enc st by (auto simp: evaluate_loaded_def)
  qed
qed

text \<open>
  The refinement: from a state in which the service answers, one call of \<^verbatim>\<open>EvaluateEdgeAndFlap\<close>
  returns the action and the aggregate of \<^const>\<open>edge_step\<close> on the stored edge, and stores the edge the
  step writes under the next version.
\<close>

lemma evaluate_refines:
  assumes s: "inv s" "up s" and k: "scope_ok k"
    and now: "in_int64 (unix t)" and v: "ValidString v"
    and enc: "EncodePayload L p = Inr enc"
    and ver: "version_at (edges s (c, k)) < max_int64"
    and step: "edge_step L flap (unix t) v enc (map_option fst (edges s (c, k))) = (a, g, w)"
  shows "\<exists>s'. EvaluateEdgeAndFlap L ds t c k v flap p s = ((a, g, None), s') \<and> inv s' \<and> up s'
    \<and> edges s' = (case w of None \<Rightarrow> edges s
        | Some e \<Rightarrow> (edges s)((c, k) \<mapsto> (stored k e, version_at (edges s (c, k)) + 1)))"
proof -
  obtain eo s1 where l: "Load ds c k s = ((eo, version_at (edges s (c, k)), None), s1)"
    and s1: "inv s1" "up s1" "edges s1 = edges s"
    and eo: "map_option (\<lambda>e. e\<lparr>Version := 0\<rparr>) eo = map_option fst (edges s (c, k))"
    by (rule load_up [OF s k])
  show ?thesis
    using evaluate_loaded_current [OF s1(1,2) k now v enc, of c eo flap a g w, unfolded s1(3), OF ver eo step]
    by (simp add: EvaluateEdgeAndFlap_def EpochTime_def l)
qed

end

end
