(* ===== verification/Edge_Runs.thy ===== *)
theory Edge_Runs
  imports Edge_Flap
begin

text \<open>
  Sequences of observations of one scope: what \<^verbatim>\<open>EvaluateEdgeAndFlap\<close> does over a whole series of
  notifications.  \<open>evaluate_run\<close> calls the code once per observation; \<open>step_run\<close> iterates
  \<^const>\<open>edge_step\<close>; over a store that keeps its contract they agree (\<open>edge_store.evaluate_run_refines\<close>).
\<close>

section \<open>Runs\<close>

type_synonym observation = "time \<times> string \<times> payload"

fun evaluate_run ::
    "Libs \<Rightarrow> 's DataStore \<Rightarrow> string \<Rightarrow> string \<Rightarrow> FlapConfig option \<Rightarrow> observation list \<Rightarrow> 's \<Rightarrow>
       (Action \<times> payload \<times> go_error option) list \<times> 's" where
  "evaluate_run L store clientID scopeKey flap [] s = ([], s)"
| "evaluate_run L store clientID scopeKey flap ((t, v, p) # xs) s =
     (case EvaluateEdgeAndFlap L store t clientID scopeKey v flap p s of
        (r, s1) \<Rightarrow>
          (case evaluate_run L store clientID scopeKey flap xs s1 of (rs, s2) \<Rightarrow> (r # rs, s2)))"

definition enc_of :: "Libs \<Rightarrow> payload \<Rightarrow> string" where
  "enc_of L p = (case EncodePayload L p of Inl _ \<Rightarrow> [] | Inr enc \<Rightarrow> enc)"

definition next_edge :: "string \<Rightarrow> Edge option \<Rightarrow> Edge option \<Rightarrow> Edge option" where
  "next_edge k eo w = (case w of None \<Rightarrow> eo | Some e \<Rightarrow> Some (stored k e))"

fun step_run ::
    "Libs \<Rightarrow> FlapConfig option \<Rightarrow> string \<Rightarrow> observation list \<Rightarrow> Edge option \<Rightarrow> (Action \<times> payload) list \<times> Edge option" where
  "step_run L flap k [] eo = ([], eo)"
| "step_run L flap k ((t, v, p) # xs) eo =
     (case edge_step L flap (unix t) v (enc_of L p) eo of
        (a, g, w) \<Rightarrow>
          (case step_run L flap k xs (next_edge k eo w) of
             (rs, eo') \<Rightarrow> ((a, g) # rs, eo')))"

text \<open>An observation the code can process: a 64-bit timestamp and a payload that encodes.\<close>

definition obs_ok :: "Libs \<Rightarrow> observation \<Rightarrow> bool" where
  "obs_ok L x = (case x of (t, v, p) \<Rightarrow> in_int64 (unix t) \<and> ValidString v \<and> (\<exists>enc. EncodePayload L p = Inr enc))"

definition obs_now :: "observation \<Rightarrow> int" where
  "obs_now x = unix (fst x)"

definition obs_val :: "observation \<Rightarrow> string" where
  "obs_val x = fst (snd x)"

lemma obs_simps [simp]: "obs_now (t, v, p) = unix t" "obs_val (t, v, p) = v"
  by (simp_all add: obs_now_def obs_val_def)

lemma next_edge_simps [simp]: "next_edge k eo None = eo" "next_edge k eo (Some e) = Some (stored k e)"
  by (simp_all add: next_edge_def)

lemma step_run_Cons:
  "edge_step L flap (unix t) v (enc_of L p) eo = (a, g, w) \<Longrightarrow>
     fst (step_run L flap k ((t, v, p) # xs) eo) = (a, g) # fst (step_run L flap k xs (next_edge k eo w))"
  by (simp split: prod.splits)

declare step_run.simps(2) [simp del]

lemma length_step_run [simp]: "length (fst (step_run L flap k xs eo)) = length xs"
  by (induction L flap k xs eo rule: step_run.induct) (auto simp: step_run.simps split: prod.splits)

context edge_store
begin

lemma evaluate_run_refines:
  assumes "inv s" and "up s" and k: "scope_ok k" and "\<forall>x \<in> set xs. obs_ok L x"
    and "version_at (edges s (c, k)) + int (length xs) \<le> max_int64"
    and "step_run L flap k xs (map_option fst (edges s (c, k))) = (rs, eo)"
  shows "\<exists>s'. evaluate_run L ds c k flap xs s = (map (\<lambda>(a, g). (a, g, None)) rs, s')
    \<and> inv s' \<and> up s' \<and> map_option fst (edges s' (c, k)) = eo
    \<and> (\<forall>x. x \<noteq> (c, k) \<longrightarrow> edges s' x = edges s x)"
  using assms(1,2,4-)
proof (induction xs arbitrary: s rs)
  case Nil
  then show ?case by auto
next
  case (Cons x xs)
  obtain t v p where x: "x = (t, v, p)" by (cases x)
  from Cons.prems(3) obtain enc where enc: "EncodePayload L p = Inr enc" and now: "in_int64 (unix t)"
    and v: "ValidString v"
    by (auto simp: x obs_ok_def)
  then have enc_of: "enc_of L p = enc" by (simp add: enc_of_def)
  let ?eo = "map_option fst (edges s (c, k))"
  obtain a g w where st: "edge_step L flap (unix t) v enc ?eo = (a, g, w)" by (metis surj_pair)
  have v1: "version_at (edges s (c, k)) < max_int64" using Cons.prems(4) by simp
  obtain s1 where e1: "EvaluateEdgeAndFlap L ds t c k v flap p s = ((a, g, None), s1)"
    and s1: "inv s1" "up s1"
    and ed: "edges s1 = (case w of None \<Rightarrow> edges s
        | Some e \<Rightarrow> (edges s)((c, k) \<mapsto> (stored k e, version_at (edges s (c, k)) + 1)))"
    using evaluate_refines [OF Cons.prems(1,2) k now v enc v1 st] by blast
  have ed': "map_option fst (edges s1 (c, k)) = next_edge k ?eo w"
    by (cases w) (simp_all add: ed)
  obtain rs' where rs: "rs = (a, g) # rs'" and
    st': "step_run L flap k xs (map_option fst (edges s1 (c, k))) = (rs', eo)"
    using Cons.prems(5) by (auto simp: x st enc_of ed' step_run.simps split: prod.splits)
  have v2: "version_at (edges s1 (c, k)) + int (length xs) \<le> max_int64"
    using Cons.prems(4) by (auto simp: ed split: option.splits)
  have frame: "y \<noteq> (c, k) \<Longrightarrow> edges s1 y = edges s y" for y
    by (simp add: ed split: option.splits)
  obtain s' where "evaluate_run L ds c k flap xs s1 = (map (\<lambda>(a, g). (a, g, None)) rs', s')"
    and "inv s'" "up s'" "map_option fst (edges s' (c, k)) = eo"
    and "\<forall>y. y \<noteq> (c, k) \<longrightarrow> edges s' y = edges s1 y"
    using Cons.IH [OF s1 _ v2 st'] Cons.prems(3) by auto
  then show ?case by (auto simp: x e1 rs frame)
qed

end

section \<open>One call, whatever the store answers\<close>

text \<open>The actions that make the caller publish.\<close>

definition publishes :: "Action \<Rightarrow> bool" where
  "publishes a \<longleftrightarrow> a = EdgeTriggeredForward \<or> a = AggregateSent"

lemma evaluate_flip_upsert:
  assumes "flip_step L flap now e = (a1, g1, e1)" and "evaluate_flip L ds now c k flap ver e s = ((a, g, err), s')"
  obtains ok uerr where "UpsertCAS ds c k ver e1 s = ((ok, uerr), s')"
    and "publishes a \<Longrightarrow> ok \<and> uerr = None \<and> err = None \<and> a = a1 \<and> g = g1"
  using assms
  by (auto simp: flip_step_def evaluate_flip_def commit_forward_def commit_aggregate_def publishes_def
      split: option.splits prod.splits if_splits)

lemma edge_step_recent:
  assumes "edge_step L flap now v enc eo = (a, g, Some e1)"
  shows "length (Recent e1) \<le> 128"
proof -
  have "length (Recent e1) \<le> 128"
    if "flip_step L flap now (observe_flip now v enc e) = (a', g', e1)" for e a' g'
    using flip_step_keeps(4) [OF that] by simp
  then show ?thesis using assms by (auto simp: edge_step_def split: option.splits if_splits prod.splits)
qed

text \<open>What the commit of edge \<^term>\<open>e1\<close> leaves in the store, given what the caller was told.\<close>

definition committed :: "edge_map \<Rightarrow> string \<Rightarrow> string \<Rightarrow> Edge \<Rightarrow> edge_map \<Rightarrow> bool" where
  "committed old c k e1 new \<longleftrightarrow> new = old((c, k) \<mapsto> (stored k e1, version_at (old (c, k)) + 1))"

context edge_store
begin

lemma upsert_any:
  assumes "inv s" and "scope_ok k" and "edge_range e" and "version_at (edges s (c, k)) < max_int64"
    and "UpsertCAS ds c k (version_at (edges s (c, k))) e s = ((ok, err), s')"
  shows "inv s' \<and> (edges s' = edges s \<or> committed (edges s) c k e (edges s'))
    \<and> (ok \<and> err = None \<longrightarrow> committed (edges s) c k e (edges s'))"
  using upsert_current [OF assms(1-3) refl assms(4,5)] by (auto simp: committed_def)

lemma evaluate_outcome:
  assumes s: "inv s" and k: "scope_ok k" and now: "in_int64 (unix t)" and v: "ValidString v"
    and ver: "version_at (edges s (c, k)) < max_int64"
    and run: "EvaluateEdgeAndFlap L ds t c k v flap p s = ((a, g, err), s')"
    and step: "edge_step L flap (unix t) v (enc_of L p) (map_option fst (edges s (c, k))) = (a1, g1, w)"
  shows "inv s' \<and> (edges s' = edges s \<or> (\<exists>e1. w = Some e1 \<and> committed (edges s) c k e1 (edges s')))
    \<and> (publishes a \<longrightarrow> (\<exists>e1. w = Some e1 \<and> committed (edges s) c k e1 (edges s')) \<and> err = None \<and> a = a1 \<and> g = g1)"
proof -
  obtain eo lv lerr s1 where l: "Load ds c k s = ((eo, lv, lerr), s1)" by (metis surj_pair)
  note ld = load [OF s k l]
  have ed: "edges s1 = edges s" and s1: "inv s1" using ld by simp_all
  note eval = EvaluateEdgeAndFlap_def evaluate_loaded_def EpochTime_def Let_def l
  show ?thesis
  proof (cases "lerr = None \<and> (eo = None \<or> (\<exists>e'. eo = Some e' \<and> LastValue e' \<noteq> v \<and> (\<exists>enc. EncodePayload L p = Inr enc)))")
    case False
    then have "edges s' = edges s" "inv s'" "\<not> publishes a"
      using run ed s1 by (auto simp: eval publishes_def split: option.splits if_splits sum.splits)
    then show ?thesis by simp
  next
    case True
    then have lv: "lv = version_at (edges s (c, k))" using ld by (auto split: option.splits)
    show ?thesis
    proof (cases eo)
      case None
      then have none: "edges s (c, k) = None" using ld True by (auto split: option.splits)
      obtain ok uerr where u: "UpsertCAS ds c k 0 (initial_edge (unix t) v) s1 = ((ok, uerr), s')"
        and pub: "publishes a \<Longrightarrow> ok \<and> uerr = None \<and> err = None \<and> a = EdgeTriggeredForward \<and> g = None"
        using run True None by (auto simp: eval publishes_def split: prod.splits option.splits if_splits)
      show ?thesis
        using upsert_any [OF s1 k initial_edge_range [OF now v], of c ok uerr s'] u pub step none ver
        by (auto simp: ed edge_step_def)
    next
      case (Some e')
      then obtain e x enc where e: "edges s (c, k) = Some (e, x)" and e': "e = e'\<lparr>Version := 0\<rparr>"
        and ne: "LastValue e' \<noteq> v" and enc: "EncodePayload L p = Inr enc"
        using ld True by (auto split: option.splits)
      have rng: "edge_range e" using stored_edge [OF s e] by simp
      obtain e1 where fs: "flip_step L flap (unix t) (observe_flip (unix t) v enc e) = (a1, g1, e1)"
        and w: "w = Some e1"
        using step e e' ne enc by (auto simp: edge_step_def enc_of_def split: prod.splits)
      obtain e2 where fs': "flip_step L flap (unix t) (observe_flip (unix t) v enc e') = (a1, g1, e2)"
        and rng2: "edge_range e2" and st: "stored k e2 = stored k e1"
        by (rule flip_step_loaded [OF fs [unfolded e'] rng [unfolded e'] now v enc])
      have "evaluate_flip L ds (unix t) c k flap lv (observe_flip (unix t) v enc e') s1 = ((a, g, err), s')"
        using run True Some ne enc by (simp add: eval)
      from evaluate_flip_upsert [OF fs' this] obtain ok uerr where
        u: "UpsertCAS ds c k lv e2 s1 = ((ok, uerr), s')"
        and pub: "publishes a \<Longrightarrow> ok \<and> uerr = None \<and> err = None \<and> a = a1 \<and> g = g1" by blast
      show ?thesis
        using upsert_any [OF s1 k rng2, of c ok uerr s'] u pub ver by (auto simp: ed lv w committed_def st)
    qed
  qed
qed

end

section \<open>Every change is forwarded when nothing is suppressed or aggregated\<close>

definition forwards_every_flip :: "FlapConfig option \<Rightarrow> bool" where
  "forwards_every_flip flap = (case flap of None \<Rightarrow> True | Some f \<Rightarrow> SuppressBelow f \<le> 0 \<and> AggregateAt f \<le> 0)"

text \<open>The observed values whose action is a forward.\<close>

definition forwarded_values :: "observation list \<Rightarrow> (Action \<times> 'b) list \<Rightarrow> string list" where
  "forwarded_values xs rs = map (obs_val \<circ> fst) (filter (\<lambda>(x, r). fst r = EdgeTriggeredForward) (zip xs rs))"

lemma forwarded_values_simps [simp]:
  "forwarded_values [] rs = []"
  "forwarded_values (x # xs) (r # rs) =
     (if fst r = EdgeTriggeredForward then obs_val x # forwarded_values xs rs else forwarded_values xs rs)"
  by (auto simp: forwarded_values_def)

lemma flip_step_forwards:
  assumes "forwards_every_flip flap" and "0 \<le> FlipCount e" and "FlipCount e < max_int64"
  shows "\<exists>e1. flip_step L flap now e = (EdgeTriggeredForward, None, e1)
    \<and> LastValue e1 = LastValue e \<and> 0 \<le> FlipCount e1 \<and> FlipCount e1 \<le> FlipCount e + 1"
proof (cases flap)
  case None
  then show ?thesis using assms by (simp add: flip_step_def)
next
  case (Some f)
  have "in_int64 (FlipCount e + 1)" using assms by (simp add: in_int64_def min_int64_def)
  then have "add64 (FlipCount e) 1 = FlipCount e + 1" by (simp add: int64_simps)
  then show ?thesis
    using assms Some by (auto simp: flip_step_def forwards_every_flip_def roll_window_def Let_def)
qed

lemma step_run_forwards:
  assumes "forwards_every_flip flap" and "0 \<le> FlipCount e" and "FlipCount e + int (length xs) \<le> max_int64"
  shows "forwarded_values xs (fst (step_run L flap k xs (Some e))) = tl (remdups_adj (LastValue e # map obs_val xs))"
  using assms
proof (induction xs arbitrary: e)
  case (Cons x xs)
  obtain t v p where x: "x = (t, v, p)" by (cases x)
  show ?case
  proof (cases "LastValue e = v")
    case True
    then show ?thesis using Cons by (simp add: x step_run_Cons edge_step_def)
  next
    case False
    let ?e = "observe_flip (unix t) v (enc_of L p) e"
    obtain e1 where fs: "flip_step L flap (unix t) ?e = (EdgeTriggeredForward, None, e1)"
      and e1: "LastValue e1 = v" "0 \<le> FlipCount e1" "FlipCount e1 \<le> FlipCount e + 1"
      using flip_step_forwards [OF Cons.prems(1), of ?e] Cons.prems by auto
    have "forwarded_values xs (fst (step_run L flap k xs (Some (stored k e1))))
        = tl (remdups_adj (v # map obs_val xs))"
      using Cons.IH [of "stored k e1"] e1 Cons.prems by simp
    then show ?thesis
      using False remdups_adj_Cons_tl [of v "map obs_val xs"] by (simp add: x step_run_Cons edge_step_def fs)
  qed
qed simp

text \<open>From a fresh scope: the values forwarded are the observed values without stuttering.\<close>

lemma step_run_forwards_fresh:
  assumes "forwards_every_flip flap" and "int (length xs) \<le> max_int64"
  shows "forwarded_values xs (fst (step_run L flap k xs None)) = remdups_adj (map obs_val xs)"
proof (cases xs)
  case (Cons x ys)
  obtain t v p where x: "x = (t, v, p)" by (cases x)
  have "forwarded_values ys (fst (step_run L flap k ys (Some (stored k (initial_edge (unix t) v)))))
      = tl (remdups_adj (v # map obs_val ys))"
    using step_run_forwards [OF assms(1), of "stored k (initial_edge (unix t) v)" ys] assms(2) Cons by simp
  then show ?thesis
    using remdups_adj_Cons_tl [of v "map obs_val ys"] by (simp add: Cons x step_run_Cons edge_step_def)
qed simp

section \<open>The flips of one window\<close>

text \<open>
  What the code does with the \<^term>\<open>i\<close>-th flip of a window when aggregates have no cooldown: nothing up
  to \<^verbatim>\<open>SuppressBelow\<close>; after that every flip is forwarded, or, with aggregation, every
  \<^verbatim>\<open>AggregateAt\<close>-th flip sends an aggregate and the others are suppressed.
\<close>

definition window_action :: "FlapConfig \<Rightarrow> int \<Rightarrow> Action" where
  "window_action f i =
     (if i \<le> SuppressBelow f then SuppressFlapping
      else if AggregateAt f > 0 then (if i mod AggregateAt f = 0 then AggregateSent else SuppressFlapping)
      else EdgeTriggeredForward)"

text \<open>Observations that all flip, starting from value \<^term>\<open>v\<close>.\<close>

fun flips_from :: "string \<Rightarrow> observation list \<Rightarrow> bool" where
  "flips_from v [] \<longleftrightarrow> True"
| "flips_from v (x # xs) \<longleftrightarrow> obs_val x \<noteq> v \<and> flips_from (obs_val x) xs"

definition in_window :: "FlapConfig \<Rightarrow> int \<Rightarrow> observation \<Rightarrow> bool" where
  "in_window f start x \<longleftrightarrow> in_int64 (obs_now x) \<and> start \<le> obs_now x \<and> obs_now x - start \<le> WindowSeconds f"

lemma smod_nonneg: "0 \<le> (a::int) \<Longrightarrow> 0 < b \<Longrightarrow> a smod b = a mod b"
  by (cases "a = 0") (simp_all add: signed_modulo_int_def signed_divide_int_def minus_div_mult_eq_mod)

lemma mod_Suc_int:
  fixes i n :: int
  assumes "0 < n"
  shows "(i + 1) mod n = (if i mod n + 1 = n then 0 else i mod n + 1)"
proof -
  have "(i + 1) mod n = (i mod n + 1) mod n" by (simp add: mod_add_left_eq)
  moreover have "0 \<le> i mod n" "i mod n < n" using assms by simp_all
  ultimately show ?thesis by (auto intro: mod_pos_pos_trivial)
qed

lemma roll_window_in_window:
  assumes "in_window f (WindowStart e) x" and "in_int64 (WindowSeconds f)"
  shows "roll_window f (obs_now x) e = (e\<lparr>FlipCount := add64 (FlipCount e) 1\<rparr>, False)"
proof -
  have "in_int64 (obs_now x - WindowStart e)"
    using assms by (auto simp: in_window_def in_int64_def min_int64_def)
  then show ?thesis using assms by (simp add: roll_window_same in_window_def int64_simps)
qed

lemma add64_Suc: "0 \<le> i \<Longrightarrow> i < max_int64 \<Longrightarrow> add64 i 1 = i + 1"
  by (rule add64_id) (simp add: in_int64_def min_int64_def)

text \<open>One flip inside the window, for an edge that has seen \<^term>\<open>i\<close> flips in it.\<close>

lemma flip_step_in_window:
  fixes f :: FlapConfig and e :: Edge and x :: observation
  assumes win: "in_window f (WindowStart e) x" "in_int64 (WindowSeconds f)"
    and i: "FlipCount e = i" "0 \<le> i" "i < max_int64"
    and n: "AggregateAt f \<le> 128" "AggregateCooldownSeconds f = 0"
    and cool: "AggUntilTS e \<le> obs_now x"
    and len: "AggregateAt f > 0 \<Longrightarrow> i mod AggregateAt f \<le> int (length (Recent e))"
  shows "\<exists>g e1. flip_step L (Some f) (obs_now x) (observe_flip (obs_now x) v enc e) = (window_action f (i + 1), g, e1)
    \<and> LastValue e1 = v \<and> FlipCount e1 = i + 1 \<and> WindowStart e1 = WindowStart e
    \<and> AggUntilTS e1 \<le> obs_now x
    \<and> (AggregateAt f > 0 \<longrightarrow> (i + 1) mod AggregateAt f \<le> int (length (Recent e1)))
    \<and> Recent e1 = (if window_action f (i + 1) = AggregateSent then []
         else Recent (observe_flip (obs_now x) v enc e))
    \<and> (window_action f (i + 1) = AggregateSent \<longrightarrow>
         g = BuildAggregate L ((observe_flip (obs_now x) v enc e)\<lparr>FlipCount := i + 1, AggUntilTS := obs_now x\<rparr>)
               (AggregateMaxItems f))"
proof -
  define e0 where "e0 = (observe_flip (obs_now x) v enc e)\<lparr>FlipCount := i + 1\<rparr>"
  have rw: "roll_window f (obs_now x) (observe_flip (obs_now x) v enc e) = (e0, False)"
    using roll_window_in_window [of f "observe_flip (obs_now x) v enc e" x] win i
    by (simp add: e0_def add64_Suc)
  have now: "add64 (obs_now x) 0 = obs_now x"
    using win by (simp add: in_window_def int64_simps)
  have e0: "LastValue e0 = v" "FlipCount e0 = i + 1" "WindowStart e0 = WindowStart e"
    "AggUntilTS e0 = AggUntilTS e" "length (Recent e0) = min 128 (Suc (length (Recent e)))"
    by (simp_all add: e0_def)
  show ?thesis
  proof (cases "AggregateAt f > 0")
    case False
    then show ?thesis using rw e0 cool by (simp add: flip_step_def window_action_def e0_def)
  next
    case True
    let ?n = "AggregateAt f"
    define m where "m = i mod ?n"
    have m: "0 \<le> m" "m < ?n" "m \<le> int (length (Recent e))"
      using True len by (simp_all add: m_def)
    have succ: "(i + 1) mod ?n = (if m + 1 = ?n then 0 else m + 1)"
      unfolding m_def by (rule mod_Suc_int [OF True])
    have long: "(i + 1) mod ?n \<le> int (length (Recent e0))"
      and full: "(i + 1) mod ?n = 0 \<Longrightarrow> ?n \<le> int (length (Recent e0))"
      using m n by (auto simp: e0 succ min_def split: if_splits)
    have sm: "(i + 1) smod ?n = (i + 1) mod ?n" by (rule smod_nonneg) (use i True in simp_all)
    show ?thesis
      using rw e0 cool now long full n True
      by (auto simp: flip_step_def window_action_def try_aggregate_def sm Let_def e0_def)
  qed
qed

text \<open>The hypotheses on an edge inside a window and the flips still to come.\<close>

definition window_run :: "FlapConfig \<Rightarrow> Edge \<Rightarrow> observation list \<Rightarrow> bool" where
  "window_run f e xs \<longleftrightarrow>
     in_int64 (WindowSeconds f) \<and> AggregateAt f \<le> 128 \<and> AggregateCooldownSeconds f = 0
     \<and> flips_from (LastValue e) xs \<and> (\<forall>x \<in> set xs. in_window f (WindowStart e) x \<and> AggUntilTS e \<le> obs_now x)
     \<and> sorted (map obs_now xs) \<and> 0 \<le> FlipCount e \<and> FlipCount e + int (length xs) \<le> max_int64
     \<and> (AggregateAt f > 0 \<longrightarrow> FlipCount e mod AggregateAt f \<le> int (length (Recent e)))"

lemma window_run_step:
  assumes run: "window_run f e ((t, v, p) # xs)"
  obtains g e1 where
    "edge_step L (Some f) (unix t) v (enc_of L p) (Some e) = (window_action f (FlipCount e + 1), g, Some e1)"
    and "window_run f (stored k e1) xs" and "LastValue e1 = v" and "FlipCount e1 = FlipCount e + 1"
    and "Recent e1 = (if window_action f (FlipCount e + 1) = AggregateSent then []
         else Recent (observe_flip (unix t) v (enc_of L p) e))"
    and "window_action f (FlipCount e + 1) = AggregateSent \<Longrightarrow>
         g = BuildAggregate L ((observe_flip (unix t) v (enc_of L p) e)\<lparr>FlipCount := FlipCount e + 1, AggUntilTS := unix t\<rparr>)
               (AggregateMaxItems f)"
proof -
  let ?x = "(t, v, p) :: observation"
  from run have pre: "in_window f (WindowStart e) ?x" "in_int64 (WindowSeconds f)"
    "0 \<le> FlipCount e" "FlipCount e < max_int64" "AggregateAt f \<le> 128" "AggregateCooldownSeconds f = 0"
    "AggUntilTS e \<le> obs_now ?x"
    "AggregateAt f > 0 \<Longrightarrow> FlipCount e mod AggregateAt f \<le> int (length (Recent e))"
    by (auto simp: window_run_def)
  obtain g e1 where fs: "flip_step L (Some f) (unix t) (observe_flip (unix t) v (enc_of L p) e)
      = (window_action f (FlipCount e + 1), g, e1)"
    and e1: "LastValue e1 = v" "FlipCount e1 = FlipCount e + 1" "WindowStart e1 = WindowStart e"
      "AggUntilTS e1 \<le> unix t"
      "AggregateAt f > 0 \<longrightarrow> (FlipCount e + 1) mod AggregateAt f \<le> int (length (Recent e1))"
      "Recent e1 = (if window_action f (FlipCount e + 1) = AggregateSent then []
         else Recent (observe_flip (unix t) v (enc_of L p) e))"
    and g: "window_action f (FlipCount e + 1) = AggregateSent \<longrightarrow>
         g = BuildAggregate L ((observe_flip (unix t) v (enc_of L p) e)\<lparr>FlipCount := FlipCount e + 1, AggUntilTS := unix t\<rparr>)
               (AggregateMaxItems f)"
    using flip_step_in_window [OF pre(1,2) refl pre(3-8), of L v "enc_of L p", unfolded obs_simps] by blast
  have "edge_step L (Some f) (unix t) v (enc_of L p) (Some e) = (window_action f (FlipCount e + 1), g, Some e1)"
    using fs run by (auto simp: edge_step_def window_run_def)
  moreover have "window_run f (stored k e1) xs"
    using run e1 by (fastforce simp: window_run_def)
  ultimately show thesis using that e1 g by blast
qed

lemma step_run_window:
  assumes "window_run f e xs"
  shows "map fst (fst (step_run L (Some f) k xs (Some e)))
    = map (\<lambda>j. window_action f (FlipCount e + 1 + int j)) [0..<length xs]"
  using assms
proof (induction xs arbitrary: e)
  case (Cons x xs)
  obtain t v p where x: "x = (t, v, p)" by (cases x)
  obtain g e1 where st: "edge_step L (Some f) (unix t) v (enc_of L p) (Some e) = (window_action f (FlipCount e + 1), g, Some e1)"
    and run: "window_run f (stored k e1) xs" and fc: "FlipCount e1 = FlipCount e + 1"
    by (rule window_run_step [OF Cons.prems [unfolded x], of L k])
  have "map (\<lambda>j. window_action f (FlipCount e + 1 + int j)) [0..<Suc (length xs)]
      = window_action f (FlipCount e + 1) # map (\<lambda>j. window_action f (FlipCount e1 + 1 + int j)) [0..<length xs]"
    by (simp add: upt_conv_Cons map_Suc_upt [symmetric] fc o_def algebra_simps del: upt_Suc)
  then show ?case
    using Cons.IH [OF run] by (simp add: x step_run_Cons [OF st])
qed simp

section \<open>The cooldown between aggregates\<close>

text \<open>An aggregate is sent only after the cooldown of the edge; only an aggregate moves it.\<close>

lemma edge_step_cooldown:
  assumes "edge_step L flap now v enc (Some e) = (a, g, w)" and "next_edge k (Some e) w = Some e1"
  shows "if a = AggregateSent
    then AggUntilTS e \<le> now \<and> (\<exists>f. flap = Some f \<and> AggUntilTS e1 = add64 now (AggregateCooldownSeconds f))
    else AggUntilTS e1 = AggUntilTS e"
  using assms
  by (auto simp: edge_step_def flip_step_def try_aggregate_def Let_def
      split: if_splits option.splits prod.splits dest!: roll_window_keeps(3))

lemma next_edge_Some: "\<exists>e1. next_edge k (Some e) w = Some e1"
  by (cases w) simp_all

lemma step_run_cooldown_after:
  assumes "fst (step_run L (Some f) k xs (Some e)) ! j = (AggregateSent, g)" and "j < length xs"
    and "T \<le> AggUntilTS e" and "0 \<le> AggregateCooldownSeconds f"
    and "\<forall>x \<in> set xs. in_int64 (obs_now x + AggregateCooldownSeconds f)"
  shows "T \<le> obs_now (xs ! j)"
  using assms
proof (induction xs arbitrary: e j)
  case (Cons x xs)
  obtain t v p where x: "x = (t, v, p)" by (cases x)
  obtain a g' w where st: "edge_step L (Some f) (unix t) v (enc_of L p) (Some e) = (a, g', w)"
    by (metis surj_pair)
  obtain e1 where e1: "next_edge k (Some e) w = Some e1" using next_edge_Some by metis
  note cool = edge_step_cooldown [OF st e1]
  have T1: "T \<le> AggUntilTS e1"
    using cool Cons.prems(3,4,5) by (auto simp: x int64_simps split: if_splits)
  show ?case
  proof (cases j)
    case 0
    then show ?thesis using Cons.prems(1,3) cool by (simp add: x step_run_Cons [OF st])
  next
    case (Suc i)
    then show ?thesis
      using Cons.IH [of e1 i] Cons.prems T1 by (simp add: x step_run_Cons [OF st] e1)
  qed
qed simp

lemma step_run_cooldown:
  assumes "fst (step_run L (Some f) k xs eo) ! i = (AggregateSent, g)"
    and "fst (step_run L (Some f) k xs eo) ! j = (AggregateSent, h)"
    and "i < j" and "j < length xs" and "0 \<le> AggregateCooldownSeconds f"
    and "\<forall>x \<in> set xs. in_int64 (obs_now x + AggregateCooldownSeconds f)"
  shows "obs_now (xs ! i) + AggregateCooldownSeconds f \<le> obs_now (xs ! j)"
  using assms
proof (induction xs arbitrary: eo i j)
  case (Cons x xs)
  obtain t v p where x: "x = (t, v, p)" by (cases x)
  obtain a g' w where st: "edge_step L (Some f) (unix t) v (enc_of L p) eo = (a, g', w)"
    by (metis surj_pair)
  obtain j' where j: "j = Suc j'" using Cons.prems(3) by (cases j) auto
  show ?case
  proof (cases i)
    case 0
    then have a: "a = AggregateSent" using Cons.prems(1) by (simp add: x step_run_Cons [OF st])
    then obtain e where eo: "eo = Some e" using st by (auto simp: edge_step_def split: option.splits)
    obtain e1 where e1: "next_edge k (Some e) w = Some e1" using next_edge_Some by metis
    have "AggUntilTS e1 = unix t + AggregateCooldownSeconds f"
      using edge_step_cooldown [OF st [unfolded eo] e1] a Cons.prems(6) by (auto simp: x int64_simps)
    then show ?thesis
      using step_run_cooldown_after [of L f k xs e1 j' h "unix t + AggregateCooldownSeconds f"] Cons.prems 0 j
      by (simp add: x step_run_Cons [OF st [unfolded eo]] eo e1)
  next
    case (Suc i')
    then show ?thesis
      using Cons.IH [of "next_edge k eo w" i' j'] Cons.prems j by (simp add: x step_run_Cons [OF st])
  qed
qed simp

section \<open>The aggregate message\<close>

lemma agg_loop_eq:
  "- 1 \<le> lo \<Longrightarrow> lo \<le> i \<Longrightarrow> i < int (length rs) \<Longrightarrow>
     agg_loop L rs i lo = map (agg_item L) (rev (drop (nat (lo + 1)) (take (nat (i + 1)) rs)))"
proof (induction L rs i lo rule: agg_loop.induct)
  case (1 L rs i lo)
  show ?case
  proof (cases "i > lo")
    case False
    then show ?thesis using "1.prems" by (subst agg_loop.simps) simp
  next
    case True
    then have i: "0 \<le> i" "nat i < length rs" "nat (lo + 1) \<le> nat i" "nat (i + 1) = Suc (nat i)"
      using "1.prems" by auto
    have IH: "agg_loop L rs (i - 1) lo = map (agg_item L) (rev (drop (nat (lo + 1)) (take (nat i) rs)))"
      using "1.IH" [OF True] "1.prems" True by simp
    have "drop (nat (lo + 1)) (take (Suc (nat i)) rs) = drop (nat (lo + 1)) (take (nat i) rs) @ [rs ! nat i]"
      using i by (simp add: take_Suc_conv_app_nth)
    then show ?thesis using True IH i by (simp add: agg_loop.simps [of L rs i lo])
  qed
qed

lemma agg_items_eq: "agg_items L rs k = (if k > 0 then map (agg_item L) (take (nat k) (rev rs)) else [])"
proof (cases "k > 0 \<and> rs \<noteq> []")
  case True
  let ?n = "int (length rs)"
  let ?k = "if k > ?n then ?n else k"
  have "agg_items L rs k = agg_loop L rs (?n - 1) (?n - ?k - 1)"
    using True by (simp add: agg_items_def Let_def)
  also have "\<dots> = map (agg_item L) (rev (drop (nat (?n - ?k)) rs))"
    using True by (subst agg_loop_eq) (auto simp: less_le_trans)
  also have "rev (drop (nat (?n - ?k)) rs) = take (nat k) (rev rs)"
    using True by (auto simp: take_rev nat_diff_distrib)
  finally show ?thesis using True by simp
qed (auto simp: agg_items_def)

lemma BuildAggregate_recent:
  "BuildAggregate L e k = Some m \<Longrightarrow>
     m ''recent'' = Some (AnySlice (if k > 0 then map (agg_item L) (take (nat k) (rev (Recent e))) else []))"
  by (auto simp: BuildAggregate_def agg_items_eq)

text \<open>
  What the packages must do for one payload: the JSON text decodes to the payload again, and zstd
  gives the text back.
\<close>

definition codec_ok :: "Libs \<Rightarrow> payload \<Rightarrow> bool" where
  "codec_ok L p \<longleftrightarrow>
     (\<exists>b. json_marshal L (AnyMap p) = Inr b \<and> json_unmarshal L b = (p, None)
        \<and> zstd_encode L b \<noteq> [] \<and> zstd_decode L (zstd_encode L b) = Inr b)"

lemma agg_payload_EncodePayload:
  assumes "codec_ok L p" and "EncodePayload L p = Inr (Payload it)"
  shows "agg_payload L it = p"
proof -
  obtain b where b: "json_marshal L (AnyMap p) = Inr b" "json_unmarshal L b = (p, None)"
    "zstd_encode L b \<noteq> []" "zstd_decode L (zstd_encode L b) = Inr b"
    using assms(1) by (auto simp: codec_ok_def)
  then have "Payload it = EncodeToString (zstd_encode L b)" using assms(2) by (simp add: EncodePayload_def)
  then show ?thesis using b by (simp add: agg_payload_def DecodePayload_def)
qed

lemma codec_ok_encodes: "codec_ok L p \<Longrightarrow> EncodePayload L p = Inr (enc_of L p)"
  by (auto simp: codec_ok_def EncodePayload_def enc_of_def)

text \<open>The entry of the aggregate for an observation that flips from \<^term>\<open>v\<close>, and for a series of them.\<close>

definition obs_item :: "string \<Rightarrow> observation \<Rightarrow> any" where
  "obs_item v x =
     AnyMap (Some [''at'' \<mapsto> AnyInt (obs_now x), ''from'' \<mapsto> AnyStr v, ''to'' \<mapsto> AnyStr (obs_val x),
                   ''payload'' \<mapsto> AnyMap (snd (snd x))])"

fun obs_items :: "string \<Rightarrow> observation list \<Rightarrow> any list" where
  "obs_items v [] = []"
| "obs_items v (x # xs) = obs_item v x # obs_items (obs_val x) xs"

lemma length_obs_items [simp]: "length (obs_items v xs) = length xs"
  by (induction v xs rule: obs_items.induct) auto

lemma observe_flip_items:
  assumes "codec_ok L p"
  shows "map (agg_item L) (Recent (observe_flip (unix t) v (enc_of L p) e))
    = lastn 128 (map (agg_item L) (Recent e) @ [obs_item (LastValue e) (t, v, p)])"
proof -
  have "agg_payload L \<lparr>At = unix t, From = LastValue e, To = v, Payload = enc_of L p\<rparr> = p"
    using assms by (intro agg_payload_EncodePayload) (simp_all add: codec_ok_encodes)
  then show ?thesis
    by (simp add: observe_flip_def AppendRecent_lastn HardLimitRecentItems_def lastn_def drop_map
        agg_item_def obs_item_def)
qed

lemma lastn_snoc: "lastn (Suc n) (xs @ [x]) = lastn n xs @ [x]"
  by (simp add: lastn_def)

lemma window_action_aggregate:
  assumes "SuppressBelow f < AggregateAt f" and "0 < AggregateAt f" and "0 \<le> i"
  shows "window_action f (i + 1) = AggregateSent \<longleftrightarrow> (i + 1) mod AggregateAt f = 0"
proof -
  have "(i + 1) mod AggregateAt f = 0 \<Longrightarrow> AggregateAt f \<le> i + 1"
    using assms by (simp add: zdvd_imp_le dvd_eq_mod_eq_0)
  then show ?thesis using assms by (auto simp: window_action_def)
qed

lemma observe_flip_period_items:
  assumes "codec_ok L p" and "map (agg_item L) (Recent e) = lastn n its" and "n < 128"
  shows "map (agg_item L) (Recent (observe_flip (unix t) v (enc_of L p) e))
    = lastn (Suc n) (its @ [obs_item (LastValue e) (t, v, p)])"
  using observe_flip_items [OF assms(1), of t v e] assms(2,3) by (simp add: lastn_snoc)

text \<open>
  In a window whose suppression is shorter than the aggregation period, the aggregate sent by the
  flip number \<^term>\<open>FlipCount e + 1 + int j\<close> lists the newest flips of its period, newest first.
\<close>

lemma step_run_aggregate_items:
  assumes "window_run f e xs" and n: "SuppressBelow f < AggregateAt f" "0 < AggregateAt f"
    and K: "0 < AggregateMaxItems f"
    and "\<forall>x \<in> set xs. codec_ok L (snd (snd x))"
    and "map (agg_item L) (Recent e) = lastn (nat (FlipCount e mod AggregateAt f)) its"
    and "FlipCount e mod AggregateAt f \<le> int (length its)"
    and "j < length xs" and "(FlipCount e + 1 + int j) mod AggregateAt f = 0"
  shows "\<exists>m. fst (step_run L (Some f) k xs (Some e)) ! j = (AggregateSent, Some m)
    \<and> m ''recent'' = Some (AnySlice (take (nat (AggregateMaxItems f))
        (rev (lastn (nat (AggregateAt f)) (its @ obs_items (LastValue e) (take (Suc j) xs))))))"
  using assms(1,5-)
proof (induction xs arbitrary: e its j)
  case (Cons x xs)
  obtain t v p where x: "x = (t, v, p)" by (cases x)
  let ?n = "AggregateAt f" and ?i = "FlipCount e"
  define m where "m = ?i mod ?n"
  obtain g e1 where st: "edge_step L (Some f) (unix t) v (enc_of L p) (Some e) = (window_action f (?i + 1), g, Some e1)"
    and run: "window_run f (stored k e1) xs" and e1: "LastValue e1 = v" "FlipCount e1 = ?i + 1"
    and rec: "Recent e1 = (if window_action f (?i + 1) = AggregateSent then []
         else Recent (observe_flip (unix t) v (enc_of L p) e))"
    and g: "window_action f (?i + 1) = AggregateSent \<Longrightarrow>
         g = BuildAggregate L ((observe_flip (unix t) v (enc_of L p) e)\<lparr>FlipCount := ?i + 1, AggUntilTS := unix t\<rparr>)
               (AggregateMaxItems f)"
    by (rule window_run_step [OF Cons.prems(1) [unfolded x], of L k]) blast
  have n128: "?n \<le> 128" and i0: "0 \<le> ?i" using Cons.prems(1) by (auto simp: window_run_def)
  have m: "0 \<le> m" "m < ?n" "nat m \<le> length its" using n(2) Cons.prems(4) by (auto simp: m_def)
  let ?its = "its @ [obs_item (LastValue e) x]"
  have obs: "map (agg_item L) (Recent (observe_flip (unix t) v (enc_of L p) e)) = lastn (Suc (nat m)) ?its"
    unfolding x by (rule observe_flip_period_items) (use Cons.prems(2,3) m n128 in \<open>simp_all add: x m_def\<close>)
  have succ: "(?i + 1) mod ?n = (if m + 1 = ?n then 0 else m + 1)"
    unfolding m_def by (rule mod_Suc_int [OF n(2)])
  note act = window_action_aggregate [OF n i0]
  show ?case
  proof (cases j)
    case 0
    then have z: "(?i + 1) mod ?n = 0" using Cons.prems(6) by simp
    then have "nat ?n = Suc (nat m)" using succ m by (auto split: if_splits)
    then show ?thesis
      using g act z K obs BuildAggregate_recent
      by (auto simp: x 0 step_run_Cons [OF st] BuildAggregate_def agg_items_eq simp flip: take_map rev_map)
  next
    case (Suc j')
    have inv: "map (agg_item L) (Recent (stored k e1)) = lastn (nat (FlipCount (stored k e1) mod ?n)) ?its"
      using obs m by (auto simp: rec e1 act succ nat_add_distrib lastn_def split: if_splits)
    have len: "FlipCount (stored k e1) mod ?n \<le> int (length ?its)"
      using m by (auto simp: e1 succ nat_le_iff)
    show ?thesis
      using Cons.IH [OF run _ inv len, of j'] Cons.prems Suc
      by (simp add: x step_run_Cons [OF st] e1 algebra_simps)
  qed
qed simp

end
