(* ===== verification/Ref_Libs.thy ===== *)
theory Ref_Libs
  imports Edge_Runs
begin

text \<open>
  Executable stand-ins for the packages of \<open>Libs\<close>, for the witnesses: a JSON encoder and decoder for
  objects with the one string field \<^verbatim>\<open>v\<close>, a query language whose expressions are field names, and an
  identity compressor.
\<close>

definition ref_marshal_json :: "any \<Rightarrow> go_error + string" where
  "ref_marshal_json x =
     (case x of
        AnyMap None \<Rightarrow> Inr ''null''
      | AnyMap (Some m) \<Rightarrow>
          (case m ''v'' of Some (AnyStr y) \<Rightarrow> Inr (''{'' @ y @ ''}'') | _ \<Rightarrow> Inr ''{}'')
      | AnyStr y \<Rightarrow> Inr y
      | _ \<Rightarrow> Inl (ErrMsg ''unsupported''))"

definition ref_unmarshal_json :: "string \<Rightarrow> payload \<times> go_error option" where
  "ref_unmarshal_json b =
     (if b = ''null'' then (None, None)
      else if b \<noteq> [] \<and> hd b = CHR ''{'' then (Some [''v'' \<mapsto> AnyStr (butlast (tl b))], None)
      else (None, Some (ErrMsg ''invalid character'')))"

definition ref_search :: "string \<Rightarrow> any \<Rightarrow> go_error + any" where
  "ref_search expr x =
     (if expr = [] then Inl (ErrMsg ''empty expression'')
      else case x of
        AnyMap (Some m) \<Rightarrow> (case m expr of None \<Rightarrow> Inr AnyNil | Some y \<Rightarrow> Inr y)
      | _ \<Rightarrow> Inr AnyNil)"

definition ref_libs :: Libs where
  "ref_libs = \<lparr>jmes_search = ref_search, json_marshal = ref_marshal_json, json_unmarshal = ref_unmarshal_json,
               zstd_encode = id, zstd_decode = Inr\<rparr>"

definition ref_payload :: "string \<Rightarrow> payload" where
  "ref_payload x = Some [''v'' \<mapsto> AnyStr x]"

text \<open>An observation of value \<^term>\<open>x\<close> at second \<^term>\<open>t\<close>.\<close>

definition ref_obs :: "int \<Rightarrow> string \<Rightarrow> observation" where
  "ref_obs t x = (t * second, x, ref_payload x)"

lemma ref_codec_ok [simp]: "codec_ok ref_libs (ref_payload x)"
  by (simp add: codec_ok_def ref_libs_def ref_payload_def ref_marshal_json_def ref_unmarshal_json_def)

lemma ref_obs_simps [simp]: "obs_now (ref_obs t x) = t" "obs_val (ref_obs t x) = x" "snd (snd (ref_obs t x)) = ref_payload x"
  by (simp_all add: ref_obs_def unix_def second_def)

lemma ref_obs_ok: "in_int64 t \<Longrightarrow> ValidString x \<Longrightarrow> obs_ok ref_libs (ref_obs t x)"
  using codec_ok_encodes [OF ref_codec_ok, of x] by (auto simp: obs_ok_def ref_obs_def unix_def second_def)

lemma ValidString_one: "(of_char c :: nat) < 128 \<Longrightarrow> ValidString [c]"
  by (rule ValidString_ascii) simp

text \<open>A client with both limits, a trigger field and no flap control.\<close>

definition sample_config :: ClientConfig where
  "sample_config =
     \<lparr>ClientID = ''c'', ClientName = ''n'', ClientKey = ''secret-key'', IPRPM = 10, ClientRPM = 2,
      Passthrough = \<lparr>PassFieldExpr = [], Negate = False\<rparr>,
      Trigger = \<lparr>FieldExpr = ''v'', ScopeFields = [], Target = \<lparr>SNSArn = ''arn'', SNSRPM = 1\<rparr>, Flapping = None\<rparr>\<rparr>"

lemma ascii_valid: "list_all (\<lambda>c. (of_char c :: nat) < 128) s \<Longrightarrow> ValidString s"
  by (rule ValidString_ascii) (simp add: list_all_iff)

lemma sample_config_range: "config_range sample_config"
  by (simp add: config_range_def sample_config_def ascii_valid in_int64_def min_int64_def max_int64_def)

lemma sample_config_valid: "Validate sample_config = None"
  by code_simp

end
