(* ===== verification/Concurrency.thy ===== *)
theory Concurrency
  imports Edge_Runs
begin

text \<open>
  Many requests for one scope at once.  A handler runs \<^verbatim>\<open>EvaluateEdgeAndFlap\<close> as two accesses to the
  store, the \<^verbatim>\<open>Load\<close> and the rest with its single \<^verbatim>\<open>UpsertCAS\<close>, and the accesses of different handlers
  interleave in any order, also with calls of \<^verbatim>\<open>Acquire\<close>.  Over a store that refuses stale versions
  every interleaving is equivalent to running the observations that were committed one after the
  other, in commit order: losers have no effect and never publish.
\<close>

section \<open>Interleaved handlers\<close>

datatype handler =
    Waiting observation
  | Loaded observation "Edge option \<times> int \<times> go_error option"
  | Finished "Action \<times> payload \<times> go_error option"

type_synonym 's system = "(nat \<Rightarrow> handler) \<times> 's"

text \<open>The label of a step is the observation it committed, if it moved the version of the scope.\<close>

inductive handler_step ::
    "Libs \<Rightarrow> 's DataStore \<Rightarrow> string \<Rightarrow> string \<Rightarrow> FlapConfig option \<Rightarrow> ('s \<Rightarrow> int) \<Rightarrow>
       's system \<Rightarrow> (nat \<times> observation) list \<Rightarrow> 's system \<Rightarrow> bool"
  for L ds c k flap ver where
  load_step: "hs i = Waiting x \<Longrightarrow> Load ds c k s = (l, s1) \<Longrightarrow>
     handler_step L ds c k flap ver (hs, s) [] (hs(i := Loaded x l), s1)"
| eval_step: "hs i = Loaded (t, v, p) l \<Longrightarrow>
     evaluate_loaded L ds (EpochTime t) c k v flap p l s = (r, s1) \<Longrightarrow>
     handler_step L ds c k flap ver (hs, s) (if ver s1 = ver s then [] else [(i, (t, v, p))])
       (hs(i := Finished r), s1)"
| limit_step: "rate \<le> max_int64 \<Longrightarrow> 0 < w \<Longrightarrow> Acquire ds clk scope rate w s = (ar, s1) \<Longrightarrow>
     handler_step L ds c k flap ver (hs, s) [] (hs, s1)"

inductive handler_steps ::
    "Libs \<Rightarrow> 's DataStore \<Rightarrow> string \<Rightarrow> string \<Rightarrow> FlapConfig option \<Rightarrow> ('s \<Rightarrow> int) \<Rightarrow>
       's system \<Rightarrow> (nat \<times> observation) list \<Rightarrow> 's system \<Rightarrow> bool"
  for L ds c k flap ver where
  steps_refl: "handler_steps L ds c k flap ver x [] x"
| steps_step: "handler_steps L ds c k flap ver x tr y \<Longrightarrow> handler_step L ds c k flap ver y tr' z \<Longrightarrow>
     handler_steps L ds c k flap ver x (tr @ tr') z"

inductive_cases handler_stepE: "handler_step L ds c k flap ver (hs, s) tr (hs', s')"

section \<open>Handlers finish\<close>

fun accesses_left :: "handler \<Rightarrow> nat" where
  "accesses_left (Waiting x) = 2"
| "accesses_left (Loaded x l) = 1"
| "accesses_left (Finished r) = 0"

lemma handler_step_progress:
  assumes "handler_step L ds c k flap ver (hs, s) tr (hs', s')"
  shows "hs' = hs \<or> (\<exists>i. accesses_left (hs i) = Suc (accesses_left (hs' i)) \<and> (\<forall>j. j \<noteq> i \<longrightarrow> hs' j = hs j))"
  using assms by (rule handler_stepE) (auto intro!: exI)

lemma handler_steps_trans:
  "handler_steps L ds c k flap ver y tr' z \<Longrightarrow> handler_steps L ds c k flap ver x tr y \<Longrightarrow>
     handler_steps L ds c k flap ver x (tr @ tr') z"
proof (induction rule: handler_steps.induct)
  case (steps_step y tr1 z1 tr2 z2)
  then show ?case using handler_steps.steps_step [of L ds c k flap ver x "tr @ tr1" z1 tr2 z2] by simp
qed simp

lemma handler_finishes:
  "\<exists>tr hs' s'. handler_steps L ds c k flap ver (hs, s) tr (hs', s') \<and> accesses_left (hs' i) = 0 \<and> (\<forall>j. j \<noteq> i \<longrightarrow> hs' j = hs j)"
proof -
  have loaded: "\<exists>tr hs' s'. handler_steps L ds c k flap ver (hs1, s1) tr (hs', s') \<and> accesses_left (hs' i) = 0
      \<and> (\<forall>j. j \<noteq> i \<longrightarrow> hs' j = hs1 j)" if ld: "hs1 i = Loaded x l" for hs1 s1 x l
  proof -
    obtain t v p where x: "x = (t, v, p)" by (cases x)
    obtain res s2 where ev: "evaluate_loaded L ds (EpochTime t) c k v flap p l s1 = (res, s2)" by (metis surj_pair)
    obtain tr where "handler_step L ds c k flap ver (hs1, s1) tr (hs1(i := Finished res), s2)"
      using eval_step [of hs1 i t v p l L ds c k flap s1 res s2 ver] ld x ev by blast
    from steps_step [OF steps_refl this] show ?thesis by (intro exI [of _ tr] exI [of _ "hs1(i := Finished res)"] exI [of _ s2]) simp
  qed
  show ?thesis
  proof (cases "hs i")
    case (Waiting x)
    obtain l s1 where l: "Load ds c k s = (l, s1)" by (metis surj_pair)
    have st: "handler_steps L ds c k flap ver (hs, s) [] (hs(i := Loaded x l), s1)"
      using steps_step [OF steps_refl load_step [of hs i x ds c k s l s1, OF Waiting l]] by simp
    obtain tr hs' s' where "handler_steps L ds c k flap ver (hs(i := Loaded x l), s1) tr (hs', s')" "accesses_left (hs' i) = 0"
        "\<forall>j. j \<noteq> i \<longrightarrow> hs' j = (hs(i := Loaded x l)) j"
      using loaded [of "hs(i := Loaded x l)" x l s1] by auto
    then show ?thesis using handler_steps_trans [OF _ st] by fastforce
  next
    case (Loaded x l)
    then show ?thesis using loaded by blast
  next
    case (Finished res)
    then show ?thesis using steps_refl by fastforce
  qed
qed

lemma all_handlers_finish:
  "\<exists>tr hs' s'. handler_steps L ds c k flap ver (hs, s) tr (hs', s') \<and> (\<forall>i < n. accesses_left (hs' i) = 0)"
proof (induction n)
  case 0
  then show ?case using steps_refl by fastforce
next
  case (Suc n)
  then obtain tr hs1 s1 where 1: "handler_steps L ds c k flap ver (hs, s) tr (hs1, s1)" "\<forall>i < n. accesses_left (hs1 i) = 0" by blast
  obtain tr' hs' s' where 2: "handler_steps L ds c k flap ver (hs1, s1) tr' (hs', s')" "accesses_left (hs' n) = 0"
      "\<forall>j. j \<noteq> n \<longrightarrow> hs' j = hs1 j"
    using handler_finishes [of L ds c k flap ver hs1 s1 n] by blast
  have "\<forall>i < Suc n. accesses_left (hs' i) = 0" using 1(2) 2(2,3) by (auto simp: less_Suc_eq)
  then show ?case using handler_steps_trans [OF 2(1) 1(1)] by blast
qed

lemma handler_steps_progress:
  "handler_steps L ds c k flap ver x tr y \<Longrightarrow> accesses_left (fst y i) \<le> accesses_left (fst x i)"
proof (induction rule: handler_steps.induct)
  case (steps_step x tr y tr' z)
  obtain hs s hs' s' where yz: "y = (hs, s)" "z = (hs', s')" by (metis surj_pair)
  have "accesses_left (hs' i) \<le> accesses_left (hs i)"
    using handler_step_progress [OF steps_step.hyps(2) [unfolded yz]] by (metis Suc_n_not_le_n nat_le_linear)
  then show ?case using steps_step.IH yz by simp
qed simp

lemma accesses_left_0: "accesses_left h = 0 \<longleftrightarrow> (\<exists>r. h = Finished r)"
  by (cases h) auto

section \<open>The invariant\<close>

lemma step_run_snoc:
  "step_run L flap k (xs @ [(t, v, p)]) eo =
     (case step_run L flap k xs eo of
        (rs, eo1) \<Rightarrow>
          (case edge_step L flap (unix t) v (enc_of L p) eo1 of (a, g, w) \<Rightarrow> (rs @ [(a, g)], next_edge k eo1 w)))"
proof (induction xs arbitrary: eo)
  case Nil
  then show ?case by (simp add: step_run.simps case_prod_beta)
next
  case (Cons x xs)
  obtain t' v' p' where x: "x = (t', v', p')" by (cases x)
  show ?case by (simp add: x step_run.simps Cons case_prod_beta)
qed

text \<open>What a handler remembers of the store is old, or still current.\<close>

definition loaded_ok :: "(Edge \<times> int) option \<Rightarrow> Edge option \<times> int \<times> go_error option \<Rightarrow> bool" where
  "loaded_ok cur l =
     (case l of (eo, lv, err) \<Rightarrow>
        err = None \<and> 0 \<le> lv \<and> lv \<le> version_at cur \<and> (\<forall>e. eo = Some e \<longrightarrow> edge_range e) \<and> (eo = None \<longrightarrow> lv = 0)
        \<and> (lv = version_at cur \<longrightarrow> map_option (\<lambda>e. e\<lparr>Version := 0\<rparr>) eo = map_option fst cur))"

lemma edge_range_version [simp]: "edge_range (e\<lparr>Version := x\<rparr>) = edge_range e"
  by (simp add: edge_range_def)

context data_store
begin

lemma version_nonneg: "inv s \<Longrightarrow> 0 \<le> version_at (edges s (c, k))"
  using stored_edge [of s c k] by (cases "edges s (c, k)") auto

lemma load_loaded_ok:
  assumes "inv s" and "up s" and "scope_ok k" and "Load ds c k s = (l, s')"
  shows "inv s' \<and> up s' \<and> edges s' = edges s \<and> loaded_ok (edges s (c, k)) l"
proof -
  obtain eo s1 where l: "Load ds c k s = ((eo, version_at (edges s (c, k)), None), s1)"
    and s1: "inv s1" "up s1" "edges s1 = edges s"
    and eo: "map_option (\<lambda>e. e\<lparr>Version := 0\<rparr>) eo = map_option fst (edges s (c, k))"
    by (rule load_up [OF assms(1-3)])
  have "edge_range e" if e: "eo = Some e" for e
  proof -
    obtain e0 n where "edges s (c, k) = Some (e0, n)" "e0 = e\<lparr>Version := 0\<rparr>"
      using eo e by (cases "edges s (c, k)") auto
    then show ?thesis using stored_edge [OF assms(1)] by force
  qed
  moreover have "eo = None \<longrightarrow> version_at (edges s (c, k)) = 0" using eo by (cases "edges s (c, k)") auto
  ultimately show ?thesis
    using assms(4) l s1 eo version_nonneg [OF assms(1)] by (auto simp: loaded_ok_def)
qed

lemma evaluate_loaded_stale:
  assumes s: "inv s" "up s" and k: "scope_ok k" and x: "obs_ok L (t, v, p)" and ver: "version_at (edges s (c, k)) < max_int64"
    and l: "loaded_ok (edges s (c, k)) l" "fst (snd l) \<noteq> version_at (edges s (c, k))"
    and run: "evaluate_loaded L ds (unix t) c k v flap p l s = ((a, g, err), s')"
  shows "inv s' \<and> up s' \<and> edges s' = edges s \<and> \<not> publishes a"
proof -
  obtain enc where now: "in_int64 (unix t)" and v: "ValidString v" and enc: "EncodePayload L p = Inr enc"
    using x by (auto simp: obs_ok_def)
  obtain eo lv where leq: "l = (eo, lv, None)" using l(1) by (auto simp: loaded_ok_def)
  have lv: "0 \<le> lv" "lv < max_int64" "lv \<noteq> version_at (edges s (c, k))" using l ver by (auto simp: loaded_ok_def leq)
  have stale: "inv s'' \<and> up s'' \<and> uerr = None \<and> edges s'' = edges s \<and> \<not> ok"
    if "edge_range e" "UpsertCAS ds c k lv e s = ((ok, uerr), s'')" for e ok uerr s''
    using upsert_stale [OF s(1) k that(1) lv that(2)] s(2) by blast
  show ?thesis
  proof (cases eo)
    case None
    then have "lv = 0" using l by (simp add: loaded_ok_def leq)
    then show ?thesis
      using run stale [OF initial_edge_range [OF now v]] None
      by (auto simp: evaluate_loaded_def leq publishes_def split: prod.splits option.splits if_splits)
  next
    case (Some e)
    show ?thesis
    proof (cases "LastValue e = v")
      case True
      then show ?thesis using run s Some by (auto simp: evaluate_loaded_def leq publishes_def)
    next
      case False
      obtain a1 g1 e1 where fs: "flip_step L flap (unix t) (observe_flip (unix t) v enc e) = (a1, g1, e1)"
        by (metis surj_pair)
      have "edge_range e" using l Some by (simp add: loaded_ok_def leq)
      then have rng: "edge_range e1"
        by (rule flip_step_range [OF observe_flip_range [OF _ now v EncodePayload_text [OF enc]] now fs])
      have "evaluate_flip L ds (unix t) c k flap lv (observe_flip (unix t) v enc e) s = ((a, g, err), s')"
        using run False Some enc by (simp add: evaluate_loaded_def leq)
      from evaluate_flip_upsert [OF fs this] show ?thesis using stale [OF rng] by metis
    qed
  qed
qed

lemma loaded_ok_mono:
  "loaded_ok cur l \<Longrightarrow> version_at new = version_at cur + 1 \<Longrightarrow> loaded_ok new l"
  by (auto simp: loaded_ok_def)

text \<open>
  The invariant of a system that started in \<^term>\<open>s0\<close> with handler \<^term>\<open>i\<close> waiting to process
  \<^term>\<open>obs i\<close>, after the commits \<^term>\<open>tr\<close>.
\<close>

definition store_inv where
  "store_inv c k s0 tr s \<longleftrightarrow>
     inv s \<and> up s \<and> version_at (edges s (c, k)) = version_at (edges s0 (c, k)) + int (length tr)"

definition handler_inv where
  "handler_inv obs cur i h \<longleftrightarrow>
     (case h of Waiting x \<Rightarrow> x = obs i | Loaded x l \<Rightarrow> x = obs i \<and> loaded_ok cur l | Finished r \<Rightarrow> True)"

definition trace_inv where
  "trace_inv obs tr hs \<longleftrightarrow>
     distinct (map fst tr) \<and> (\<forall>y \<in> set tr. snd y = obs (fst y) \<and> (\<exists>r. hs (fst y) = Finished r))"

definition result_inv where
  "result_inv tr rs i h \<longleftrightarrow>
     (\<forall>a g err. h = Finished (a, g, err) \<longrightarrow> publishes a \<longrightarrow> (\<exists>j < length tr. fst (tr ! j) = i \<and> rs ! j = (a, g)))"

definition sys_inv where
  "sys_inv L c k flap obs s0 tr hs s \<longleftrightarrow>
     store_inv c k s0 tr s \<and> trace_inv obs tr hs \<and> (\<forall>i. handler_inv obs (edges s (c, k)) i (hs i))
     \<and> (\<exists>rs. step_run L flap k (map snd tr) (map_option fst (edges s0 (c, k))) = (rs, map_option fst (edges s (c, k)))
         \<and> (\<forall>i. result_inv tr rs i (hs i)))"

lemma sys_inv_init: "inv s0 \<Longrightarrow> up s0 \<Longrightarrow> sys_inv L c k flap obs s0 [] (\<lambda>i. Waiting (obs i)) s0"
  by (simp add: sys_inv_def store_inv_def trace_inv_def handler_inv_def result_inv_def)

text \<open>A step that leaves the edge alone and finishes, or moves, one handler.\<close>

lemma sys_inv_quiet:
  assumes "sys_inv L c k flap obs s0 tr hs s" and "inv s1" and "up s1" and "edges s1 = edges s"
    and "\<And>r. hs i \<noteq> Finished r"
    and "(\<exists>l. h = Loaded (obs i) l \<and> loaded_ok (edges s (c, k)) l) \<or> (\<exists>a g err. h = Finished (a, g, err) \<and> \<not> publishes a)"
  shows "sys_inv L c k flap obs s0 tr (hs(i := h)) s1"
proof -
  have "store_inv c k s0 tr s1" using assms(1-4) by (simp add: sys_inv_def store_inv_def)
  moreover have "trace_inv obs tr (hs(i := h))" using assms(1,5) by (force simp: sys_inv_def trace_inv_def)
  moreover have "handler_inv obs (edges s (c, k)) i h" "result_inv tr rs i h" for rs
    using assms(6) by (auto simp: handler_inv_def result_inv_def)
  ultimately show ?thesis using assms(1,4) by (auto simp: sys_inv_def)
qed

text \<open>A step of handler \<^term>\<open>i\<close> that commits.\<close>

lemma result_inv_snoc: "length rs = length tr \<Longrightarrow> result_inv tr rs i h \<Longrightarrow> result_inv (tr @ [y]) (rs @ [z]) i h"
  by (fastforce simp: result_inv_def nth_append)

lemma sys_inv_commit:
  assumes I: "sys_inv L c k flap obs s0 tr hs s" and s1: "inv s1" "up s1"
    and ed: "edges s1 = (edges s)((c, k) \<mapsto> (stored k e, version_at (edges s (c, k)) + 1))"
    and i: "\<And>r. hs i \<noteq> Finished r" and x: "obs i = (t, v, p)"
    and st: "edge_step L flap (unix t) v (enc_of L p) (map_option fst (edges s (c, k))) = (a, g, Some e)"
  shows "sys_inv L c k flap obs s0 (tr @ [(i, obs i)]) (hs(i := Finished (a, g, None))) s1"
proof -
  obtain rs where rs: "step_run L flap k (map snd tr) (map_option fst (edges s0 (c, k))) = (rs, map_option fst (edges s (c, k)))"
    and pub: "\<And>m. result_inv tr rs m (hs m)"
    using I unfolding sys_inv_def by blast
  have len: "length rs = length tr"
    using length_step_run [of L flap k "map snd tr" "map_option fst (edges s0 (c, k))"] rs by simp
  have run: "step_run L flap k (map snd (tr @ [(i, obs i)])) (map_option fst (edges s0 (c, k)))
      = (rs @ [(a, g)], map_option fst (edges s1 (c, k)))"
    by (simp add: step_run_snoc x rs st ed)
  have "store_inv c k s0 (tr @ [(i, obs i)]) s1" using I s1 ed by (simp add: sys_inv_def store_inv_def)
  moreover have "trace_inv obs (tr @ [(i, obs i)]) (hs(i := Finished (a, g, None)))"
    using I i by (force simp: sys_inv_def trace_inv_def)
  moreover have "handler_inv obs (edges s1 (c, k)) m ((hs(i := Finished (a, g, None))) m)" for m
    using I ed loaded_ok_mono [of "edges s (c, k)" _ "edges s1 (c, k)"]
    by (auto simp: sys_inv_def handler_inv_def split: handler.splits)
  moreover have "result_inv (tr @ [(i, obs i)]) (rs @ [(a, g)]) m ((hs(i := Finished (a, g, None))) m)" for m
    using result_inv_snoc [OF len pub [of m]] len by (auto simp: result_inv_def nth_append)
  ultimately show ?thesis using run by (auto simp: sys_inv_def)
qed

lemma sys_inv_eval:
  assumes I: "sys_inv L c k flap obs s0 tr hs s" and k: "scope_ok k" and ok: "\<And>i. obs_ok L (obs i)"
    and ver: "version_at (edges s (c, k)) < max_int64"
    and x: "obs i = (t, v, p)" and l: "loaded_ok (edges s (c, k)) l"
    and ev: "evaluate_loaded L ds (unix t) c k v flap p l s = (r, s')" and nf: "\<And>r. hs i \<noteq> Finished r"
  shows "sys_inv L c k flap obs s0
    (tr @ (if version_at (edges s' (c, k)) = version_at (edges s (c, k)) then [] else [(i, obs i)]))
    (hs(i := Finished r)) s'"
proof -
  have s: "inv s" "up s" using I by (auto simp: sys_inv_def store_inv_def)
  obtain a g err where r: "r = (a, g, err)" by (cases r)
  show ?thesis
  proof (cases "fst (snd l) = version_at (edges s (c, k))")
    case False
    from evaluate_loaded_stale [OF s k ok [of i, unfolded x] ver l False ev [unfolded r]]
    show ?thesis using sys_inv_quiet [OF I, of s' i "Finished r"] nf by (auto simp: r)
  next
    case True
    then obtain eo where leq: "l = (eo, version_at (edges s (c, k)), None)"
      and eo: "map_option (\<lambda>e. e\<lparr>Version := 0\<rparr>) eo = map_option fst (edges s (c, k))"
      using l by (auto simp: loaded_ok_def)
    obtain enc where now: "in_int64 (unix t)" and v: "ValidString v" and enc: "EncodePayload L p = Inr enc"
      using ok [of i] by (auto simp: obs_ok_def x)
    obtain a1 g1 w where st: "edge_step L flap (unix t) v enc (map_option fst (edges s (c, k))) = (a1, g1, w)"
      by (metis surj_pair)
    from evaluate_loaded_current [OF s k now v enc ver eo st] ev
    have r1: "r = (a1, g1, None)" and s': "inv s'" "up s'"
      and ed: "edges s' = (case w of None \<Rightarrow> edges s
        | Some e \<Rightarrow> (edges s)((c, k) \<mapsto> (stored k e, version_at (edges s (c, k)) + 1)))"
      by (auto simp: leq)
    show ?thesis
    proof (cases w)
      case None
      then have "\<not> publishes a1"
        using st by (auto simp: edge_step_def publishes_def split: option.splits if_splits prod.splits)
      then show ?thesis using sys_inv_quiet [OF I s', of i "Finished r"] nf ed None by (auto simp: r1)
    next
      case (Some e)
      have "enc_of L p = enc" by (simp add: enc_of_def enc)
      then show ?thesis using sys_inv_commit [OF I s' _ nf x, of e a1 g1] st ed Some by (simp add: r1)
    qed
  qed
qed

lemma sys_inv_step:
  assumes I: "sys_inv L c k flap obs s0 tr hs s" and k: "scope_ok k" and ok: "\<And>i. obs_ok L (obs i)"
    and ver: "version_at (edges s (c, k)) < max_int64"
    and step: "handler_step L ds c k flap (\<lambda>s. version_at (edges s (c, k))) (hs, s) tr' (hs', s')"
  shows "sys_inv L c k flap obs s0 (tr @ tr') hs' s'"
  using step
proof cases
  case (load_step i x l)
  have s: "inv s" "up s" using I by (auto simp: sys_inv_def store_inv_def)
  have "handler_inv obs (edges s (c, k)) i (Waiting x)" using I load_step by (metis sys_inv_def)
  then have x: "x = obs i" by (simp add: handler_inv_def)
  have "sys_inv L c k flap obs s0 tr (hs(i := Loaded x l)) s'"
    using sys_inv_quiet [OF I, of s' i "Loaded x l"] load_loaded_ok [OF s k, of c l s'] load_step x by auto
  then show ?thesis using load_step by simp
next
  case (eval_step i t v p l r)
  have s: "inv s" "up s" using I by (auto simp: sys_inv_def store_inv_def)
  have "handler_inv obs (edges s (c, k)) i (Loaded (t, v, p) l)" using I eval_step by (metis sys_inv_def)
  then have x: "obs i = (t, v, p)" and l: "loaded_ok (edges s (c, k)) l" by (auto simp: handler_inv_def)
  have ev: "evaluate_loaded L ds (unix t) c k v flap p l s = (r, s')" using eval_step by (simp add: EpochTime_def)
  have nf: "hs i \<noteq> Finished r" for r using eval_step by simp
  show ?thesis
    using sys_inv_eval [OF I k ok ver x l ev nf] eval_step x by (auto split: if_splits)
next
  case (limit_step rate w clk scope ar)
  have s: "inv s" "up s" using I by (auto simp: sys_inv_def store_inv_def)
  have "inv s' \<and> up s' \<and> edges s' = edges s"
    using acquire_edges [OF s(1) limit_step(3-5)] acquire [OF s(1) _ limit_step(3,4), of clk scope "fst ar" "snd ar" s']
      acquire_off [OF s(1), of rate clk scope w] limit_step(5) s
    by (cases "0 < rate") auto
  then show ?thesis using I limit_step by (simp add: sys_inv_def store_inv_def)
qed

lemma handler_steps_inv:
  assumes "handler_steps L ds c k flap (\<lambda>s. version_at (edges s (c, k))) (\<lambda>i. Waiting (obs i), s0) tr sys"
    and "inv s0" and "up s0" and "scope_ok k" and "\<And>i. obs_ok L (obs i)"
    and "version_at (edges s0 (c, k)) + int (length tr) < max_int64"
  shows "sys_inv L c k flap obs s0 tr (fst sys) (snd sys)"
  using assms(1,6)
proof (induction "(\<lambda>i. Waiting (obs i), s0)" tr sys rule: handler_steps.induct)
  case steps_refl
  then show ?case using sys_inv_init assms(2,3) by simp
next
  case (steps_step tr y tr' z)
  then have I: "sys_inv L c k flap obs s0 tr (fst y) (snd y)" by simp
  then have "version_at (edges (snd y) (c, k)) < max_int64"
    using steps_step(4) by (simp add: sys_inv_def store_inv_def)
  from sys_inv_step [OF I assms(4,5) this, of tr' "fst z" "snd z"] steps_step(3) show ?case by simp
qed

end

end
