(* ===== verification/Dynamodb.thy ===== *)
theory Dynamodb
  imports Ports
begin

text \<open>
  The two third-party interfaces the DynamoDB backend is written against: the calls of the AWS SDK's
  \<^verbatim>\<open>dynamodb.Client\<close> and the \<^verbatim>\<open>attributevalue\<close> package.  Both are parameters of the model (records of
  operations); what their documentation promises, for the calls the program makes, are the laws of the
  locales \<open>attributevalue\<close> and \<open>dynamodb\<close>.

  Expressions are kept as the program writes them, as syntax trees over the \<^verbatim>\<open>#name\<close> and \<^verbatim>\<open>:value\<close>
  placeholders of the request; \<open>holds\<close> and \<open>apply_update\<close> are their documented meaning.
\<close>

section \<open>Items and expressions\<close>

datatype AttributeValue =
    AvS string
  | AvN string
  | AvL "AttributeValue list"
  | AvM "(string \<times> AttributeValue) list"
  | AvBOOL bool
  | AvNULL

type_synonym item = "string \<Rightarrow> AttributeValue option"

datatype condition =
    AttributeNotExists string
  | Equals string string
  | LessThan string string
  | CondAnd condition condition
  | CondOr condition condition

datatype update_action =
    SetTo string string
  | SetIfNotExists string string
  | AddTo string string

section \<open>Requests\<close>

type_synonym row_key = "string \<times> string"

record GetItemInput =
  gi_TableName :: string
  gi_Key :: row_key
  gi_ConsistentRead :: bool

record PutItemInput =
  pi_TableName :: string
  pi_Item :: item
  pi_Condition :: "condition option"

record UpdateItemInput =
  ui_TableName :: string
  ui_Key :: row_key
  ui_Update :: "update_action list"
  ui_Names :: "string \<Rightarrow> string option"
  ui_Values :: "string \<Rightarrow> AttributeValue option"
  ui_Condition :: condition

record DeleteItemInput =
  di_TableName :: string
  di_Key :: row_key

text \<open>A query with the key condition \<^verbatim>\<open>PK = :pk AND begins_with(SK, :sk)\<close> and the projection of one attribute.\<close>

record QueryInput =
  qi_TableName :: string
  qi_PK :: string
  qi_SKPrefix :: string
  qi_Projection :: string

record 's DynamoDB =
  GetItem :: "GetItemInput \<Rightarrow> 's \<Rightarrow> (go_error + item option) \<times> 's"
  PutItem :: "PutItemInput \<Rightarrow> 's \<Rightarrow> go_error option \<times> 's"
  UpdateItem :: "UpdateItemInput \<Rightarrow> 's \<Rightarrow> go_error option \<times> 's"
  DeleteItem :: "DeleteItemInput \<Rightarrow> 's \<Rightarrow> go_error option \<times> 's"
  Query :: "QueryInput \<Rightarrow> 's \<Rightarrow> (go_error + item list) \<times> 's"
  CreateTable :: "string \<Rightarrow> 's \<Rightarrow> go_error option \<times> 's"
  DeleteTable :: "string \<Rightarrow> 's \<Rightarrow> go_error option \<times> 's"
  WaitTableNotExists :: "string \<Rightarrow> duration \<Rightarrow> 's \<Rightarrow> go_error option \<times> 's"

text \<open>The Go values the program marshals, and the package that does it.\<close>

datatype go_value = GoStr string | GoInt int | GoFlips "Flip list"

record AvCodec =
  av_Marshal :: "go_value \<Rightarrow> go_error + AttributeValue"
  av_MarshalMap :: "(string \<Rightarrow> go_value option) \<Rightarrow> go_error + item"
  av_UnmarshalEdge :: "item \<Rightarrow> go_error + Edge"
  av_MarshalConfig :: "string \<Rightarrow> string \<Rightarrow> ClientConfig \<Rightarrow> go_error + item"
  av_UnmarshalConfig :: "item \<Rightarrow> go_error + ClientConfig"
  av_UnmarshalPK :: "item \<Rightarrow> go_error + string"

section \<open>The meaning of expressions\<close>

definition attr_name :: "(string \<Rightarrow> string option) \<Rightarrow> string \<Rightarrow> string" where
  "attr_name names p = (case names p of None \<Rightarrow> p | Some a \<Rightarrow> a)"

definition attr :: "(string \<Rightarrow> string option) \<Rightarrow> item option \<Rightarrow> string \<Rightarrow> AttributeValue option" where
  "attr names old p = (case old of None \<Rightarrow> None | Some it \<Rightarrow> it (attr_name names p))"

fun av_num :: "AttributeValue \<Rightarrow> int option" where
  "av_num (AvN s) = (case ParseInt s of Inl _ \<Rightarrow> None | Inr i \<Rightarrow> Some i)"
| "av_num _ = None"

fun holds :: "(string \<Rightarrow> string option) \<Rightarrow> (string \<Rightarrow> AttributeValue option) \<Rightarrow> item option \<Rightarrow> condition \<Rightarrow> bool" where
  "holds names vals old (AttributeNotExists p) \<longleftrightarrow> attr names old p = None"
| "holds names vals old (Equals p v) \<longleftrightarrow>
     (case (attr names old p, vals v) of
        (Some a, Some b) \<Rightarrow> (case (av_num a, av_num b) of (Some m, Some n) \<Rightarrow> m = n | _ \<Rightarrow> a = b)
      | _ \<Rightarrow> False)"
| "holds names vals old (LessThan p v) \<longleftrightarrow>
     (case (attr names old p, vals v) of
        (Some a, Some b) \<Rightarrow> (case (av_num a, av_num b) of (Some m, Some n) \<Rightarrow> m < n | _ \<Rightarrow> False)
      | _ \<Rightarrow> False)"
| "holds names vals old (CondAnd c d) \<longleftrightarrow> holds names vals old c \<and> holds names vals old d"
| "holds names vals old (CondOr c d) \<longleftrightarrow> holds names vals old c \<or> holds names vals old d"

fun apply_action :: "(string \<Rightarrow> string option) \<Rightarrow> (string \<Rightarrow> AttributeValue option) \<Rightarrow> update_action \<Rightarrow> item \<Rightarrow> item" where
  "apply_action names vals (SetTo p v) it = it(attr_name names p := vals v)"
| "apply_action names vals (SetIfNotExists p v) it =
     (if it (attr_name names p) = None then it(attr_name names p := vals v) else it)"
| "apply_action names vals (AddTo p v) it =
     (case it (attr_name names p) of
        None \<Rightarrow> it(attr_name names p := vals v)
      | Some a \<Rightarrow>
          (case (av_num a, Option.bind (vals v) av_num) of
             (Some m, Some n) \<Rightarrow> it(attr_name names p \<mapsto> AvN (FormatInt (m + n)))
           | _ \<Rightarrow> it))"

text \<open>An update starts from the old item, or from the bare key of a new one.\<close>

definition key_item :: "row_key \<Rightarrow> item" where
  "key_item rk = [''PK'' \<mapsto> AvS (fst rk), ''SK'' \<mapsto> AvS (snd rk)]"

definition apply_update :: "UpdateItemInput \<Rightarrow> item option \<Rightarrow> item" where
  "apply_update u old =
     fold (apply_action (ui_Names u) (ui_Values u)) (ui_Update u)
       (case old of None \<Rightarrow> key_item (ui_Key u) | Some it \<Rightarrow> it)"

text \<open>
  The outcome of a conditional write: it succeeds only if the condition held, a failed condition
  writes nothing, and after any other error the write may or may not have happened.
\<close>

definition write_outcome :: "bool \<Rightarrow> 't \<Rightarrow> 't \<Rightarrow> go_error option \<Rightarrow> 't \<Rightarrow> bool" where
  "write_outcome ok old new err t \<longleftrightarrow>
     (case err of
        None \<Rightarrow> ok \<and> t = new
      | Some e \<Rightarrow> if e = ConditionalCheckFailed then \<not> ok \<and> t = old else t = old \<or> (ok \<and> t = new))"

section \<open>The laws\<close>

type_synonym tables = "string \<Rightarrow> row_key \<Rightarrow> item option"

definition set_row :: "tables \<Rightarrow> string \<Rightarrow> row_key \<Rightarrow> item option \<Rightarrow> tables" where
  "set_row tb tn rk x = tb(tn := (tb tn)(rk := x))"

lemma set_row_simps [simp]:
  "set_row tb tn rk x tn rk = x" "rk' \<noteq> rk \<Longrightarrow> set_row tb tn rk x tn rk' = tb tn rk'"
  by (simp_all add: set_row_def)

text \<open>
  Time to live, where it is enabled for the attribute \<^verbatim>\<open>ttl\<close>: an item whose time, in seconds, has passed may be deleted
  by the service, at some later moment; until then it stays visible.
\<close>

definition expired :: "time \<Rightarrow> item \<Rightarrow> bool" where
  "expired t it \<longleftrightarrow> (\<exists>n. Option.bind (it ''ttl'') av_num = Some n \<and> n < unix t)"

definition expires :: "time \<Rightarrow> tables \<Rightarrow> tables \<Rightarrow> bool" where
  "expires t tb tb' \<longleftrightarrow>
     (\<forall>tn rk. tb' tn rk = tb tn rk \<or> tb' tn rk = None \<and> (\<exists>it. tb tn rk = Some it \<and> expired t it))"

text \<open>
  \<^verbatim>\<open>attributevalue\<close>: strings and integers marshal to \<^verbatim>\<open>S\<close> and \<^verbatim>\<open>N\<close> values, a map field by field, a list
  of flips to some value; unmarshalling reads each field back by its tag.
\<close>

locale attributevalue =
  fixes av :: AvCodec
  assumes marshal_str: "av_Marshal av (GoStr x) = Inr (AvS x)"
    and marshal_int: "av_Marshal av (GoInt i) = Inr (AvN (FormatInt i))"
    and marshal_flips: "\<exists>r. av_Marshal av (GoFlips fs) = Inr r"
    and marshal_map:
      "av_MarshalMap av m = Inr (\<lambda>a. case m a of None \<Rightarrow> None | Some g \<Rightarrow> Some (projr (av_Marshal av g)))"
    and unmarshal_edge:
      "it ''scope_key'' = Some (AvS (ScopeKey e)) \<Longrightarrow> it ''last_value'' = Some (AvS (LastValue e)) \<Longrightarrow>
       it ''last_change_ts'' = Some (AvN (FormatInt (LastChangeTS e))) \<Longrightarrow>
       it ''window_start'' = Some (AvN (FormatInt (WindowStart e))) \<Longrightarrow>
       it ''flip_count'' = Some (AvN (FormatInt (FlipCount e))) \<Longrightarrow>
       it ''recent'' = Some r \<Longrightarrow> av_Marshal av (GoFlips (Recent e)) = Inr r \<Longrightarrow>
       it ''agg_until_ts'' = Some (AvN (FormatInt (AggUntilTS e))) \<Longrightarrow>
       it ''ver'' = Some (AvN (FormatInt (Version e))) \<Longrightarrow>
       edge_range e \<Longrightarrow> in_int64 (Version e) \<Longrightarrow> av_UnmarshalEdge av it = Inr e"
    and marshal_config:
      "config_range cc \<Longrightarrow> \<exists>it. av_MarshalConfig av pk sk cc = Inr it \<and> it ''PK'' = Some (AvS pk) \<and> it ''SK'' = Some (AvS sk)
         \<and> av_UnmarshalConfig av it = Inr cc"
    and unmarshal_pk: "it ''PK'' = Some (AvS pk) \<Longrightarrow> av_UnmarshalPK av it = Inr pk"

text \<open>
  \<^verbatim>\<open>dynamodb\<close>: a consistent read returns the item; conditional writes are atomic; a delete removes the
  item; a query returns the matching items.  \<open>up\<close> holds while the service answers.
\<close>

locale dynamodb =
  fixes db :: "'s DynamoDB"
    and table :: "'s \<Rightarrow> tables"
    and up :: "'s \<Rightarrow> bool"
  assumes get_item:
      "GetItem db gi s = (gr, s') \<Longrightarrow> gi_ConsistentRead gi \<Longrightarrow>
         table s' = table s \<and> (up s \<longrightarrow> up s' \<and> (\<exists>x. gr = Inr x))
         \<and> (\<forall>x. gr = Inr x \<longrightarrow> x = table s (gi_TableName gi) (gi_Key gi))"
    and put_item:
      "PutItem db pin s = (err, s') \<Longrightarrow> pi_Item pin ''PK'' = Some (AvS pk) \<Longrightarrow> pi_Item pin ''SK'' = Some (AvS sk) \<Longrightarrow>
         old = table s (pi_TableName pin) (pk, sk) \<Longrightarrow>
         write_outcome (case pi_Condition pin of None \<Rightarrow> True | Some c \<Rightarrow> holds Map.empty Map.empty old c)
           (table s) (set_row (table s) (pi_TableName pin) (pk, sk) (Some (pi_Item pin))) err (table s')
         \<and> (up s \<longrightarrow> up s' \<and> err \<in> {None, Some ConditionalCheckFailed})"
    and update_item:
      "UpdateItem db u s = (err, s') \<Longrightarrow> old = table s (ui_TableName u) (ui_Key u) \<Longrightarrow>
         write_outcome (holds (ui_Names u) (ui_Values u) old (ui_Condition u))
           (table s) (set_row (table s) (ui_TableName u) (ui_Key u) (Some (apply_update u old))) err (table s')
         \<and> (up s \<longrightarrow> up s' \<and> err \<in> {None, Some ConditionalCheckFailed})"
    and delete_item:
      "DeleteItem db d s = (err, s') \<Longrightarrow>
         (err = None \<longrightarrow> table s' = set_row (table s) (di_TableName d) (di_Key d) None)
         \<and> (err \<noteq> None \<longrightarrow> table s' = table s \<or> table s' = set_row (table s) (di_TableName d) (di_Key d) None)
         \<and> (up s \<longrightarrow> up s' \<and> err = None)"
    and query:
      "Query db q s = (qr, s') \<Longrightarrow>
         table s' = table s \<and> (up s \<longrightarrow> up s' \<and> (\<exists>xs. qr = Inr xs))
         \<and> (\<forall>xs it. qr = Inr xs \<longrightarrow> it \<in> set xs \<longrightarrow>
              (\<exists>sk row. table s (qi_TableName q) (qi_PK q, sk) = Some row
                 \<and> take (length (qi_SKPrefix q)) sk = qi_SKPrefix q
                 \<and> it (qi_Projection q) = row (qi_Projection q)))"

end
