(* ===== verification/Ddb_Store.thy ===== *)
theory Ddb_Store
  imports Dynamodb
begin

text \<open>
  \<^verbatim>\<open>internal/backends/ddb/table.go\<close> and \<^verbatim>\<open>datastore.go\<close>: the row keys and the \<^verbatim>\<open>DataStore\<close> over
  DynamoDB.  The sublocale at the end shows that, given the documented behaviour of the two
  packages, it keeps the whole \<^verbatim>\<open>DataStore\<close> contract, stale versions included.
\<close>

section \<open>Row keys (table.go)\<close>

definition SClient :: string where [simp]: "SClient = ''CLIENT''"
definition SRate :: string where [simp]: "SRate = ''RATE''"
definition SEdge :: string where [simp]: "SEdge = ''EDGE''"
definition SDedup :: string where [simp]: "SDedup = ''DEDUP''"
definition SWin :: string where [simp]: "SWin = ''WIN''"

definition pkClient :: "string \<Rightarrow> string" where
  "pkClient i = SClient @ ''#'' @ i"

definition skProfile :: string where
  "skProfile = ''PROFILE''"

definition skDedup :: "string \<Rightarrow> string" where
  "skDedup h = SDedup @ ''#'' @ h"

definition pkRate :: "string \<Rightarrow> string" where
  "pkRate scope = SRate @ ''#'' @ scope"

definition skRateWin :: "int \<Rightarrow> string" where
  "skRateWin epochMin = SWin @ ''#'' @ FormatInt epochMin"

definition skEdge :: "string \<Rightarrow> string" where
  "skEdge scopeKey = SEdge @ ''#'' @ scopeKey"

lemmas ddb_key_defs [key_defs] =
  pkClient_def skProfile_def skDedup_def pkRate_def skRateWin_def skEdge_def

text \<open>The condition every create uses: \<^verbatim>\<open>attribute_not_exists(PK) AND attribute_not_exists(SK)\<close>.\<close>

definition row_absent :: condition where
  "row_absent = CondAnd (AttributeNotExists ''PK'') (AttributeNotExists ''SK'')"

section \<open>Operations (datastore.go)\<close>

text \<open>The row of a suppressed notification, with the attribute names of its tags.\<close>

record dedupItem =
  di_PK :: string
  di_SK :: string
  ExpiresAt :: int

definition dedup_attributes :: "dedupItem \<Rightarrow> string \<Rightarrow> go_value option" where
  "dedup_attributes item = [''PK'' \<mapsto> GoStr (di_PK item), ''SK'' \<mapsto> GoStr (di_SK item), ''ttl'' \<mapsto> GoInt (ExpiresAt item)]"

definition ddb_Suppress ::
    "AvCodec \<Rightarrow> 's DynamoDB \<Rightarrow> string \<Rightarrow> time \<Rightarrow> string \<Rightarrow> string \<Rightarrow> duration \<Rightarrow> 's \<Rightarrow> (bool \<times> go_error option) \<times> 's" where
  "ddb_Suppress av db tn now clientID h window s =
     (case av_MarshalMap av (dedup_attributes
             \<lparr>di_PK = pkClient clientID, di_SK = skDedup h, ExpiresAt = unix (now + window)\<rparr>) of
        Inl e \<Rightarrow> ((False, Some e), s)
      | Inr it \<Rightarrow>
          (case PutItem db \<lparr>pi_TableName = tn, pi_Item = it, pi_Condition = Some row_absent\<rparr> s of
             (err, s1) \<Rightarrow>
               (case err of
                  None \<Rightarrow> ((False, None), s1)
                | Some e \<Rightarrow> if e = ConditionalCheckFailed then ((True, None), s1) else ((False, Some e), s1))))"

definition ddb_Load ::
    "AvCodec \<Rightarrow> 's DynamoDB \<Rightarrow> string \<Rightarrow> string \<Rightarrow> string \<Rightarrow> 's \<Rightarrow> (Edge option \<times> int \<times> go_error option) \<times> 's" where
  "ddb_Load av db tn clientID scopeKey s =
     (case GetItem db \<lparr>gi_TableName = tn, gi_Key = (pkClient clientID, skEdge scopeKey), gi_ConsistentRead = True\<rparr> s of
        (out, s1) \<Rightarrow>
          (case out of
             Inl e \<Rightarrow> ((None, 0, Some e), s1)
           | Inr None \<Rightarrow> ((None, 0, None), s1)
           | Inr (Some it) \<Rightarrow>
               (case av_UnmarshalEdge av it of
                  Inl e \<Rightarrow> ((None, 0, Some e), s1)
                | Inr st \<Rightarrow> ((Some st, Version st, None), s1))))"

text \<open>
  How \<^verbatim>\<open>UpsertCAS\<close> (twice) and \<^verbatim>\<open>Acquire\<close> turn the error of their conditional write into their result.
\<close>

definition cond_result :: "go_error option \<Rightarrow> bool \<times> go_error option" where
  "cond_result err =
     (case err of
        None \<Rightarrow> (True, None)
      | Some e \<Rightarrow> if e = ConditionalCheckFailed then (False, None) else (False, Some e))"

text \<open>The create branch of \<^verbatim>\<open>UpsertCAS\<close>: the map it marshals, and the conditional put.\<close>

definition edge_fields :: "string \<Rightarrow> string \<Rightarrow> Edge \<Rightarrow> string \<Rightarrow> go_value option" where
  "edge_fields clientID scopeKey nxt =
     [''PK'' \<mapsto> GoStr (pkClient clientID), ''SK'' \<mapsto> GoStr (skEdge scopeKey),
      ''scope_key'' \<mapsto> GoStr (ScopeKey nxt), ''last_value'' \<mapsto> GoStr (LastValue nxt),
      ''last_change_ts'' \<mapsto> GoInt (LastChangeTS nxt), ''window_start'' \<mapsto> GoInt (WindowStart nxt),
      ''flip_count'' \<mapsto> GoInt (FlipCount nxt), ''recent'' \<mapsto> GoFlips (Recent nxt),
      ''agg_until_ts'' \<mapsto> GoInt (AggUntilTS nxt), ''ver'' \<mapsto> GoInt (Version nxt)]"

definition ddb_create ::
    "AvCodec \<Rightarrow> 's DynamoDB \<Rightarrow> string \<Rightarrow> string \<Rightarrow> string \<Rightarrow> Edge \<Rightarrow> 's \<Rightarrow> (bool \<times> go_error option) \<times> 's" where
  "ddb_create av db tn clientID scopeKey nxt s =
     (case av_MarshalMap av (edge_fields clientID scopeKey nxt) of
        Inl e \<Rightarrow> ((False, Some e), s)
      | Inr it \<Rightarrow>
          (case PutItem db \<lparr>pi_TableName = tn, pi_Item = it, pi_Condition = Some row_absent\<rparr> s of
             (err, s1) \<Rightarrow> (cond_result err, s1)))"

text \<open>\<^verbatim>\<open>mustMarshalAttr\<close> drops the error; a failed marshal leaves a nil attribute.\<close>

definition mustMarshalAttr :: "AvCodec \<Rightarrow> go_value \<Rightarrow> AttributeValue option" where
  "mustMarshalAttr av v = (case av_Marshal av v of Inl _ \<Rightarrow> None | Inr a \<Rightarrow> Some a)"

definition cas_update :: "AvCodec \<Rightarrow> string \<Rightarrow> string \<Rightarrow> string \<Rightarrow> int \<Rightarrow> Edge \<Rightarrow> UpdateItemInput" where
  "cas_update av tn clientID scopeKey prevVersion nxt =
     \<lparr>ui_TableName = tn, ui_Key = (pkClient clientID, skEdge scopeKey),
      ui_Update = [SetTo ''#lv'' '':lv'', SetTo ''#lcts'' '':lcts'', SetTo ''#ws'' '':ws'', SetTo ''#fc'' '':fc'',
                   SetTo ''#rc'' '':rc'', SetTo ''#aut'' '':aut'', SetTo ''#ver'' '':newver''],
      ui_Names = [''#lv'' \<mapsto> ''last_value'', ''#lcts'' \<mapsto> ''last_change_ts'', ''#ws'' \<mapsto> ''window_start'',
                  ''#fc'' \<mapsto> ''flip_count'', ''#rc'' \<mapsto> ''recent'', ''#aut'' \<mapsto> ''agg_until_ts'', ''#ver'' \<mapsto> ''ver''],
      ui_Values = [ '':lv'' \<mapsto> AvS (LastValue nxt), '':lcts'' \<mapsto> AvN (FormatInt (LastChangeTS nxt)),
                   '':ws'' \<mapsto> AvN (FormatInt (WindowStart nxt)), '':fc'' \<mapsto> AvN (FormatInt (FlipCount nxt)),
                   '':aut'' \<mapsto> AvN (FormatInt (AggUntilTS nxt)),
                   '':newver'' \<mapsto> AvN (FormatInt (add64 prevVersion 1)),
                   '':prev'' \<mapsto> AvN (FormatInt prevVersion)]( '':rc'' := mustMarshalAttr av (GoFlips (Recent nxt))),
      ui_Condition = Equals ''#ver'' '':prev''\<rparr>"

definition ddb_UpsertCAS ::
    "AvCodec \<Rightarrow> 's DynamoDB \<Rightarrow> string \<Rightarrow> string \<Rightarrow> string \<Rightarrow> int \<Rightarrow> Edge \<Rightarrow> 's \<Rightarrow> (bool \<times> go_error option) \<times> 's" where
  "ddb_UpsertCAS av db tn clientID scopeKey prevVersion nxt s =
     (let nxt = nxt\<lparr>ScopeKey := scopeKey\<rparr> in
      if prevVersion = 0 then ddb_create av db tn clientID scopeKey (nxt\<lparr>Version := 1\<rparr>) s
      else (case UpdateItem db (cas_update av tn clientID scopeKey prevVersion nxt) s of
              (err, s1) \<Rightarrow> (cond_result err, s1)))"

definition acquire_update :: "string \<Rightarrow> string \<Rightarrow> int \<Rightarrow> int \<Rightarrow> int \<Rightarrow> UpdateItemInput" where
  "acquire_update tn scope epochMin ttl ratePerWindow =
     \<lparr>ui_TableName = tn, ui_Key = (pkRate scope, skRateWin epochMin),
      ui_Update = [SetIfNotExists ''#ttl'' '':ttl'', AddTo ''#count'' '':one''],
      ui_Names = [''#count'' \<mapsto> ''count'', ''#ttl'' \<mapsto> ''ttl''],
      ui_Values = [ '':one'' \<mapsto> AvN ''1'', '':ttl'' \<mapsto> AvN (FormatInt ttl), '':cap'' \<mapsto> AvN (FormatInt ratePerWindow)],
      ui_Condition = CondOr (AttributeNotExists ''#count'') (LessThan ''#count'' '':cap'')\<rparr>"

definition ddb_Acquire ::
    "'s DynamoDB \<Rightarrow> string \<Rightarrow> clock \<Rightarrow> string \<Rightarrow> int \<Rightarrow> duration \<Rightarrow> 's \<Rightarrow> (bool \<times> go_error option) \<times> 's" where
  "ddb_Acquire db tn clk scope ratePerWindow window s =
     (if ratePerWindow \<le> 0 then ((False, None), s)
      else let epochMin = unix (clk 0) sdiv 60;
               ttl = unix (clk 1 + (window + 2 * minute))
           in (case UpdateItem db (acquire_update tn scope epochMin ttl ratePerWindow) s of
                 (err, s1) \<Rightarrow> (cond_result err, s1)))"

definition ddb_DataStore :: "AvCodec \<Rightarrow> 's DynamoDB \<Rightarrow> string \<Rightarrow> 's DataStore" where
  "ddb_DataStore av db tn =
     \<lparr>Acquire = ddb_Acquire db tn, Load = ddb_Load av db tn, UpsertCAS = ddb_UpsertCAS av db tn\<rparr>"

section \<open>The store keeps the contract\<close>

text \<open>
  A row holds an edge when its attributes do; the abstract edge map and the grants are read off the
  table.
\<close>

definition edge_row :: "AvCodec \<Rightarrow> string \<Rightarrow> Edge \<Rightarrow> item \<Rightarrow> bool" where
  "edge_row av k e it \<longleftrightarrow>
     it ''PK'' \<noteq> None \<and> it ''SK'' \<noteq> None
     \<and> it ''scope_key'' = Some (AvS k) \<and> it ''last_value'' = Some (AvS (LastValue e))
     \<and> it ''last_change_ts'' = Some (AvN (FormatInt (LastChangeTS e)))
     \<and> it ''window_start'' = Some (AvN (FormatInt (WindowStart e)))
     \<and> it ''flip_count'' = Some (AvN (FormatInt (FlipCount e)))
     \<and> it ''recent'' = mustMarshalAttr av (GoFlips (Recent e)) \<and> it ''recent'' \<noteq> None
     \<and> it ''agg_until_ts'' = Some (AvN (FormatInt (AggUntilTS e)))
     \<and> it ''ver'' = Some (AvN (FormatInt (Version e)))
     \<and> edge_range e \<and> 0 < Version e \<and> Version e \<le> max_int64"

definition count_row :: "item \<Rightarrow> int \<Rightarrow> bool" where
  "count_row it n \<longleftrightarrow> it ''count'' = Some (AvN (FormatInt n)) \<and> 0 \<le> n \<and> n \<le> max_int64"

definition ddb_edges :: "AvCodec \<Rightarrow> tables \<Rightarrow> string \<Rightarrow> edge_map" where
  "ddb_edges av tb tn ck =
     (case tb tn (pkClient (fst ck), skEdge (snd ck)) of
        None \<Rightarrow> None
      | Some it \<Rightarrow> (case av_UnmarshalEdge av it of Inl _ \<Rightarrow> None | Inr e \<Rightarrow> Some (e\<lparr>Version := 0\<rparr>, Version e)))"

definition ddb_granted :: "tables \<Rightarrow> string \<Rightarrow> string \<times> int \<Rightarrow> int" where
  "ddb_granted tb tn b =
     (case tb tn (pkRate (fst b), skRateWin (snd b)) of
        None \<Rightarrow> 0
      | Some it \<Rightarrow> (case Option.bind (it ''count'') av_num of None \<Rightarrow> 0 | Some n \<Rightarrow> n))"

definition ddb_inv :: "AvCodec \<Rightarrow> tables \<Rightarrow> string \<Rightarrow> bool" where
  "ddb_inv av tb tn \<longleftrightarrow>
     (\<forall>c k it. tb tn (pkClient c, skEdge k) = Some it \<longrightarrow> (\<exists>e. edge_row av k e it))
     \<and> (\<forall>scope m it. tb tn (pkRate scope, skRateWin m) = Some it \<longrightarrow> (\<exists>n. count_row it n))"

lemma pkClient_inject [simp]: "pkClient a = pkClient b \<longleftrightarrow> a = b"
  and skEdge_inject [simp]: "skEdge a = skEdge b \<longleftrightarrow> a = b"
  and pkRate_inject [simp]: "pkRate a = pkRate b \<longleftrightarrow> a = b"
  and skDedup_inject [simp]: "skDedup a = skDedup b \<longleftrightarrow> a = b"
  and skRateWin_inject [simp]: "skRateWin m = skRateWin n \<longleftrightarrow> m = n"
  by (simp_all add: key_defs FormatInt_inject)

lemma ddb_keys_apart [simp]:
  "pkClient a \<noteq> pkRate b" "pkRate b \<noteq> pkClient a" "skEdge k \<noteq> skProfile" "skProfile \<noteq> skEdge k"
  "skDedup h \<noteq> skEdge k" "skEdge k \<noteq> skDedup h" "skDedup h \<noteq> skProfile" "skProfile \<noteq> skDedup h"
  by (simp_all add: key_defs)

lemma av_num_FormatInt [simp]: "in_int64 i \<Longrightarrow> av_num (AvN (FormatInt i)) = Some i"
  by (simp add: ParseInt_FormatInt)

lemma edge_row_scope: "edge_row av k (e\<lparr>ScopeKey := x\<rparr>) it = edge_row av k e it"
  by (simp add: edge_row_def edge_range_def)

lemma cas_update_scope [simp]: "cas_update av tn c k pv (e\<lparr>ScopeKey := x\<rparr>) = cas_update av tn c k pv e"
  by (simp add: cas_update_def)

locale ddb_backend = attributevalue av + dynamodb db table up
  for av :: AvCodec and db :: "'s DynamoDB" and table up +
  fixes tn :: string
begin

lemma edge_row_unmarshal:
  "edge_row av k e it \<Longrightarrow> av_UnmarshalEdge av it = Inr (e\<lparr>ScopeKey := k\<rparr>)"
  by (rule unmarshal_edge [of it "e\<lparr>ScopeKey := k\<rparr>" "the (it ''recent'')"])
    (auto simp: edge_row_def mustMarshalAttr_def edge_range_def in_int64_def min_int64_def split: sum.splits)

lemma edge_row_at:
  "ddb_inv av tb tn \<Longrightarrow> tb tn (pkClient c, skEdge k) = Some it \<Longrightarrow>
     \<exists>e. edge_row av k e it \<and> av_UnmarshalEdge av it = Inr (e\<lparr>ScopeKey := k\<rparr>)"
  using edge_row_unmarshal unfolding ddb_inv_def by blast

lemma ddb_edges_row:
  "tb tn (pkClient c, skEdge k) = Some it \<Longrightarrow> edge_row av k e it \<Longrightarrow>
     ddb_edges av tb tn (c, k) = Some (stored k e, Version e)"
  by (simp add: ddb_edges_def edge_row_unmarshal stored_def)

lemma ddb_edges_set:
  assumes "edge_row av k e it"
  shows "ddb_edges av (set_row tb tn (pkClient c, skEdge k) (Some it)) tn =
    (ddb_edges av tb tn)((c, k) \<mapsto> (stored k e, Version e))"
proof
  fix x :: "string \<times> string"
  obtain c' k' where x: "x = (c', k')" by (cases x)
  show "ddb_edges av (set_row tb tn (pkClient c, skEdge k) (Some it)) tn x =
    ((ddb_edges av tb tn)((c, k) \<mapsto> (stored k e, Version e))) x"
    using ddb_edges_row [OF _ assms, of "set_row tb tn (pkClient c, skEdge k) (Some it)" c]
    by (cases "x = (c, k)") (auto simp: ddb_edges_def x)
qed

lemma ddb_inv_set_edge:
  "ddb_inv av tb tn \<Longrightarrow> edge_row av k e it \<Longrightarrow> ddb_inv av (set_row tb tn (pkClient c, skEdge k) (Some it)) tn"
  by (auto simp: ddb_inv_def set_row_def split: if_splits)

lemma ddb_granted_set_edge [simp]:
  "ddb_granted (set_row tb tn (pkClient c, sk) x) tn = ddb_granted tb tn"
  by (rule ext) (simp add: ddb_granted_def)

lemma ddb_edges_set_rate [simp]:
  "ddb_edges av (set_row tb tn (pkRate scope, sk) x) tn = ddb_edges av tb tn"
  by (rule ext) (simp add: ddb_edges_def)

lemma create_row:
  assumes "av_MarshalMap av (edge_fields c k e) = Inr it"
  shows "it ''PK'' = Some (AvS (pkClient c)) \<and> it ''SK'' = Some (AvS (skEdge k))"
    and "ScopeKey e = k \<Longrightarrow> edge_range e \<Longrightarrow> 0 < Version e \<Longrightarrow> Version e \<le> max_int64 \<Longrightarrow> edge_row av k e it"
proof -
  obtain r where r: "av_Marshal av (GoFlips (Recent e)) = Inr r" using marshal_flips by blast
  have it: "it = (\<lambda>a. case edge_fields c k e a of None \<Rightarrow> None | Some g \<Rightarrow> Some (projr (av_Marshal av g)))"
    using assms by (simp add: marshal_map)
  show "it ''PK'' = Some (AvS (pkClient c)) \<and> it ''SK'' = Some (AvS (skEdge k))"
    by (simp add: it edge_fields_def marshal_str)
  show "edge_row av k e it" if "ScopeKey e = k" "edge_range e" "0 < Version e" "Version e \<le> max_int64"
    using that by (simp add: edge_row_def it edge_fields_def marshal_str marshal_int mustMarshalAttr_def r)
qed

lemma update_row:
  assumes "edge_row av k e0 it" and "edge_range e" and "0 \<le> pv" and "pv < max_int64"
  shows "edge_row av k (e\<lparr>Version := pv + 1\<rparr>) (apply_update (cas_update av tn c k pv e) (Some it))"
proof -
  obtain r where r: "av_Marshal av (GoFlips (Recent e)) = Inr r" using marshal_flips by blast
  have "add64 pv 1 = pv + 1"
    using assms(3,4) by (intro add64_id) (simp add: in_int64_def min_int64_def max_int64_def)
  then show ?thesis
    using assms by (simp add: edge_row_def apply_update_def cas_update_def attr_name_def mustMarshalAttr_def r
        edge_range_def)
qed

lemma cas_condition:
  assumes "edge_row av k e0 it" and "0 \<le> pv" and "pv \<le> max_int64"
  shows "holds (ui_Names (cas_update av tn c k pv e)) (ui_Values (cas_update av tn c k pv e)) (Some it)
      (ui_Condition (cas_update av tn c k pv e)) \<longleftrightarrow> Version e0 = pv"
proof -
  have "in_int64 (Version e0)" and "in_int64 pv"
    using assms by (simp_all add: edge_row_def in_int64_def min_int64_def)
  then show ?thesis
    using assms(1) by (simp add: cas_update_def attr_def attr_name_def edge_row_def del: av_num.simps)
qed

lemma cas_condition_missing:
  "\<not> holds (ui_Names (cas_update av tn c k pv e)) (ui_Values (cas_update av tn c k pv e)) None
      (ui_Condition (cas_update av tn c k pv e))"
  by (simp add: cas_update_def attr_def)

text \<open>
  What one \<^verbatim>\<open>UpsertCAS\<close> does: it wins exactly when the expected version is the current one, and after an
  error the edge is the old one or, if the version was current, possibly the new one.
\<close>

definition cas_outcome ::
    "tables \<Rightarrow> string \<Rightarrow> string \<Rightarrow> int \<Rightarrow> Edge \<Rightarrow> bool \<Rightarrow> go_error option \<Rightarrow> tables \<Rightarrow> bool" where
  "cas_outcome tb c k pv e ok err tb' \<longleftrightarrow>
     (let old = ddb_edges av tb tn; new = old((c, k) \<mapsto> (stored k e, pv + 1));
          current = (pv = version_at (old (c, k)))
      in ddb_inv av tb' tn
         \<and> (if err = None then ok = current \<and> ddb_edges av tb' tn = (if ok then new else old)
            else \<not> ok \<and> (ddb_edges av tb' tn = old \<or> current \<and> ddb_edges av tb' tn = new)))"

lemma write_cas_outcome:
  assumes "ddb_inv av tb tn" and "write_outcome cond tb (set_row tb tn (pkClient c, skEdge k) (Some it)) err tb'"
    and "cond \<longleftrightarrow> pv = version_at (ddb_edges av tb tn (c, k))"
    and "cond \<Longrightarrow> edge_row av k (e\<lparr>Version := pv + 1\<rparr>) it"
    and "cond_result err = (ok, err')"
  shows "cas_outcome tb c k pv e ok err' tb'"
  using assms ddb_inv_set_edge [OF assms(1)] ddb_edges_set [of k "e\<lparr>Version := pv + 1\<rparr>" it tb c]
  by (auto simp: cas_outcome_def write_outcome_def cond_result_def stored_def Let_def split: option.splits if_splits)

lemma create_condition:
  assumes "ddb_inv av tb tn"
  shows "holds Map.empty Map.empty (tb tn (pkClient c, skEdge k)) row_absent \<longleftrightarrow>
    version_at (ddb_edges av tb tn (c, k)) = 0"
proof (cases "tb tn (pkClient c, skEdge k)")
  case None
  then show ?thesis by (simp add: row_absent_def attr_def ddb_edges_def)
next
  case (Some it)
  then obtain e where e: "edge_row av k e it" using edge_row_at [OF assms] by blast
  then have "it ''PK'' \<noteq> None" and "Version e \<noteq> 0" by (auto simp: edge_row_def)
  then show ?thesis
    using Some ddb_edges_row [of tb c k it e, OF Some e] by (auto simp: row_absent_def attr_def attr_name_def)
qed

lemma update_condition:
  assumes "ddb_inv av tb tn" and "0 < pv" and "pv < max_int64"
  shows "holds (ui_Names (cas_update av tn c k pv e)) (ui_Values (cas_update av tn c k pv e))
      (tb tn (pkClient c, skEdge k)) (ui_Condition (cas_update av tn c k pv e)) \<longleftrightarrow>
    pv = version_at (ddb_edges av tb tn (c, k))"
proof (cases "tb tn (pkClient c, skEdge k)")
  case None
  then show ?thesis using assms by (simp add: cas_condition_missing ddb_edges_def)
next
  case (Some it)
  then obtain e0 where e0: "edge_row av k e0 it" using edge_row_at [OF assms(1)] by blast
  show ?thesis
    using cas_condition [OF e0, of pv c e] ddb_edges_row [of tb c k it, OF Some e0] Some assms by auto
qed

lemma update_new_row:
  assumes "ddb_inv av tb tn" and "edge_range e" and "0 < pv" and "pv < max_int64"
    and "holds (ui_Names (cas_update av tn c k pv e)) (ui_Values (cas_update av tn c k pv e))
      (tb tn (pkClient c, skEdge k)) (ui_Condition (cas_update av tn c k pv e))"
  shows "edge_row av k (e\<lparr>Version := pv + 1\<rparr>)
    (apply_update (cas_update av tn c k pv e) (tb tn (pkClient c, skEdge k)))"
proof (cases "tb tn (pkClient c, skEdge k)")
  case None
  then show ?thesis using assms(5) cas_condition_missing [of c k pv e] by simp
next
  case (Some it)
  then obtain e0 where "edge_row av k e0 it" using edge_row_at [OF assms(1)] by blast
  then show ?thesis using update_row [of k e0 it e pv c] assms Some by simp
qed

lemma upsert_outcome:
  assumes "ddb_inv av (table s) tn" and "edge_range e" and "0 \<le> pv" and "pv < max_int64"
    and "ddb_UpsertCAS av db tn c k pv e s = ((ok, err), s')"
  shows "cas_outcome (table s) c k pv e ok err (table s') \<and> (up s \<longrightarrow> up s' \<and> err = None)"
proof (cases "pv = 0")
  case True
  let ?e = "e\<lparr>ScopeKey := k, Version := 1\<rparr>"
  obtain it where it: "av_MarshalMap av (edge_fields c k ?e) = Inr it" by (simp add: marshal_map)
  let ?pin = "\<lparr>pi_TableName = tn, pi_Item = it, pi_Condition = Some row_absent\<rparr>"
  obtain err0 where p: "PutItem db ?pin s = (err0, s')" and r: "cond_result err0 = (ok, err)"
    using assms(5) True by (auto simp: ddb_UpsertCAS_def ddb_create_def it Let_def split: prod.splits)
  have row: "edge_row av k ?e it"
    by (rule create_row(2) [OF it]) (use assms(2) in \<open>simp_all add: edge_range_def max_int64_def\<close>)
  have "?e = e\<lparr>Version := 1, ScopeKey := k\<rparr>" by simp
  with row have row': "edge_row av k (e\<lparr>Version := pv + 1\<rparr>) it" by (simp only: edge_row_scope True) simp
  note law = put_item [OF p _ _ refl, of "pkClient c" "skEdge k"]
  show ?thesis
    using law create_row(1) [OF it] write_cas_outcome [OF assms(1) _ _ row' r]
      create_condition [OF assms(1), of c k] r True
    by (auto simp: cond_result_def split: option.splits if_splits)
next
  case False
  let ?u = "cas_update av tn c k pv e"
  let ?old = "table s tn (pkClient c, skEdge k)"
  obtain err0 where p: "UpdateItem db ?u s = (err0, s')" and r: "cond_result err0 = (ok, err)"
    using assms(5) False by (auto simp: ddb_UpsertCAS_def Let_def split: prod.splits)
  have key: "ui_TableName ?u = tn" "ui_Key ?u = (pkClient c, skEdge k)" by (simp_all add: cas_update_def)
  note law = update_item [OF p refl, unfolded key]
  have "cas_outcome (table s) c k pv e ok err (table s')"
  proof (rule write_cas_outcome [OF assms(1) law [THEN conjunct1] _ _ r])
    have pv: "0 < pv" using assms(3) False by simp
    show "holds (ui_Names ?u) (ui_Values ?u) ?old (ui_Condition ?u) \<longleftrightarrow>
        pv = version_at (ddb_edges av (table s) tn (c, k))"
      by (rule update_condition [OF assms(1) pv assms(4)])
    show "edge_row av k (e\<lparr>Version := pv + 1\<rparr>) (apply_update ?u ?old)"
      if "holds (ui_Names ?u) (ui_Values ?u) ?old (ui_Condition ?u)"
      by (rule update_new_row [OF assms(1,2) pv assms(4) that])
  qed
  then show ?thesis using law r by (auto simp: cond_result_def split: option.splits if_splits)
qed

text \<open>One \<^verbatim>\<open>Acquire\<close>: the conditional increment of the bucket's counter.\<close>

lemma FormatInt_1: "FormatInt 1 = ''1''"
  by code_simp

lemma acquire_condition:
  assumes "ddb_inv av tb tn" and "0 < rate" and "rate \<le> max_int64"
  shows "holds (ui_Names (acquire_update tn scope m ttl rate)) (ui_Values (acquire_update tn scope m ttl rate))
      (tb tn (pkRate scope, skRateWin m)) (ui_Condition (acquire_update tn scope m ttl rate)) \<longleftrightarrow>
    ddb_granted tb tn (scope, m) < rate"
proof (cases "tb tn (pkRate scope, skRateWin m)")
  case None
  then show ?thesis using assms by (simp add: acquire_update_def attr_def ddb_granted_def)
next
  case (Some it)
  then obtain n where n: "count_row it n" using assms(1) unfolding ddb_inv_def by blast
  have "in_int64 n" "in_int64 rate"
    using n assms by (simp_all add: count_row_def in_int64_def min_int64_def)
  then show ?thesis
    using Some n by (simp add: acquire_update_def attr_def attr_name_def ddb_granted_def count_row_def
        del: av_num.simps)
qed

lemma acquire_row:
  assumes "ddb_inv av tb tn" and "rate \<le> max_int64" and "ddb_granted tb tn (scope, m) < rate"
  shows "count_row (apply_update (acquire_update tn scope m ttl rate) (tb tn (pkRate scope, skRateWin m)))
    (ddb_granted tb tn (scope, m) + 1)"
proof (cases "tb tn (pkRate scope, skRateWin m)")
  case None
  then show ?thesis
    using assms by (simp add: count_row_def apply_update_def acquire_update_def attr_name_def ddb_granted_def
        key_item_def FormatInt_1 max_int64_def)
next
  case (Some it)
  then obtain n where n: "count_row it n" using assms(1) unfolding ddb_inv_def by blast
  have "in_int64 n" using n by (simp add: count_row_def in_int64_def min_int64_def)
  moreover have "av_num (AvN ''1'') = Some 1"
    using av_num_FormatInt [of 1] by (simp add: FormatInt_1 in_int64_small)
  ultimately show ?thesis
    using Some n assms
    by (simp add: count_row_def apply_update_def acquire_update_def attr_name_def ddb_granted_def
        del: av_num.simps)
qed

lemma ddb_granted_set:
  assumes "count_row it n"
  shows "ddb_granted (set_row tb tn (pkRate scope, skRateWin m) (Some it)) tn = (ddb_granted tb tn)((scope, m) := n)"
proof
  fix b :: "string \<times> int"
  have "in_int64 n" using assms by (simp add: count_row_def in_int64_def min_int64_def)
  then show "ddb_granted (set_row tb tn (pkRate scope, skRateWin m) (Some it)) tn b =
    ((ddb_granted tb tn)((scope, m) := n)) b"
    using assms by (cases b; cases "b = (scope, m)")
      (auto simp: ddb_granted_def count_row_def simp del: av_num.simps)
qed

lemma ddb_inv_set_rate:
  "ddb_inv av tb tn \<Longrightarrow> count_row it n \<Longrightarrow> ddb_inv av (set_row tb tn (pkRate scope, skRateWin m) (Some it)) tn"
  by (auto simp: ddb_inv_def set_row_def split: if_splits)

lemma acquire_outcome:
  assumes "ddb_inv av (table s) tn" and "0 < rate" and "rate \<le> max_int64"
    and "ddb_Acquire db tn clk scope rate w s = ((ok, err), s')"
    and "b = (scope, epoch_minute (clk 0))"
  shows "ddb_inv av (table s') tn \<and> ddb_edges av (table s') tn = ddb_edges av (table s) tn
    \<and> (up s \<longrightarrow> up s' \<and> err = None)
    \<and> (let old = ddb_granted (table s) tn; new = old(b := old b + 1) in
       if err = None then ok = (old b < rate) \<and> ddb_granted (table s') tn = (if ok then new else old)
       else \<not> ok \<and> (ddb_granted (table s') tn = old \<or> old b < rate \<and> ddb_granted (table s') tn = new))"
proof -
  let ?m = "epoch_minute (clk 0)" and ?ttl = "unix (clk 1 + (w + 2 * minute))"
  let ?u = "acquire_update tn scope ?m ?ttl rate"
  obtain err0 where p: "UpdateItem db ?u s = (err0, s')" and r: "cond_result err0 = (ok, err)"
    using assms(2,4) by (auto simp: ddb_Acquire_def epoch_minute_def Let_def split: prod.splits)
  have key: "ui_TableName ?u = tn" "ui_Key ?u = (pkRate scope, skRateWin ?m)" by (simp_all add: acquire_update_def)
  note law = update_item [OF p refl, unfolded key acquire_condition [OF assms(1-3)]]
  note row = acquire_row [OF assms(1,3), of scope ?m ?ttl]
  show ?thesis
    using law r assms(1) ddb_granted_set [OF row] ddb_inv_set_rate [OF assms(1) row]
    by (auto simp: write_outcome_def cond_result_def assms(5) Let_def split: option.splits if_splits)
qed

lemma load_table: "ddb_Load av db tn c k s = (lr, s') \<Longrightarrow> ddb_granted (table s') tn = ddb_granted (table s) tn"
  using get_item [of "\<lparr>gi_TableName = tn, gi_Key = (pkClient c, skEdge k), gi_ConsistentRead = True\<rparr>" s _ s']
  by (auto simp: ddb_Load_def split: prod.splits sum.splits option.splits)

lemma load_outcome:
  assumes inv: "ddb_inv av (table s) tn" and l: "ddb_Load av db tn c k s = ((eo, v, err), s')"
  shows "ddb_inv av (table s') tn \<and> ddb_edges av (table s') tn = ddb_edges av (table s) tn \<and>
       (up s \<longrightarrow> up s' \<and> err = None) \<and>
       (err = None \<longrightarrow> (case ddb_edges av (table s) tn (c, k) of None \<Rightarrow> eo = None \<and> v = 0
          | Some (e, w) \<Rightarrow> v = w \<and> (\<exists>e'. eo = Some e' \<and> e'\<lparr>Version := 0\<rparr> = e)))"
proof -
  let ?gi = "\<lparr>gi_TableName = tn, gi_Key = (pkClient c, skEdge k), gi_ConsistentRead = True\<rparr>"
  obtain out where g: "GetItem db ?gi s = (out, s')"
    using l by (auto simp: ddb_Load_def split: prod.splits sum.splits option.splits)
  from get_item [OF g] have tb: "table s' = table s" "up s \<longrightarrow> up s' \<and> (\<exists>x. out = Inr x)"
    "\<And>x. out = Inr x \<Longrightarrow> x = table s tn (pkClient c, skEdge k)" by simp_all
  show ?thesis
  proof (cases out)
    case (Inl e)
    then show ?thesis using l g tb inv by (auto simp: ddb_Load_def)
  next
    case (Inr x)
    show ?thesis
    proof (cases x)
      case None
      then show ?thesis using Inr l g tb inv by (auto simp: ddb_Load_def ddb_edges_def)
    next
      case (Some it)
      then obtain e where "av_UnmarshalEdge av it = Inr e"
        using edge_row_at [OF inv, of c k it] tb(3) [OF Inr] by auto
      then show ?thesis
        using Some Inr l g tb inv tb(3) [OF Inr, symmetric] by (auto simp: ddb_Load_def ddb_edges_def)
    qed
  qed
qed

lemma stored_row:
  assumes inv: "ddb_inv av (table s) tn" and e: "ddb_edges av (table s) tn (c, k) = Some (e, v)"
  shows "0 < v \<and> v \<le> max_int64 \<and> edge_range e \<and> stored k e = e"
proof -
  obtain it where it: "table s tn (pkClient c, skEdge k) = Some it"
    using e by (auto simp: ddb_edges_def split: option.splits)
  then obtain e0 where e0: "edge_row av k e0 it" using edge_row_at [OF inv] by blast
  then have "e = stored k e0 \<and> v = Version e0" using e ddb_edges_row [of "table s" c k it, OF it e0] by simp
  then show ?thesis using e0 by (simp add: edge_row_def)
qed

lemma upsert_granted_same:
  assumes "ddb_UpsertCAS av db tn c k pv e s = (ur, s')"
  shows "ddb_granted (table s') tn = ddb_granted (table s) tn"
proof (cases "pv = 0")
  case True
  let ?e = "e\<lparr>ScopeKey := k, Version := 1\<rparr>"
  obtain it where it: "av_MarshalMap av (edge_fields c k ?e) = Inr it" by (simp add: marshal_map)
  obtain err0 where p: "PutItem db \<lparr>pi_TableName = tn, pi_Item = it, pi_Condition = Some row_absent\<rparr> s = (err0, s')"
    using assms True by (auto simp: ddb_UpsertCAS_def ddb_create_def it Let_def split: prod.splits)
  show ?thesis
    using put_item [OF p _ _ refl, of "pkClient c" "skEdge k"] create_row(1) [OF it]
    by (auto simp: write_outcome_def split: option.splits if_splits)
next
  case False
  obtain err0 where p: "UpdateItem db (cas_update av tn c k pv e) s = (err0, s')"
    using assms False by (auto simp: ddb_UpsertCAS_def Let_def split: prod.splits)
  have key: "ui_TableName (cas_update av tn c k pv e) = tn"
    "ui_Key (cas_update av tn c k pv e) = (pkClient c, skEdge k)" by (simp_all add: cas_update_def)
  show ?thesis
    using update_item [OF p refl, unfolded key] by (auto simp: write_outcome_def split: option.splits if_splits)
qed

lemma granted_nonneg_row:
  assumes "ddb_inv av (table s) tn"
  shows "0 \<le> ddb_granted (table s) tn b"
proof (cases "table s tn (pkRate (fst b), skRateWin (snd b))")
  case (Some it)
  then obtain n where n: "count_row it n" using assms unfolding ddb_inv_def by blast
  then have "in_int64 n" by (simp add: count_row_def in_int64_def min_int64_def)
  then show ?thesis using Some n by (simp add: ddb_granted_def count_row_def del: av_num.simps)
qed (simp add: ddb_granted_def)

text \<open>The whole contract, from the outcome lemmas.\<close>

sublocale store: data_store "ddb_DataStore av db tn" "\<lambda>s. ddb_edges av (table s) tn"
    "\<lambda>s. ddb_granted (table s) tn" "\<lambda>s. ddb_inv av (table s) tn" up
proof (unfold_locales, unfold ddb_DataStore_def DataStore.select_convs, goal_cases)
  case (1 s c k e v)
  then show ?case by (rule stored_row)
next
  case (2 s k c eo v err s')
  from 2(1,3) show ?case by (rule load_outcome)
next
  case (3 s k e pv c ok err s')
  have "0 \<le> pv"
    using 3(4) stored_row [OF 3(1), of c k] by (cases "ddb_edges av (table s) tn (c, k)") auto
  from upsert_outcome [OF 3(1,3) this 3(5,6)] show ?case
    using 3(4) by (simp add: cas_outcome_def Let_def split: if_splits)
next
  case (4 s b)
  then show ?case by (rule granted_nonneg_row)
next
  case (5 s rate clk scope w)
  then show ?case by (simp add: ddb_Acquire_def)
next
  case (6 s rate w clk scope ok err s' b)
  from acquire_outcome [OF 6(1-3,5,6)] show ?case by (simp add: Let_def split: if_splits)
next
  case (7 s rate w clk scope ar s')
  show ?case
  proof (cases "0 < rate")
    case True
    obtain ok err where "ar = (ok, err)" by (cases ar)
    with acquire_outcome [OF 7(1) True 7(2) _ refl] 7(4) show ?thesis by blast
  next
    case False
    then show ?thesis using 7(4) by (simp add: ddb_Acquire_def)
  qed
next
  case (8 s k c lr s')
  obtain eo v err where "lr = (eo, v, err)" by (cases lr)
  with 8 show ?case using load_table by blast
next
  case (9 s k c pv e ur s')
  from 9(3) show ?case by (rule upsert_granted_same)
next
  case (10 s k e pv c ok err s')
  from upsert_outcome [OF 10(1,3,4,5,7)] show ?case
    using 10(6) by (simp add: cas_outcome_def Let_def split: if_splits)
qed

end

end
