(* ===== verification/Go_Strings.thy ===== *)
theory Go_Strings
  imports Utf8
begin

text \<open>
  The parts of Go's \<^verbatim>\<open>strings\<close>, \<^verbatim>\<open>fmt\<close>, \<^verbatim>\<open>net\<close> and \<^verbatim>\<open>net/textproto\<close> packages the program calls on byte
  strings: \<^verbatim>\<open>strings.TrimSpace\<close>, the element before the first comma of \<^verbatim>\<open>strings.Split\<close>, the \<^verbatim>\<open>%s\<close> verb of
  \<^verbatim>\<open>fmt.Sscanf\<close>, \<^verbatim>\<open>net.SplitHostPort\<close> and the canonical form of header names.
\<close>

section \<open>White space\<close>

text \<open>The UTF-8 encodings of the runes \<^verbatim>\<open>unicode.IsSpace\<close> accepts.\<close>

definition space_codes :: "nat list list" where
  "space_codes =
     [[9], [10], [11], [12], [13], [32], [194, 133], [194, 160], [225, 154, 128],
      [226, 128, 168], [226, 128, 169], [226, 128, 175], [226, 129, 159], [227, 128, 128]]
     @ map (\<lambda>n. [226, 128, n]) [128..<139]"

fun starts_with :: "'a list \<Rightarrow> 'a list \<Rightarrow> bool" where
  "starts_with [] s = True"
| "starts_with (p # ps) [] = False"
| "starts_with (p # ps) (c # cs) = (p = c \<and> starts_with ps cs)"

text \<open>The number of bytes of the first of the codes that is a prefix.\<close>

fun code_len :: "nat list list \<Rightarrow> nat list \<Rightarrow> nat" where
  "code_len [] s = 0"
| "code_len (c # cs) s = (if c \<noteq> [] \<and> starts_with c s then length c else code_len cs s)"

lemma starts_with_iff: "starts_with p s \<longleftrightarrow> (\<exists>r. s = p @ r)"
  by (induction p s rule: starts_with.induct) auto

lemma code_len_le: "code_len cs s \<le> length s"
  by (induction cs s rule: code_len.induct) (auto simp: starts_with_iff)

function trim_codes :: "nat list list \<Rightarrow> nat list \<Rightarrow> nat list" where
  "trim_codes cs s = (if code_len cs s = 0 then s else trim_codes cs (drop (code_len cs s) s))"
  by pat_completeness auto
termination
proof (relation "measure (\<lambda>(cs, s). length s)", goal_cases)
  case (2 cs s)
  then show ?case using code_len_le [of cs s] by simp
qed simp

declare trim_codes.simps [simp del]

definition trim_bytes :: "nat list \<Rightarrow> nat list" where
  "trim_bytes s = rev (trim_codes (map rev space_codes) (rev (trim_codes space_codes s)))"

definition TrimSpace :: "string \<Rightarrow> string" where
  "TrimSpace s = map char_of (trim_bytes (map of_char s))"

text \<open>\<^verbatim>\<open>strings.Split(s, ",")[0]\<close>: everything before the first comma.\<close>

definition split_first :: "char \<Rightarrow> string \<Rightarrow> string" where
  "split_first sep s = takeWhile (\<lambda>c. c \<noteq> sep) s"

section \<open>Sscanf with a literal prefix and one \<^verbatim>\<open>%s\<close>\<close>

text \<open>
  \<^verbatim>\<open>SkipSpace\<close> passes over spaces and \<^verbatim>\<open>\r\n\<close>, and refuses a newline; a token then runs up to the next
  space, each byte that is no valid UTF-8 becoming U+FFFD.
\<close>

definition is_space_at :: "nat list \<Rightarrow> bool" where
  "is_space_at s \<longleftrightarrow> code_len space_codes s \<noteq> 0"

function scan_skip :: "nat list \<Rightarrow> string + nat list" where
  "scan_skip s =
     (if starts_with [13, 10] s then scan_skip (drop 2 s)
      else if starts_with [10] s then Inl ''unexpected newline''
      else if is_space_at s then scan_skip (drop (code_len space_codes s) s)
      else Inr s)"
  by pat_completeness auto
termination
proof (relation "measure length", goal_cases)
  case (2 s)
  then show ?case by (auto simp: starts_with_iff)
next
  case (3 s)
  then show ?case using code_len_le [of space_codes s] by (auto simp: is_space_at_def)
qed simp

declare scan_skip.simps [simp del]

text \<open>The number of bytes of the first rune if it is valid, 0 if the first byte is no valid UTF-8.\<close>

definition rune_len :: "nat list \<Rightarrow> nat" where
  "rune_len s =
     (if utf8_bytes (take 1 s) then 1 else if utf8_bytes (take 2 s) \<and> 2 \<le> length s then 2
      else if utf8_bytes (take 3 s) \<and> 3 \<le> length s then 3
      else if utf8_bytes (take 4 s) \<and> 4 \<le> length s then 4 else 0)"

function scan_token :: "nat list \<Rightarrow> nat list" where
  "scan_token s =
     (if s = [] \<or> is_space_at s then []
      else if rune_len s = 0 then [239, 191, 189] @ scan_token (drop 1 s)
      else take (rune_len s) s @ scan_token (drop (rune_len s) s))"
  by pat_completeness auto
termination
  by (relation "measure length") auto

declare scan_token.simps [simp del]

fun scan_literal :: "nat list \<Rightarrow> nat list \<Rightarrow> string + nat list" where
  "scan_literal [] s = Inr s"
| "scan_literal (p # ps) [] = Inl ''unexpected EOF''"
| "scan_literal (p # ps) (c # cs) =
     (if p = c then scan_literal ps cs else Inl ''input does not match format'')"

text \<open>\<^verbatim>\<open>fmt.Sscanf(s, lit + "%s", &id)\<close> for an ASCII literal without spaces.\<close>

definition Sscanf_s :: "string \<Rightarrow> string \<Rightarrow> string + string" where
  "Sscanf_s lit s =
     (case scan_literal (map of_char lit) (map of_char s) of
        Inl e \<Rightarrow> Inl e
      | Inr r \<Rightarrow>
          (case scan_skip r of
             Inl e \<Rightarrow> Inl e
           | Inr [] \<Rightarrow> Inl ''unexpected EOF''
           | Inr t \<Rightarrow> Inr (map char_of (scan_token t))))"

section \<open>net.SplitHostPort\<close>

definition IndexByte :: "string \<Rightarrow> char \<Rightarrow> nat option" where
  "IndexByte s c = (if c \<in> set s then Some (length (takeWhile (\<lambda>x. x \<noteq> c) s)) else None)"

definition LastIndexByte :: "string \<Rightarrow> char \<Rightarrow> nat option" where
  "LastIndexByte s c =
     (if c \<in> set s then Some (length s - 1 - length (takeWhile (\<lambda>x. x \<noteq> c) (rev s))) else None)"

text \<open>The checks on brackets outside the host, and the port.\<close>

definition split_port :: "string \<Rightarrow> string \<Rightarrow> nat \<Rightarrow> nat \<Rightarrow> nat \<Rightarrow> string + string \<times> string" where
  "split_port hostport host i j k =
     (if IndexByte (drop j hostport) (CHR ''['') \<noteq> None then Inl ''unexpected '[' in address''
      else if IndexByte (drop k hostport) (CHR '']'') \<noteq> None then Inl ''unexpected ']' in address''
      else Inr (host, drop (i + 1) hostport))"

definition SplitHostPort :: "string \<Rightarrow> string + string \<times> string" where
  "SplitHostPort hostport =
     (case LastIndexByte hostport (CHR '':'') of
        None \<Rightarrow> Inl ''missing port in address''
      | Some i \<Rightarrow>
          if hd hostport = CHR ''['' then
            (case IndexByte hostport (CHR '']'') of
               None \<Rightarrow> Inl ''missing ']' in address''
             | Some en \<Rightarrow>
                 if en + 1 = length hostport then Inl ''missing port in address''
                 else if en + 1 = i then split_port hostport (take (en - 1) (drop 1 hostport)) i 1 (en + 1)
                 else if hostport ! (en + 1) = CHR '':'' then Inl ''too many colons in address''
                 else Inl ''missing port in address'')
          else
            (let host = take i hostport in
             if IndexByte host (CHR '':'') \<noteq> None then Inl ''too many colons in address''
             else split_port hostport host i 0 0))"

section \<open>Canonical header names\<close>

text \<open>\<^verbatim>\<open>textproto.CanonicalMIMEHeaderKey\<close>: a name with a byte outside the token alphabet is left alone.\<close>

definition is_upper :: "char \<Rightarrow> bool" where
  "is_upper c \<longleftrightarrow> (let k = (of_char c :: nat) in 65 \<le> k \<and> k \<le> 90)"

definition is_lower :: "char \<Rightarrow> bool" where
  "is_lower c \<longleftrightarrow> (let k = (of_char c :: nat) in 97 \<le> k \<and> k \<le> 122)"

definition is_token_char :: "char \<Rightarrow> bool" where
  "is_token_char c \<longleftrightarrow>
     is_upper c \<or> is_lower c \<or> (48 \<le> (of_char c :: nat) \<and> (of_char c :: nat) \<le> 57)
     \<or> c \<in> {CHR ''!'', CHR ''#'', CHR ''$'', CHR ''%'', CHR ''&'', CHR 0x27, CHR ''*'', CHR ''+'', CHR ''-'',
            CHR ''.'', CHR ''^'', CHR ''_'', CHR 0x60, CHR ''|'', CHR ''~''}"

fun canonical :: "bool \<Rightarrow> string \<Rightarrow> string" where
  "canonical upper [] = []"
| "canonical upper (c # cs) =
     (let c1 = (if upper \<and> is_lower c then char_of (of_char c - 32 :: nat)
                else if \<not> upper \<and> is_upper c then char_of (of_char c + 32 :: nat) else c)
      in c1 # canonical (c1 = CHR ''-'') cs)"

definition CanonicalMIMEHeaderKey :: "string \<Rightarrow> string" where
  "CanonicalMIMEHeaderKey s = (if list_all is_token_char s then canonical True s else s)"

section \<open>Lemmas\<close>

lemma IndexByte_None [simp]: "IndexByte s c = None \<longleftrightarrow> c \<notin> set s"
  by (simp add: IndexByte_def)

lemma takeWhile_neq [simp]: "c \<notin> set s \<Longrightarrow> takeWhile (\<lambda>x. x \<noteq> c) (s @ c # r) = s"
  by (induction s) auto

lemma LastIndexByte_append: "c \<notin> set r \<Longrightarrow> LastIndexByte (s @ c # r) c = Some (length s)"
  by (simp add: LastIndexByte_def)

lemma IndexByte_append: "c \<notin> set s \<Longrightarrow> IndexByte (s @ c # r) c = Some (length s)"
  by (simp add: IndexByte_def)

text \<open>A host and a port joined the way the server writes a remote address split back.\<close>

lemma SplitHostPort_plain:
  assumes "host \<noteq> []" and "\<forall>c \<in> {CHR '':'', CHR ''['', CHR '']''}. c \<notin> set host \<and> c \<notin> set port"
  shows "SplitHostPort (host @ '':'' @ port) = Inr (host, port)"
proof -
  have "hd (host @ '':'' @ port) \<noteq> CHR ''[''" using assms by (cases host) auto
  moreover have "LastIndexByte (host @ '':'' @ port) (CHR '':'') = Some (length host)"
    using LastIndexByte_append [of "CHR '':''" port host] assms by simp
  ultimately show ?thesis using assms by (simp add: SplitHostPort_def split_port_def)
qed

lemma SplitHostPort_bracket:
  assumes "\<forall>c \<in> {CHR ''['', CHR '']''}. c \<notin> set host \<and> c \<notin> set port" and "CHR '':'' \<notin> set port"
  shows "SplitHostPort (''['' @ host @ '']:'' @ port) = Inr (host, port)"
proof -
  let ?h = "''['' @ host @ '']:'' @ port"
  have "LastIndexByte ?h (CHR '':'') = Some (length host + 2)"
    using LastIndexByte_append [of "CHR '':''" port "''['' @ host @ '']''"] assms by simp
  moreover have "IndexByte ?h (CHR '']'') = Some (length host + 1)"
    using IndexByte_append [of "CHR '']''" "''['' @ host" "'':'' @ port"] assms by simp
  ultimately show ?thesis using assms by (simp add: SplitHostPort_def split_port_def)
qed

end
