(* ===== verification/Ddb_Clients.thy ===== *)
theory Ddb_Clients
  imports Ddb_Store Go_Strings
begin

text \<open>
  \<^verbatim>\<open>internal/backends/ddb/configstore.go\<close> and the rest of \<^verbatim>\<open>table.go\<close>: the \<^verbatim>\<open>ClientStore\<close> over DynamoDB.
\<close>

section \<open>Operations\<close>

definition parseClientID :: "string \<Rightarrow> go_error + string" where
  "parseClientID pk =
     (case Sscanf_s ''CLIENT#'' pk of Inl e \<Rightarrow> Inl (ErrMsg e) | Inr i \<Rightarrow> Inr i)"

text \<open>\<^verbatim>\<open>log.Fatalf\<close> ends the process: \<open>None\<close>.\<close>

definition createTableIfNotExists :: "'s DynamoDB \<Rightarrow> string \<Rightarrow> 's \<Rightarrow> unit option \<times> 's" where
  "createTableIfNotExists db tn s =
     (case CreateTable db tn s of
        (err, s1) \<Rightarrow>
          (case err of
             None \<Rightarrow> (Some (), s1)
           | Some e \<Rightarrow> if e = ResourceInUse then (Some (), s1) else (None, s1)))"

definition ddb_GetClientConfig ::
    "AvCodec \<Rightarrow> 's DynamoDB \<Rightarrow> string \<Rightarrow> string \<Rightarrow> 's \<Rightarrow> (go_error + ClientConfig) \<times> 's" where
  "ddb_GetClientConfig av db tn i s =
     (case GetItem db \<lparr>gi_TableName = tn, gi_Key = (pkClient i, skProfile), gi_ConsistentRead = True\<rparr> s of
        (out, s1) \<Rightarrow>
          (case out of
             Inl e \<Rightarrow> (Inl e, s1)
           | Inr None \<Rightarrow> (Inl ErrNotFound, s1)
           | Inr (Some it) \<Rightarrow> (av_UnmarshalConfig av it, s1)))"

fun list_ids :: "AvCodec \<Rightarrow> item list \<Rightarrow> go_error + string list" where
  "list_ids av [] = Inr []"
| "list_ids av (it # its) =
     (case av_UnmarshalPK av it of
        Inl e \<Rightarrow> Inl e
      | Inr pk \<Rightarrow>
          (case parseClientID pk of
             Inl e \<Rightarrow> Inl e
           | Inr i \<Rightarrow>
               (case list_ids av its of
                  Inl e \<Rightarrow> Inl e
                | Inr ids \<Rightarrow> Inr (if i \<noteq> [] then i # ids else ids))))"

definition ddb_ListClients :: "AvCodec \<Rightarrow> 's DynamoDB \<Rightarrow> string \<Rightarrow> 's \<Rightarrow> (go_error + string list) \<times> 's" where
  "ddb_ListClients av db tn s =
     (case Query db \<lparr>qi_TableName = tn, qi_PK = ''CLIENT#'', qi_SKPrefix = ''PROFILE#'', qi_Projection = ''PK''\<rparr> s of
        (out, s1) \<Rightarrow> (case out of Inl e \<Rightarrow> (Inl e, s1) | Inr items \<Rightarrow> (list_ids av items, s1)))"

definition ddb_PutClientConfig ::
    "AvCodec \<Rightarrow> 's DynamoDB \<Rightarrow> string \<Rightarrow> string \<Rightarrow> ClientConfig \<Rightarrow> 's \<Rightarrow> go_error option \<times> 's" where
  "ddb_PutClientConfig av db tn clientID config s =
     (let pk = pkClient clientID; sk = skProfile in
      case Validate config of
        Some e \<Rightarrow> (Some e, s)
      | None \<Rightarrow>
          (case av_MarshalConfig av pk sk config of
             Inl e \<Rightarrow> (Some e, s)
           | Inr it \<Rightarrow> PutItem db \<lparr>pi_TableName = tn, pi_Item = it, pi_Condition = None\<rparr> s))"

definition ddb_DeleteClientConfig :: "'s DynamoDB \<Rightarrow> string \<Rightarrow> string \<Rightarrow> 's \<Rightarrow> go_error option \<times> 's" where
  "ddb_DeleteClientConfig db tn clientID s =
     DeleteItem db \<lparr>di_TableName = tn, di_Key = (pkClient clientID, skProfile)\<rparr> s"

definition ddb_ClearAll :: "'s DynamoDB \<Rightarrow> string \<Rightarrow> 's \<Rightarrow> go_error option option \<times> 's" where
  "ddb_ClearAll db tn s =
     (case DeleteTable db tn s of
        (Some e, s1) \<Rightarrow> (Some (Some e), s1)
      | (None, s1) \<Rightarrow>
          (case WaitTableNotExists db tn (30 * second) s1 of
             (Some e, s2) \<Rightarrow> (Some (Some e), s2)
           | (None, s2) \<Rightarrow>
               (case createTableIfNotExists db tn s2 of
                  (None, s3) \<Rightarrow> (None, s3)
                | (Some _, s3) \<Rightarrow> (Some None, s3))))"

definition ddb_ClientStore :: "AvCodec \<Rightarrow> 's DynamoDB \<Rightarrow> string \<Rightarrow> 's ClientStore" where
  "ddb_ClientStore av db tn =
     \<lparr>GetClientConfig = ddb_GetClientConfig av db tn, ListClients = ddb_ListClients av db tn,
      PutClientConfig = ddb_PutClientConfig av db tn, DeleteClientConfig = ddb_DeleteClientConfig db tn,
      ClearAll = ddb_ClearAll db tn\<rparr>"

section \<open>The store keeps the contract\<close>

definition ddb_configs :: "AvCodec \<Rightarrow> tables \<Rightarrow> string \<Rightarrow> string \<Rightarrow> ClientConfig option" where
  "ddb_configs av tb tn i =
     (case tb tn (pkClient i, skProfile) of
        None \<Rightarrow> None
      | Some it \<Rightarrow> (case av_UnmarshalConfig av it of Inl _ \<Rightarrow> None | Inr cc \<Rightarrow> Some cc))"

definition ddb_profiles_ok :: "AvCodec \<Rightarrow> tables \<Rightarrow> string \<Rightarrow> bool" where
  "ddb_profiles_ok av tb tn \<longleftrightarrow>
     (\<forall>i it. tb tn (pkClient i, skProfile) = Some it \<longrightarrow> (\<exists>cc. av_UnmarshalConfig av it = Inr cc))"

text \<open>Every row has one of the sort keys of \<^verbatim>\<open>table.go\<close>.\<close>

definition program_rows :: "tables \<Rightarrow> string \<Rightarrow> bool" where
  "program_rows tb tn \<longleftrightarrow>
     (\<forall>pk sk. tb tn (pk, sk) \<noteq> None \<longrightarrow>
        sk = skProfile \<or> (\<exists>h. sk = skDedup h) \<or> (\<exists>k. sk = skEdge k) \<or> (\<exists>m. sk = skRateWin m))"

lemma ddb_configs_set:
  "av_UnmarshalConfig av it = Inr cc \<Longrightarrow>
     ddb_configs av (set_row tb tn (pkClient i, skProfile) (Some it)) tn = (ddb_configs av tb tn)(i \<mapsto> cc)"
  "ddb_configs av (set_row tb tn (pkClient i, skProfile) None) tn = (ddb_configs av tb tn)(i := None)"
  by (rule ext; simp add: ddb_configs_def set_row_def)+

lemma ddb_profiles_ok_set:
  "ddb_profiles_ok av tb tn \<Longrightarrow> av_UnmarshalConfig av it = Inr cc \<Longrightarrow>
     ddb_profiles_ok av (set_row tb tn (pkClient i, skProfile) (Some it)) tn"
  "ddb_profiles_ok av tb tn \<Longrightarrow> ddb_profiles_ok av (set_row tb tn (pkClient i, skProfile) None) tn"
  by (auto simp: ddb_profiles_ok_def set_row_def split: if_splits)

context ddb_backend
begin

sublocale clients: client_store "ddb_ClientStore av db tn" "\<lambda>s. ddb_configs av (table s) tn" ErrNotFound
    "\<lambda>s. ddb_profiles_ok av (table s) tn" up
proof (unfold_locales, unfold ddb_ClientStore_def ClientStore.select_convs, goal_cases)
  case (1 s i gr s')
  then show ?case
    using get_item [of "\<lparr>gi_TableName = tn, gi_Key = (pkClient i, skProfile), gi_ConsistentRead = True\<rparr>" s _ s']
    by (fastforce simp: ddb_GetClientConfig_def ddb_configs_def ddb_profiles_ok_def
        split: prod.splits sum.splits option.splits)
next
  case (2 cc e i s)
  then show ?case by (simp add: ddb_PutClientConfig_def)
next
  case (3 s cc i r s')
  obtain it where it: "av_MarshalConfig av (pkClient i) skProfile cc = Inr it"
    "it ''PK'' = Some (AvS (pkClient i))" "it ''SK'' = Some (AvS skProfile)" "av_UnmarshalConfig av it = Inr cc"
    using marshal_config [OF 3(3), of "pkClient i" skProfile] by blast
  have p: "PutItem db \<lparr>pi_TableName = tn, pi_Item = it, pi_Condition = None\<rparr> s = (r, s')"
    using 3 it(1) by (simp add: ddb_PutClientConfig_def)
  from put_item [OF p, of "pkClient i" skProfile] it 3(2)
  have "up s'" "r = None" "table s' = set_row (table s) tn (pkClient i, skProfile) (Some it)"
    by (auto simp: write_outcome_def split: option.splits if_splits)
  then show ?case using ddb_configs_set(1) [OF it(4)] ddb_profiles_ok_set(1) [OF 3(1) it(4)] by simp
next
  case (4 s i r s')
  from delete_item [OF 4(3) [unfolded ddb_DeleteClientConfig_def]] 4(2)
  have "up s'" "r = None" "table s' = set_row (table s) tn (pkClient i, skProfile) None" by auto
  then show ?case using ddb_configs_set(2) ddb_profiles_ok_set(2) [OF 4(1)] by simp
qed

lemmas store_contract = store.data_store_axioms

lemmas clients_contract = clients.client_store_axioms

text \<open>The query of \<^verbatim>\<open>ListClients\<close> on a table that holds only rows of this program.\<close>

lemma list_clients_law:
  assumes "program_rows (table s) tn" and "ddb_ListClients av db tn s = (lr, s')"
  shows "table s' = table s \<and> (up s \<longrightarrow> lr = Inr []) \<and> (\<forall>ids. lr = Inr ids \<longrightarrow> ids = [])"
proof -
  let ?q = "\<lparr>qi_TableName = tn, qi_PK = ''CLIENT#'', qi_SKPrefix = ''PROFILE#'', qi_Projection = ''PK''\<rparr>"
  obtain qr s1 where q: "Query db ?q s = (qr, s1)" by (cases "Query db ?q s")
  have law: "table s1 = table s" "up s \<longrightarrow> (\<exists>xs. qr = Inr xs)" using query [OF q] by simp_all
  have no: "take 8 sk \<noteq> ''PROFILE#''" if "table s tn (pk, sk) = Some row" for pk sk row
  proof -
    have "sk = skProfile \<or> (\<exists>h. sk = skDedup h) \<or> (\<exists>k. sk = skEdge k) \<or> (\<exists>m. sk = skRateWin m)"
      using assms(1) that unfolding program_rows_def by blast
    then show ?thesis by (auto simp: key_defs)
  qed
  have "items = []" if i: "qr = Inr items" for items
  proof (rule ccontr)
    assume "items \<noteq> []"
    then have "hd items \<in> set items" by simp
    from query [OF q, THEN conjunct2, THEN conjunct2, rule_format, OF i this] obtain sk row
      where r: "table s tn (''CLIENT#'', sk) = Some row" and p: "take (length ''PROFILE#'') sk = ''PROFILE#''"
      unfolding QueryInput.select_convs by blast
    have "length ''PROFILE#'' = 8" by simp
    with p no [OF r] show False by metis
  qed
  with law q assms(2) show ?thesis
    by (auto simp: ddb_ListClients_def split: sum.splits)
qed

lemma suppress_law:
  assumes "ddb_Suppress av db tn now c h w s = ((dup, err), s')" and "up s" and "rk = (pkClient c, skDedup h)"
    and "\<And>it. table s tn rk = Some it \<Longrightarrow> it ''PK'' \<noteq> None \<and> it ''SK'' \<noteq> None"
  shows "up s' \<and> err = None \<and> dup = (table s tn rk \<noteq> None)
    \<and> (\<exists>it. it ''PK'' \<noteq> None \<and> it ''SK'' \<noteq> None \<and> it ''ttl'' = Some (AvN (FormatInt (unix (now + w)))) \<and>
          table s' = (if dup then table s else set_row (table s) tn rk (Some it)))"
proof -
  define it where "it = (\<lambda>a. case [''PK'' \<mapsto> GoStr (pkClient c), ''SK'' \<mapsto> GoStr (skDedup h), ''ttl'' \<mapsto> GoInt (unix (now + w))] a of
    None \<Rightarrow> None | Some g \<Rightarrow> Some (projr (av_Marshal av g)))"
  have k: "it ''PK'' = Some (AvS (pkClient c))" "it ''SK'' = Some (AvS (skDedup h))"
    "it ''ttl'' = Some (AvN (FormatInt (unix (now + w))))"
    by (simp_all add: it_def marshal_str marshal_int)
  let ?p = "\<lparr>pi_TableName = tn, pi_Item = it, pi_Condition = Some row_absent\<rparr>"
  obtain er s1 where p: "PutItem db ?p s = (er, s1)" by (cases "PutItem db ?p s")
  have "holds Map.empty Map.empty (table s tn rk) row_absent \<longleftrightarrow> table s tn rk = None"
    using assms(4) by (cases "table s tn rk") (auto simp: row_absent_def attr_def attr_name_def)
  with put_item [OF p, of "pkClient c" "skDedup h"] k assms(2,3)
  have "write_outcome (table s tn rk = None) (table s) (set_row (table s) tn rk (Some it)) er (table s1)"
    "up s1" "er \<in> {None, Some ConditionalCheckFailed}" by auto
  moreover have "((dup, err), s') = (case er of None \<Rightarrow> ((False, None), s1)
      | Some e \<Rightarrow> if e = ConditionalCheckFailed then ((True, None), s1) else ((False, Some e), s1))"
    using assms(1) p by (simp add: ddb_Suppress_def dedup_attributes_def marshal_map it_def)
  ultimately show ?thesis using k by (auto simp: write_outcome_def split: if_splits)
qed

end

end
