(* ===== verification/Ddb_Reference.thy ===== *)
theory Ddb_Reference
  imports Ddb_Clients "HOL-Library.AList"
begin

text \<open>
  An executable in-memory service with the documented behaviour of DynamoDB and of the
  \<^verbatim>\<open>attributevalue\<close> package; the world also has the messages that topics have accepted.  It shows that the hypotheses
  of the service locales can hold, and it is what the witnesses run the program on.  A world keeps a
  schedule of faults: each call takes the next entry, which may make it fail, before or after its
  effect.
\<close>

record world =
  rows :: "((string \<times> row_key) \<times> item) list"
  faults :: "(go_error \<times> bool) option list"
  sent :: "(string \<times> string) list"

definition w_table :: "world \<Rightarrow> tables" where
  "w_table s tn rk = map_of (rows s) (tn, rk)"

definition w_up :: "world \<Rightarrow> bool" where
  "w_up s \<longleftrightarrow> faults s = []"

definition empty_world :: world where
  "empty_world = \<lparr>rows = [], faults = [], sent = []\<rparr>"

text \<open>The fault of the next call; a scheduled error is never mistaken for a failed condition.\<close>

definition next_fault :: "world \<Rightarrow> (go_error \<times> bool) option \<times> world" where
  "next_fault s =
     (case faults s of
        [] \<Rightarrow> (None, s)
      | f # fs \<Rightarrow>
          ((case f of Some (e, ap) \<Rightarrow> if e = ConditionalCheckFailed then None else Some (e, ap) | None \<Rightarrow> None),
           s\<lparr>faults := fs\<rparr>))"

definition w_write :: "bool \<Rightarrow> (world \<Rightarrow> world) \<Rightarrow> world \<Rightarrow> go_error option \<times> world" where
  "w_write ok f s =
     (case next_fault s of
        (None, s1) \<Rightarrow> if ok then (None, f s1) else (Some ConditionalCheckFailed, s1)
      | (Some (e, ap), s1) \<Rightarrow> (Some e, if ok \<and> ap then f s1 else s1))"

definition w_read :: "'a \<Rightarrow> world \<Rightarrow> (go_error + 'a) \<times> world" where
  "w_read x s = (case next_fault s of (None, s1) \<Rightarrow> (Inr x, s1) | (Some (e, _), s1) \<Rightarrow> (Inl e, s1))"

definition set_world_row :: "string \<Rightarrow> row_key \<Rightarrow> item \<Rightarrow> world \<Rightarrow> world" where
  "set_world_row tn rk it s = s\<lparr>rows := AList.update (tn, rk) it (rows s)\<rparr>"

definition item_key :: "item \<Rightarrow> row_key" where
  "item_key it =
     ((case it ''PK'' of Some (AvS a) \<Rightarrow> a | _ \<Rightarrow> []), (case it ''SK'' of Some (AvS a) \<Rightarrow> a | _ \<Rightarrow> []))"

definition ref_db :: "world DynamoDB" where
  "ref_db =
     \<lparr>GetItem = (\<lambda>gi s. w_read (w_table s (gi_TableName gi) (gi_Key gi)) s),
      PutItem = (\<lambda>pin s.
        w_write (case pi_Condition pin of None \<Rightarrow> True
                 | Some c \<Rightarrow> holds Map.empty Map.empty (w_table s (pi_TableName pin) (item_key (pi_Item pin))) c)
          (set_world_row (pi_TableName pin) (item_key (pi_Item pin)) (pi_Item pin)) s),
      UpdateItem = (\<lambda>u s.
        w_write (holds (ui_Names u) (ui_Values u) (w_table s (ui_TableName u) (ui_Key u)) (ui_Condition u))
          (set_world_row (ui_TableName u) (ui_Key u) (apply_update u (w_table s (ui_TableName u) (ui_Key u)))) s),
      DeleteItem = (\<lambda>d s. w_write True (\<lambda>s. s\<lparr>rows := AList.delete (di_TableName d, di_Key d) (rows s)\<rparr>) s),
      Query = (\<lambda>q s.
        w_read (map (\<lambda>x. (snd x) |` {qi_Projection q})
          (filter (\<lambda>((t, (pk, sk)), it). t = qi_TableName q \<and> pk = qi_PK q
                     \<and> take (length (qi_SKPrefix q)) sk = qi_SKPrefix q) (AList.clearjunk (rows s)))) s),
      CreateTable = (\<lambda>tn s. w_write True id s),
      DeleteTable = (\<lambda>tn s. w_write True (\<lambda>s. s\<lparr>rows := filter (\<lambda>x. fst (fst x) \<noteq> tn) (rows s)\<rparr>) s),
      WaitTableNotExists = (\<lambda>tn d s. w_write True id s)\<rparr>"

section \<open>The codec\<close>

definition av_str :: "item \<Rightarrow> string \<Rightarrow> string" where
  "av_str it a = (case it a of Some (AvS x) \<Rightarrow> x | _ \<Rightarrow> [])"

definition av_int :: "item \<Rightarrow> string \<Rightarrow> int" where
  "av_int it a = (case Option.bind (it a) av_num of Some i \<Rightarrow> i | None \<Rightarrow> 0)"

definition av_map :: "item \<Rightarrow> string \<Rightarrow> item" where
  "av_map it a = (case it a of Some (AvM m) \<Rightarrow> map_of m | _ \<Rightarrow> Map.empty)"

definition flip_av :: "Flip \<Rightarrow> AttributeValue" where
  "flip_av f = AvM [(''at'', AvN (FormatInt (At f))), (''from'', AvS (From f)), (''to'', AvS (To f)),
                    (''payload'', AvS (Payload f))]"

fun av_flip :: "AttributeValue \<Rightarrow> Flip" where
  "av_flip (AvM m) =
     \<lparr>At = av_int (map_of m) ''at'', From = av_str (map_of m) ''from'', To = av_str (map_of m) ''to'',
      Payload = av_str (map_of m) ''payload''\<rparr>"
| "av_flip _ = \<lparr>At = 0, From = [], To = [], Payload = []\<rparr>"

fun ref_marshal :: "go_value \<Rightarrow> AttributeValue" where
  "ref_marshal (GoStr x) = AvS x"
| "ref_marshal (GoInt i) = AvN (FormatInt i)"
| "ref_marshal (GoFlips fs) = AvL (map flip_av fs)"

definition ref_unmarshal_edge :: "item \<Rightarrow> Edge" where
  "ref_unmarshal_edge it =
     \<lparr>ScopeKey = av_str it ''scope_key'', LastValue = av_str it ''last_value'',
      LastChangeTS = av_int it ''last_change_ts'', WindowStart = av_int it ''window_start'',
      FlipCount = av_int it ''flip_count'',
      Recent = (case it ''recent'' of Some (AvL xs) \<Rightarrow> map av_flip xs | _ \<Rightarrow> []),
      AggUntilTS = av_int it ''agg_until_ts'', Version = av_int it ''ver''\<rparr>"

definition flap_av :: "FlapConfig \<Rightarrow> AttributeValue" where
  "flap_av f = AvM [(''window_seconds'', AvN (FormatInt (WindowSeconds f))),
                    (''suppress_below'', AvN (FormatInt (SuppressBelow f))),
                    (''aggregate_at'', AvN (FormatInt (AggregateAt f))),
                    (''aggregate_max_items'', AvN (FormatInt (AggregateMaxItems f))),
                    (''aggregate_cooldown_seconds'', AvN (FormatInt (AggregateCooldownSeconds f)))]"

definition trigger_av :: "TriggerConfig \<Rightarrow> AttributeValue" where
  "trigger_av t = AvM [(''field'', AvS (FieldExpr t)), (''scope_fields'', AvL (map AvS (ScopeFields t))),
                       (''target'', AvM [(''sns_arn'', AvS (SNSArn (Target t))),
                                         (''rate_per_minute'', AvN (FormatInt (SNSRPM (Target t))))]),
                       (''flapping'', case Flapping t of None \<Rightarrow> AvNULL | Some f \<Rightarrow> flap_av f)]"

definition ref_marshal_config :: "string \<Rightarrow> string \<Rightarrow> ClientConfig \<Rightarrow> item" where
  "ref_marshal_config pk sk c =
     [''PK'' \<mapsto> AvS pk, ''SK'' \<mapsto> AvS sk, ''client_id'' \<mapsto> AvS (ClientID c), ''client_name'' \<mapsto> AvS (ClientName c),
      ''client_key'' \<mapsto> AvS (ClientKey c), ''ip_rpm'' \<mapsto> AvN (FormatInt (IPRPM c)),
      ''client_rpm'' \<mapsto> AvN (FormatInt (ClientRPM c)),
      ''passthrough'' \<mapsto> AvM [(''field'', AvS (PassFieldExpr (Passthrough c))), (''not_match'', AvBOOL (Negate (Passthrough c)))],
      ''trigger'' \<mapsto> trigger_av (Trigger c)]"

definition av_flap :: "item \<Rightarrow> FlapConfig" where
  "av_flap m = \<lparr>WindowSeconds = av_int m ''window_seconds'', SuppressBelow = av_int m ''suppress_below'',
                AggregateAt = av_int m ''aggregate_at'', AggregateMaxItems = av_int m ''aggregate_max_items'',
                AggregateCooldownSeconds = av_int m ''aggregate_cooldown_seconds''\<rparr>"

definition av_trigger :: "item \<Rightarrow> TriggerConfig" where
  "av_trigger m =
     \<lparr>FieldExpr = av_str m ''field'',
      ScopeFields = (case m ''scope_fields'' of
                       Some (AvL xs) \<Rightarrow> map (\<lambda>x. case x of AvS y \<Rightarrow> y | _ \<Rightarrow> []) xs | _ \<Rightarrow> []),
      Target = \<lparr>SNSArn = av_str (av_map m ''target'') ''sns_arn'', SNSRPM = av_int (av_map m ''target'') ''rate_per_minute''\<rparr>,
      Flapping = (case m ''flapping'' of Some (AvM f) \<Rightarrow> Some (av_flap (map_of f)) | _ \<Rightarrow> None)\<rparr>"

definition ref_unmarshal_config :: "item \<Rightarrow> ClientConfig" where
  "ref_unmarshal_config it =
     \<lparr>ClientID = av_str it ''client_id'', ClientName = av_str it ''client_name'', ClientKey = av_str it ''client_key'',
      IPRPM = av_int it ''ip_rpm'', ClientRPM = av_int it ''client_rpm'',
      Passthrough = \<lparr>PassFieldExpr = av_str (av_map it ''passthrough'') ''field'',
                     Negate = (case av_map it ''passthrough'' ''not_match'' of Some (AvBOOL b) \<Rightarrow> b | _ \<Rightarrow> False)\<rparr>,
      Trigger = av_trigger (av_map it ''trigger'')\<rparr>"

definition ref_av :: AvCodec where
  "ref_av =
     \<lparr>av_Marshal = (\<lambda>g. Inr (ref_marshal g)),
      av_MarshalMap = (\<lambda>m. Inr (\<lambda>a. map_option ref_marshal (m a))),
      av_UnmarshalEdge = (\<lambda>it. Inr (ref_unmarshal_edge it)),
      av_MarshalConfig = (\<lambda>pk sk c. Inr (ref_marshal_config pk sk c)),
      av_UnmarshalConfig = (\<lambda>it. Inr (ref_unmarshal_config it)),
      av_UnmarshalPK = (\<lambda>it. Inr (av_str it ''PK''))\<rparr>"

section \<open>The laws hold of it\<close>

lemma av_int_FormatInt: "it a = Some (AvN (FormatInt i)) \<Longrightarrow> in_int64 i \<Longrightarrow> av_int it a = i"
  by (simp add: av_int_def del: av_num.simps)

lemma av_str_AvS: "it a = Some (AvS x) \<Longrightarrow> av_str it a = x"
  by (simp add: av_str_def)

lemma av_flip_flip_av: "flip_range f \<Longrightarrow> av_flip (flip_av f) = f"
  by (simp add: flip_av_def flip_range_def av_int_FormatInt av_str_def)

lemma av_flips: "\<forall>f \<in> set fs. flip_range f \<Longrightarrow> map av_flip (map flip_av fs) = fs"
  by (induction fs) (simp_all add: av_flip_flip_av)

lemma av_flap_flap_av: "flap_range f \<Longrightarrow> \<exists>m. flap_av f = AvM m \<and> av_flap (map_of m) = f"
  by (simp add: flap_av_def av_flap_def flap_range_def av_int_FormatInt)

lemma ref_trigger:
  assumes "in_int64 (SNSRPM (Target t))" and "case Flapping t of None \<Rightarrow> True | Some f \<Rightarrow> flap_range f"
  shows "\<exists>m. trigger_av t = AvM m \<and> av_trigger (map_of m) = t"
  using assms av_flap_flap_av
  by (cases t; cases "Flapping t")
    (auto simp: trigger_av_def av_trigger_def av_str_def av_map_def av_int_FormatInt comp_def, fastforce+)

lemma ref_config: "config_range c \<Longrightarrow> ref_unmarshal_config (ref_marshal_config pk sk c) = c"
  using ref_trigger [of "Trigger c"]
  by (auto simp: ref_unmarshal_config_def ref_marshal_config_def config_range_def av_str_def av_map_def
      av_int_FormatInt)

lemma next_fault_table: "next_fault s = (fo, s') \<Longrightarrow> w_table s' = w_table s"
  by (rule ext)+ (auto simp: next_fault_def w_table_def split: list.splits)

lemma next_fault_up: "w_up s \<Longrightarrow> next_fault s = (None, s)"
  by (simp add: w_up_def next_fault_def)

lemma next_fault_not_cond: "next_fault s = (Some (e, ap), s1) \<Longrightarrow> e \<noteq> ConditionalCheckFailed"
  by (auto simp: next_fault_def split: list.splits option.splits if_splits)

lemma w_table_set [simp]: "w_table (set_world_row tn rk it s) = set_row (w_table s) tn rk (Some it)"
  by (rule ext)+ (simp add: w_table_def set_world_row_def set_row_def update_conv')

lemma w_table_delete [simp]:
  "w_table (s\<lparr>rows := AList.delete (tn, rk) (rows s)\<rparr>) = set_row (w_table s) tn rk None"
  by (rule ext)+ (simp add: w_table_def set_row_def delete_conv')

lemma w_up_set [simp]: "w_up (set_world_row tn rk it s) = w_up s" "w_up (s\<lparr>rows := r\<rparr>) = w_up s"
  by (simp_all add: w_up_def set_world_row_def)

lemma w_read_law:
  "w_read x s = (r, s') \<Longrightarrow> w_table s' = w_table s \<and> (w_up s \<longrightarrow> w_up s' \<and> (\<exists>y. r = Inr y)) \<and> (\<forall>y. r = Inr y \<longrightarrow> y = x)"
  by (auto simp: w_read_def next_fault_up next_fault_table split: prod.splits option.splits)

lemma w_write_law:
  assumes "w_write ok f s = (err, s')" and "\<And>s1. w_table s1 = w_table s \<Longrightarrow> w_table (f s1) = new"
    and "\<And>s1. w_up s1 \<Longrightarrow> w_up (f s1)"
  shows "write_outcome ok (w_table s) new err (w_table s')
    \<and> (w_up s \<longrightarrow> w_up s' \<and> err \<in> {None, Some ConditionalCheckFailed})"
proof -
  obtain fo s1 where n: "next_fault s = (fo, s1)" by (cases "next_fault s")
  from next_fault_table [OF this] show ?thesis
    using assms n next_fault_not_cond [of s] next_fault_up [of s]
    by (auto simp: w_write_def write_outcome_def split: option.splits if_splits)
qed

lemma item_key_eq: "it ''PK'' = Some (AvS pk) \<Longrightarrow> it ''SK'' = Some (AvS sk) \<Longrightarrow> item_key it = (pk, sk)"
  by (simp add: item_key_def)

lemma ref_attributevalue: "attributevalue ref_av"
proof (unfold_locales, goal_cases)
  case (4 m)
  show ?case by (auto simp: ref_av_def map_option_case fun_eq_iff split: option.splits)
next
  case (5 it e r)
  then show ?case
    by (auto simp: ref_av_def ref_unmarshal_edge_def av_str_def av_int_FormatInt edge_range_def av_flips comp_def
        simp flip: map_map)
next
  case (6 cc pk sk)
  then show ?case by (simp add: ref_av_def ref_config) (simp add: ref_marshal_config_def)
qed (simp_all add: ref_av_def av_str_def)

lemma ref_query:
  assumes "it \<in> set (map (\<lambda>x. (snd x) |` {p}) (filter (\<lambda>((t, (a, sk)), i). t = tn \<and> a = pk \<and> P sk) (AList.clearjunk (rows s))))"
  shows "\<exists>sk row. w_table s tn (pk, sk) = Some row \<and> P sk \<and> it p = row p"
proof -
  obtain sk row where r: "((tn, (pk, sk)), row) \<in> set (AList.clearjunk (rows s))" "P sk" "it = row |` {p}"
    using assms by auto
  then have "map_of (AList.clearjunk (rows s)) (tn, (pk, sk)) = Some row"
    by (simp add: distinct_clearjunk)
  then show ?thesis using r by (auto simp: w_table_def map_of_clearjunk)
qed

lemma ref_dynamodb: "dynamodb ref_db w_table w_up"
proof (unfold_locales, goal_cases)
  case (1 gi s gr s')
  then show ?case using w_read_law by (fastforce simp: ref_db_def)
next
  case (2 pin s err s' pk sk old)
  note k = item_key_eq [OF 2(2,3)]
  show ?case
    unfolding 2(4)
    by (rule w_write_law [where f = "set_world_row (pi_TableName pin) (pk, sk) (pi_Item pin)"])
      (use 2(1) in \<open>simp_all add: ref_db_def k cong: option.case_cong\<close>)
next
  case (3 u s err s' old)
  show ?case
    unfolding 3(2)
    by (rule w_write_law [where f = "set_world_row (ui_TableName u) (ui_Key u)
          (apply_update u (w_table s (ui_TableName u) (ui_Key u)))"])
      (use 3(1) in \<open>simp_all add: ref_db_def\<close>)
next
  case (4 d s err s')
  from w_write_law [of True _ s err s' "set_row (w_table s) (di_TableName d) (di_Key d) None"] 4
  show ?case by (fastforce simp: ref_db_def write_outcome_def split: option.splits if_splits)
next
  case (5 q s qr s')
  let ?P = "\<lambda>sk. take (length (qi_SKPrefix q)) sk = qi_SKPrefix q"
  let ?xs = "map (\<lambda>x. (snd x) |` {qi_Projection q})
    (filter (\<lambda>((t, (a, sk)), i). t = qi_TableName q \<and> a = qi_PK q \<and> ?P sk) (AList.clearjunk (rows s)))"
  have r: "w_read ?xs s = (qr, s')" using 5 by (simp add: ref_db_def)
  have "\<exists>sk row. w_table s (qi_TableName q) (qi_PK q, sk) = Some row \<and> ?P sk
      \<and> it (qi_Projection q) = row (qi_Projection q)" if "qr = Inr xs" "it \<in> set xs" for xs it
    by (rule ref_query) (use w_read_law [OF r] that in simp)
  then show ?case using w_read_law [OF r] by simp
qed

interpretation ref: ddb_backend ref_av ref_db w_table w_up "''notify_guard''"
  by (intro ddb_backend.intro ref_attributevalue ref_dynamodb)

end
