(* ===== verification/Edge_Properties.thy ===== *)
theory Edge_Properties
  imports Ref_Libs Concurrency Ddb_Reference
begin

text \<open>
  What \<^verbatim>\<open>EvaluateEdgeAndFlap\<close> guarantees over every store that keeps its contract, first for one call
  (with any faults of the store), then for series of observations.  The witnesses run on the
  DynamoDB store over the in-memory service.
\<close>

section \<open>Shared facts\<close>

abbreviation ref_store :: "world DataStore" where
  "ref_store \<equiv> ddb_DataStore ref_av ref_db ''notify_guard''"

abbreviation ref_edges :: "world \<Rightarrow> edge_map" where
  "ref_edges \<equiv> (\<lambda>s. ddb_edges ref_av (w_table s) ''notify_guard'')"

abbreviation ref_granted :: "world \<Rightarrow> string \<times> int \<Rightarrow> int" where
  "ref_granted \<equiv> (\<lambda>s. ddb_granted (w_table s) ''notify_guard'')"

abbreviation ref_inv :: "world \<Rightarrow> bool" where
  "ref_inv \<equiv> (\<lambda>s. ddb_inv ref_av (w_table s) ''notify_guard'')"

lemma ref_inv_empty: "ref_inv empty_world" and ref_up_empty: "w_up empty_world"
  and ref_edges_empty: "ref_edges empty_world x = None"
  by (simp_all add: ddb_inv_def w_table_def empty_world_def w_up_def ddb_edges_def)

lemma scope_ok_k: "scope_ok ''k''"
  by (simp add: scope_ok_def)

lemma forwarded_values_errs [simp]:
  "forwarded_values xs (map (\<lambda>(a, g). (a, g, n)) rs) = forwarded_values xs rs"
proof (induction xs arbitrary: rs)
  case (Cons x xs)
  then show ?case by (cases rs) (auto simp: forwarded_values_def)
qed simp

definition ref_series :: "observation list" where
  "ref_series = [ref_obs 1 ''a'', ref_obs 2 ''a'', ref_obs 3 ''b'', ref_obs 4 ''a'']"

lemma ref_series_ok: "\<forall>x \<in> set ref_series. obs_ok ref_libs x"
  by (simp add: ref_series_def ref_obs_ok ValidString_one in_int64_def min_int64_def max_int64_def)

lemma run_implements_steps:
  assumes "edge_store ds edges Inv up" and "Inv s" and "up s" and "scope_ok k" and "\<forall>x \<in> set xs. obs_ok L x"
    and "version_at (edges s (c, k)) + int (length xs) \<le> max_int64"
  shows "\<exists>s'. evaluate_run L ds c k flap xs s =
    (map (\<lambda>(a, g). (a, g, None)) (fst (step_run L flap k xs (map_option fst (edges s (c, k))))), s')"
  using edge_store.evaluate_run_refines [OF assms, of flap] by (metis prod.collapse)

lemma step_run_fresh:
  "step_run L flap k (x # xs) None =
     (case step_run L flap k xs (Some (stored k (initial_edge (obs_now x) (obs_val x)))) of
        (rs, eo) \<Rightarrow> ((EdgeTriggeredForward, None) # rs, eo))"
  by (cases x) (simp add: step_run.simps edge_step_def)

section \<open>Series of observations\<close>

text \<open>
  C2: with no suppression and no aggregation configured, a series of notifications for a fresh scope
  is forwarded exactly when the observed value changes: the forwarded values are the observed
  values with consecutive repetitions removed, and no call reports an error.
\<close>

theorem forwards_changes:
  assumes "edge_store ds edges Inv up" and "Inv s" and "up s" and "scope_ok k" and "\<forall>x \<in> set xs. obs_ok L x"
    and "forwards_every_flip flap" and "edges s (c, k) = None" and "int (length xs) \<le> max_int64"
  shows "\<exists>rs s'. evaluate_run L ds c k flap xs s = (rs, s') \<and> forwarded_values xs rs = remdups_adj (map obs_val xs)
    \<and> list_all (\<lambda>(a, g, err). err = None) rs"
proof -
  obtain rs eo where st: "step_run L flap k xs None = (rs, eo)" by (cases "step_run L flap k xs None")
  have vals: "forwarded_values xs rs = remdups_adj (map obs_val xs)"
    using step_run_forwards_fresh [OF assms(6,8), of L k] st by simp
  obtain s' where "evaluate_run L ds c k flap xs s = (map (\<lambda>(a, g). (a, g, None)) rs, s')"
    using edge_store.evaluate_run_refines [OF assms(1-5), of c flap rs eo] st assms(7,8) by auto
  with vals show ?thesis by (auto simp: list_all_iff)
qed

theorem forwards_changes_witness:
  "\<exists>rs s'. evaluate_run ref_libs ref_store ''c'' ''k'' None ref_series empty_world = (rs, s')
     \<and> forwarded_values ref_series rs = [''a'', ''b'', ''a''] \<and> list_all (\<lambda>(a, g, err). err = None) rs"
proof -
  have vals: "remdups_adj (map obs_val ref_series) = [''a'', ''b'', ''a'']" by (simp add: ref_series_def)
  show ?thesis
    by (rule forwards_changes [OF ref.store.edge_store_axioms, OF ref_inv_empty ref_up_empty scope_ok_k ref_series_ok,
          unfolded vals])
      (simp_all add: ref_edges_empty forwards_every_flip_def ref_series_def max_int64_def)
qed

text \<open>
  C3: the flips of one window.  After the first observation of a fresh scope, the \<^term>\<open>i\<close>-th flip of
  the window is suppressed while \<^term>\<open>i\<close> is at most \<^verbatim>\<open>SuppressBelow\<close>; after that it is forwarded if
  aggregation is off, and otherwise every \<^verbatim>\<open>AggregateAt\<close>-th flip sends an aggregate and the others are
  suppressed.  (No cooldown, and a period the 128 remembered flips can hold.)
\<close>

theorem window_flips:
  assumes "edge_store ds edges Inv up" and "Inv s" and "up s" and "scope_ok k" and "\<forall>x \<in> set (x0 # xs). obs_ok L x"
    and "edges s (c, k) = None" and "int (length xs) < max_int64"
    and "in_int64 (WindowSeconds f)" and "AggregateAt f \<le> 128" and "AggregateCooldownSeconds f = 0"
    and "flips_from (obs_val x0) xs" and "\<forall>x \<in> set xs. in_window f (obs_now x0) x"
    and "0 \<le> obs_now x0" and "sorted (map obs_now xs)"
  shows "\<exists>rs s'. evaluate_run L ds c k (Some f) (x0 # xs) s = (rs, s')
    \<and> map fst rs = EdgeTriggeredForward # map (\<lambda>j. window_action f (int j + 1)) [0..<length xs]"
proof -
  let ?e = "stored k (initial_edge (obs_now x0) (obs_val x0))"
  have "window_run f ?e xs"
    using assms(7-) by (auto simp: window_run_def in_window_def)
  from step_run_window [OF this, of L k]
  have "map fst (fst (step_run L (Some f) k (x0 # xs) None)) =
    EdgeTriggeredForward # map (\<lambda>j. window_action f (int j + 1)) [0..<length xs]"
    by (simp add: step_run_fresh add.commute case_prod_beta)
  then show ?thesis
    using run_implements_steps [OF assms(1-5), of c "Some f"] assms(6,7)
    by (auto simp: case_prod_beta comp_def)
qed

definition ref_flips :: "observation list" where
  "ref_flips = map (\<lambda>i. ref_obs (int i) (if even i then ''a'' else ''b'')) [11..<17]"

definition ref_flap :: FlapConfig where
  "ref_flap = \<lparr>WindowSeconds = 60, SuppressBelow = 1, AggregateAt = 3, AggregateMaxItems = 2, AggregateCooldownSeconds = 0\<rparr>"

lemma ref_flips_ok: "\<forall>x \<in> set (ref_obs 10 ''a'' # ref_flips). obs_ok ref_libs x"
  by (simp add: ref_flips_def ref_obs_ok ValidString_one in_int64_def min_int64_def max_int64_def upt_rec)

lemma ref_flips_window:
  "flips_from ''a'' ref_flips" "\<forall>x \<in> set ref_flips. in_window ref_flap 10 x" "sorted (map obs_now ref_flips)"
  "length ref_flips = 6"
  by (simp_all add: ref_flips_def upt_rec in_window_def ref_flap_def in_int64_def min_int64_def max_int64_def)

theorem window_flips_witness:
  "\<exists>rs s'. evaluate_run ref_libs ref_store ''c'' ''k'' (Some ref_flap) (ref_obs 10 ''a'' # ref_flips) empty_world = (rs, s')
     \<and> map fst rs = [EdgeTriggeredForward, SuppressFlapping, SuppressFlapping, AggregateSent,
          SuppressFlapping, SuppressFlapping, AggregateSent]"
proof -
  have acts: "EdgeTriggeredForward # map (\<lambda>j. window_action ref_flap (int j + 1)) [0..<length ref_flips] =
    [EdgeTriggeredForward, SuppressFlapping, SuppressFlapping, AggregateSent,
     SuppressFlapping, SuppressFlapping, AggregateSent]"
    by (simp add: ref_flips_window(4) window_action_def ref_flap_def upt_rec)
  show ?thesis
    by (rule window_flips [OF ref.store.edge_store_axioms, where f = ref_flap, OF ref_inv_empty ref_up_empty scope_ok_k ref_flips_ok, unfolded acts])
      (simp_all add: ref_edges_empty ref_flips_window max_int64_def, simp_all add: ref_flap_def in_int64_def min_int64_def max_int64_def)
qed

text \<open>
  C4: what an aggregate says.  In such a window, when flip number \<^term>\<open>j + 1\<close> sends the aggregate, its
  \<^verbatim>\<open>recent\<close> list holds the flips of that period, newest first and at most \<^verbatim>\<open>AggregateMaxItems\<close> of them,
  each with its time, the value before, the value after and the payload of that notification, which
  survives compression and encoding in the store.
\<close>

theorem aggregate_contents:
  assumes "edge_store ds edges Inv up" and "Inv s" and "up s" and "scope_ok k" and "\<forall>x \<in> set (x0 # xs). obs_ok L x"
    and "edges s (c, k) = None" and "int (length xs) < max_int64"
    and "in_int64 (WindowSeconds f)" and "AggregateAt f \<le> 128" and "AggregateCooldownSeconds f = 0"
    and "flips_from (obs_val x0) xs" and "\<forall>x \<in> set xs. in_window f (obs_now x0) x"
    and "0 \<le> obs_now x0" and "sorted (map obs_now xs)"
    and "SuppressBelow f < AggregateAt f" and "0 < AggregateAt f" and "0 < AggregateMaxItems f"
    and "\<forall>x \<in> set xs. codec_ok L (snd (snd x))" and "j < length xs" and "(int j + 1) mod AggregateAt f = 0"
  shows "\<exists>rs s' m. evaluate_run L ds c k (Some f) (x0 # xs) s = (rs, s') \<and> rs ! Suc j = (AggregateSent, Some m, None)
    \<and> m ''recent'' = Some (AnySlice (take (nat (AggregateMaxItems f))
         (rev (lastn (nat (AggregateAt f)) (obs_items (obs_val x0) (take (Suc j) xs))))))"
proof -
  let ?e = "stored k (initial_edge (obs_now x0) (obs_val x0))"
  have run: "window_run f ?e xs"
    using assms(7-14) by (auto simp: window_run_def in_window_def)
  obtain m where m: "fst (step_run L (Some f) k xs (Some ?e)) ! j = (AggregateSent, Some m)"
    "m ''recent'' = Some (AnySlice (take (nat (AggregateMaxItems f))
         (rev (lastn (nat (AggregateAt f)) (obs_items (obs_val x0) (take (Suc j) xs))))))"
    using step_run_aggregate_items [OF run assms(15-18), of "[]" j k] assms(19,20)
    by (auto simp: lastn_def add.commute)
  obtain s' where "evaluate_run L ds c k (Some f) (x0 # xs) s =
      (map (\<lambda>(a, g). (a, g, None)) (fst (step_run L (Some f) k (x0 # xs) None)), s')"
    using run_implements_steps [OF assms(1-5), of c "Some f"] assms(6,7) by auto
  moreover have "fst (step_run L (Some f) k (x0 # xs) None) =
      (EdgeTriggeredForward, None) # fst (step_run L (Some f) k xs (Some ?e))"
    by (simp add: step_run_fresh case_prod_beta)
  ultimately show ?thesis using m assms(19) by auto
qed

theorem aggregate_contents_witness:
  "\<exists>rs s' m. evaluate_run ref_libs ref_store ''c'' ''k'' (Some ref_flap) (ref_obs 10 ''a'' # ref_flips) empty_world = (rs, s')
     \<and> rs ! Suc 2 = (AggregateSent, Some m, None)
     \<and> m ''recent'' = Some (AnySlice [obs_item ''a'' (ref_obs 13 ''b''), obs_item ''b'' (ref_obs 12 ''a'')])"
proof -
  have its: "take (nat (AggregateMaxItems ref_flap)) (rev (lastn (nat (AggregateAt ref_flap))
      (obs_items (obs_val (ref_obs 10 ''a'')) (take (Suc 2) ref_flips)))) =
    [obs_item ''a'' (ref_obs 13 ''b''), obs_item ''b'' (ref_obs 12 ''a'')]"
    by (simp add: ref_flap_def ref_flips_def upt_rec lastn_def)
  have codec: "\<forall>x \<in> set ref_flips. codec_ok ref_libs (snd (snd x))" by (auto simp: ref_flips_def)
  show ?thesis
    by (rule aggregate_contents [OF ref.store.edge_store_axioms, where f = ref_flap and j = 2,
          OF ref_inv_empty ref_up_empty scope_ok_k ref_flips_ok, unfolded its])
      (simp_all add: ref_edges_empty ref_flips_window codec max_int64_def, simp_all add: ref_flap_def in_int64_def min_int64_def max_int64_def)
qed

text \<open>
  C19: two aggregates of a scope are at least \<^verbatim>\<open>AggregateCooldownSeconds\<close> apart, however the values flip,
  whichever windows they fall into and whatever the store held before.
\<close>

theorem aggregate_cooldown:
  assumes "edge_store ds edges Inv up" and "Inv s" and "up s" and "scope_ok k" and "\<forall>x \<in> set xs. obs_ok L x"
    and "version_at (edges s (c, k)) + int (length xs) \<le> max_int64"
    and "evaluate_run L ds c k (Some f) xs s = (rs, s')"
    and "fst (rs ! i) = AggregateSent" and "fst (rs ! j) = AggregateSent" and "i < j" and "j < length xs"
    and "0 \<le> AggregateCooldownSeconds f" and "\<forall>x \<in> set xs. in_int64 (obs_now x + AggregateCooldownSeconds f)"
  shows "obs_now (xs ! i) + AggregateCooldownSeconds f \<le> obs_now (xs ! j)"
proof -
  let ?st = "fst (step_run L (Some f) k xs (map_option fst (edges s (c, k))))"
  have rs: "rs = map (\<lambda>(a, g). (a, g, None)) ?st"
    using run_implements_steps [OF assms(1-6), of "Some f"] assms(7) by auto
  then have "fst (?st ! i) = AggregateSent" "fst (?st ! j) = AggregateSent"
    using assms(8-11) by (simp_all add: case_prod_beta)
  then show ?thesis
    using step_run_cooldown [of L f k xs "map_option fst (edges s (c, k))" i _ j, OF _ _ assms(10-13)]
    by (metis prod.collapse)
qed

definition cool_flap :: FlapConfig where
  "cool_flap = \<lparr>WindowSeconds = 60, SuppressBelow = 0, AggregateAt = 1, AggregateMaxItems = 5, AggregateCooldownSeconds = 3\<rparr>"

definition cool_series :: "observation list" where
  "cool_series = [ref_obs 10 ''a'', ref_obs 11 ''b'', ref_obs 14 ''a'']"

lemma cool_run:
  "map fst (fst (step_run ref_libs (Some cool_flap) ''k'' cool_series None)) =
     [EdgeTriggeredForward, AggregateSent, AggregateSent]"
  by code_simp

lemma cool_series_ok: "\<forall>x \<in> set cool_series. obs_ok ref_libs x"
  by (simp add: cool_series_def ref_obs_ok ValidString_one in_int64_def min_int64_def max_int64_def)

theorem aggregate_cooldown_witness:
  "\<exists>rs s'. evaluate_run ref_libs ref_store ''c'' ''k'' (Some cool_flap) cool_series empty_world = (rs, s')
     \<and> fst (rs ! 1) = AggregateSent \<and> fst (rs ! 2) = AggregateSent
     \<and> obs_now (cool_series ! 1) + AggregateCooldownSeconds cool_flap \<le> obs_now (cool_series ! 2)"
proof -
  let ?st = "fst (step_run ref_libs (Some cool_flap) ''k'' cool_series None)"
  have ver: "version_at (ref_edges empty_world (''c'', ''k'')) + int (length cool_series) \<le> max_int64"
    by (simp add: ref_edges_empty cool_series_def max_int64_def)
  obtain s' where run: "evaluate_run ref_libs ref_store ''c'' ''k'' (Some cool_flap) cool_series empty_world =
      (map (\<lambda>(a, g). (a, g, None)) ?st, s')"
    using run_implements_steps [OF ref.store.edge_store_axioms, OF ref_inv_empty ref_up_empty scope_ok_k cool_series_ok ver,
        of "Some cool_flap"] by (auto simp: ref_edges_empty)
  have len: "length ?st = 3" by (simp add: cool_series_def)
  have "map fst ?st ! 1 = AggregateSent" "map fst ?st ! 2 = AggregateSent" unfolding cool_run by simp_all
  then have agg: "fst (map (\<lambda>(a, g). (a, g, None)) ?st ! 1) = AggregateSent"
    "fst (map (\<lambda>(a, g). (a, g, None)) ?st ! 2) = AggregateSent"
    using len by (simp_all add: case_prod_beta)
  have "obs_now (cool_series ! 1) + AggregateCooldownSeconds cool_flap \<le> obs_now (cool_series ! 2)"
    by (rule aggregate_cooldown [OF ref.store.edge_store_axioms, OF ref_inv_empty ref_up_empty scope_ok_k cool_series_ok ver run agg])
      (simp_all add: cool_series_def cool_flap_def in_int64_def min_int64_def max_int64_def)
  with run agg show ?thesis by blast
qed

section \<open>One call\<close>

text \<open>
  C15: one call of \<^verbatim>\<open>EvaluateEdgeAndFlap\<close> does exactly one step of the edge machine: over any store
  that keeps the contract and answers, the returned action and aggregate are those of
  \<^const>\<open>edge_step\<close> on the stored edge, the edge it yields is stored under the next version, and nothing else
  in the store changes.
\<close>

theorem evaluate_does_edge_step:
  assumes "edge_store ds edges Inv up" and "Inv s" and "up s" and "scope_ok k" and "in_int64 (unix t)" and "ValidString v"
    and "EncodePayload L p = Inr enc" and "version_at (edges s (c, k)) < max_int64"
    and "edge_step L flap (unix t) v enc (map_option fst (edges s (c, k))) = (a, g, w)"
  shows "\<exists>s'. EvaluateEdgeAndFlap L ds t c k v flap p s = ((a, g, None), s') \<and> Inv s' \<and> up s'
    \<and> edges s' = (case w of None \<Rightarrow> edges s
        | Some e \<Rightarrow> (edges s)((c, k) \<mapsto> (stored k e, version_at (edges s (c, k)) + 1)))"
  using edge_store.evaluate_refines [OF assms] .

lemma ref_encodes: "EncodePayload ref_libs (ref_payload x) = Inr (enc_of ref_libs (ref_payload x))"
  by (rule codec_ok_encodes [OF ref_codec_ok])

theorem evaluate_does_edge_step_witness:
  "\<exists>s'. EvaluateEdgeAndFlap ref_libs ref_store (7 * second) ''c'' ''k'' ''a'' None (ref_payload ''a'') empty_world =
      ((EdgeTriggeredForward, None, None), s') \<and> ref_inv s' \<and> w_up s'
    \<and> ref_edges s' = (case Some (initial_edge 7 ''a'') of None \<Rightarrow> ref_edges empty_world
        | Some e \<Rightarrow> (ref_edges empty_world)((''c'', ''k'') \<mapsto>
            (stored ''k'' e, version_at (ref_edges empty_world (''c'', ''k'')) + 1)))"
  by (rule evaluate_does_edge_step [OF ref.store.edge_store_axioms, OF ref_inv_empty ref_up_empty scope_ok_k _ _ ref_encodes])
    (simp_all add: ref_edges_empty ValidString_one edge_step_def unix_def second_def in_int64_def min_int64_def max_int64_def)

text \<open>
  C16: failures never publish.  Whatever errors the store returns, a call either leaves every edge as it
  was or commits the edge of its step; and an action that makes the caller publish is returned only
  with no error, with the step's own action and aggregate, and after the edge was committed.
\<close>

theorem publish_only_after_commit:
  assumes "edge_store ds edges Inv up" and "Inv s" and "scope_ok k" and "in_int64 (unix t)" and "ValidString v"
    and "version_at (edges s (c, k)) < max_int64"
    and "EvaluateEdgeAndFlap L ds t c k v flap p s = ((a, g, err), s')"
    and "edge_step L flap (unix t) v (enc_of L p) (map_option fst (edges s (c, k))) = (a1, g1, w)"
  shows "Inv s' \<and> (edges s' = edges s \<or> (\<exists>e1. w = Some e1 \<and> committed (edges s) c k e1 (edges s')))
    \<and> (publishes a \<longrightarrow> (\<exists>e1. w = Some e1 \<and> committed (edges s) c k e1 (edges s')) \<and> err = None \<and> a = a1 \<and> g = g1)"
  using edge_store.evaluate_outcome [OF assms] .

text \<open>A world whose second call fails after writing, as a timed-out write does.\<close>

definition faulty_world :: world where
  "faulty_world = empty_world\<lparr>faults := [None, Some (LibErr ''timeout'', True)]\<rparr>"

lemma faulty_run:
  "snd (snd (fst (EvaluateEdgeAndFlap ref_libs ref_store (7 * second) ''c'' ''k'' ''a'' None (ref_payload ''a'') faulty_world))) =
     Some (LibErr ''timeout'')"
  by code_simp

lemma faulty_world_empty: "w_table faulty_world = w_table empty_world"
  by (rule ext)+ (simp add: faulty_world_def w_table_def empty_world_def)

theorem publish_only_after_commit_witness:
  "\<exists>a g s'. EvaluateEdgeAndFlap ref_libs ref_store (7 * second) ''c'' ''k'' ''a'' None (ref_payload ''a'') faulty_world =
      ((a, g, Some (LibErr ''timeout'')), s')
    \<and> ref_inv s' \<and> \<not> publishes a
    \<and> (ref_edges s' = ref_edges faulty_world \<or> committed (ref_edges faulty_world) ''c'' ''k'' (initial_edge 7 ''a'') (ref_edges s'))"
proof -
  obtain a g s' where run: "EvaluateEdgeAndFlap ref_libs ref_store (7 * second) ''c'' ''k'' ''a'' None (ref_payload ''a'')
      faulty_world = ((a, g, Some (LibErr ''timeout'')), s')"
    using faulty_run by (metis prod.collapse)
  have none: "ref_edges faulty_world (''c'', ''k'') = None" and inv: "ref_inv faulty_world"
    using ref_edges_empty ref_inv_empty by (simp_all add: faulty_world_empty)
  have "ref_inv s' \<and> (ref_edges s' = ref_edges faulty_world
      \<or> (\<exists>e1. Some (initial_edge 7 ''a'') = Some e1 \<and> committed (ref_edges faulty_world) ''c'' ''k'' e1 (ref_edges s')))
    \<and> (publishes a \<longrightarrow> (\<exists>e1. Some (initial_edge 7 ''a'') = Some e1
          \<and> committed (ref_edges faulty_world) ''c'' ''k'' e1 (ref_edges s'))
        \<and> Some (LibErr ''timeout'') = None \<and> a = EdgeTriggeredForward \<and> g = None)"
    by (rule publish_only_after_commit [OF ref.store.edge_store_axioms, OF inv scope_ok_k _ _ _ run])
      (simp_all add: none ValidString_one edge_step_def unix_def second_def in_int64_def min_int64_def max_int64_def)
  with run show ?thesis by auto
qed

text \<open>
  C20: the remembered flips stay bounded.  Whatever the store answers, if no stored edge remembers more
  than 128 flips before a call, none does after it, and no version goes down.
\<close>

theorem recent_flips_bounded:
  assumes "edge_store ds edges Inv up" and "Inv s" and "scope_ok k" and "in_int64 (unix t)" and "ValidString v"
    and "version_at (edges s (c, k)) < max_int64"
    and "EvaluateEdgeAndFlap L ds t c k v flap p s = (r, s')"
    and "\<forall>x e n. edges s x = Some (e, n) \<longrightarrow> length (Recent e) \<le> 128"
  shows "(\<forall>x e n. edges s' x = Some (e, n) \<longrightarrow> length (Recent e) \<le> 128)
    \<and> (\<forall>x. version_at (edges s x) \<le> version_at (edges s' x))"
proof -
  obtain a g err where r: "r = (a, g, err)" by (cases r)
  obtain a1 g1 w where st: "edge_step L flap (unix t) v (enc_of L p) (map_option fst (edges s (c, k))) = (a1, g1, w)"
    by (metis surj_pair)
  have small: "length (Recent e1) \<le> 128" if "w = Some e1" for e1
    using edge_step_recent st that by blast
  consider "edges s' = edges s" | e1 where "w = Some e1" "committed (edges s) c k e1 (edges s')"
    using edge_store.evaluate_outcome [OF assms(1-6) assms(7) [unfolded r] st] by blast
  then show ?thesis
  proof cases
    case 1
    then show ?thesis using assms(8) by simp
  next
    case (2 e1)
    then have "edges s' = (edges s)((c, k) \<mapsto> (stored k e1, version_at (edges s (c, k)) + 1))"
      by (simp add: committed_def)
    then show ?thesis using assms(8) small [OF 2(1)] by simp
  qed
qed

theorem recent_flips_bounded_witness:
  "\<exists>r s'. EvaluateEdgeAndFlap ref_libs ref_store (7 * second) ''c'' ''k'' ''a'' None (ref_payload ''a'') empty_world = (r, s')
    \<and> (\<forall>x e n. ref_edges s' x = Some (e, n) \<longrightarrow> length (Recent e) \<le> 128)
    \<and> (\<forall>x. version_at (ref_edges empty_world x) \<le> version_at (ref_edges s' x))"
proof -
  obtain r s' where run: "EvaluateEdgeAndFlap ref_libs ref_store (7 * second) ''c'' ''k'' ''a'' None (ref_payload ''a'')
      empty_world = (r, s')" by (metis surj_pair)
  have "(\<forall>x e n. ref_edges s' x = Some (e, n) \<longrightarrow> length (Recent e) \<le> 128)
    \<and> (\<forall>x. version_at (ref_edges empty_world x) \<le> version_at (ref_edges s' x))"
    by (rule recent_flips_bounded [OF ref.store.edge_store_axioms, OF ref_inv_empty scope_ok_k _ _ _ run])
      (simp_all add: ref_edges_empty ValidString_one unix_def second_def in_int64_def min_int64_def max_int64_def)
  with run show ?thesis by blast
qed

text \<open>
  C37: a threshold above the 128 remembered flips never aggregates, over any store at all: with
  \<^verbatim>\<open>AggregateAt\<close> greater than 128 no call returns \<^verbatim>\<open>AggregateSent\<close>.
\<close>

theorem large_threshold_never_aggregates:
  assumes "128 < AggregateAt f" and "EvaluateEdgeAndFlap L ds t c k v (Some f) p s = ((a, g, err), s')"
  shows "a \<noteq> AggregateSent"
  using assms
  by (auto simp: EvaluateEdgeAndFlap_def evaluate_loaded_def evaluate_flip_def commit_forward_def commit_aggregate_def
      try_aggregate_def Let_def split: prod.splits option.splits sum.splits if_splits dest!: roll_window_keeps(5))

definition big_flap :: FlapConfig where
  "big_flap = ref_flap\<lparr>AggregateAt := 129\<rparr>"

theorem large_threshold_never_aggregates_witness:
  "128 < AggregateAt big_flap \<and>
   fst (fst (EvaluateEdgeAndFlap ref_libs ref_store (7 * second) ''c'' ''k'' ''a'' (Some big_flap) (ref_payload ''a'') empty_world))
     \<noteq> AggregateSent"
proof -
  have big: "128 < AggregateAt big_flap" by (simp add: big_flap_def)
  moreover obtain a g err s' where
    "EvaluateEdgeAndFlap ref_libs ref_store (7 * second) ''c'' ''k'' ''a'' (Some big_flap) (ref_payload ''a'') empty_world
      = ((a, g, err), s')" by (metis surj_pair)
  ultimately show ?thesis using large_threshold_never_aggregates [OF big] by fastforce
qed

text \<open>
  C39: the list of an aggregate is the newest flips first: \<^verbatim>\<open>BuildAggregate\<close> returns the last
  \<^term>\<open>k\<close> remembered flips in reverse order, all of them when there are fewer, and none when \<^term>\<open>k\<close> is 0
  or negative.
\<close>

theorem BuildAggregate_lists_newest:
  "\<exists>m. BuildAggregate L e k = Some m
     \<and> m ''recent'' = Some (AnySlice (map (agg_item L) (take (nat k) (rev (Recent e)))))"
  by (auto simp: BuildAggregate_def agg_items_eq)

section \<open>Concurrent requests\<close>

text \<open>
  C8: concurrent requests for one scope behave as if they ran one after the other.  However the store
  accesses of any number of handlers interleave, over a store that refuses stale versions the final
  edge is the one the committed observations produce in commit order, each handler commits at most
  once, and a handler that publishes does so with the action and the aggregate its observation has in
  that serial run.  In particular, of the handlers that race on one version at most one publishes.
\<close>

theorem concurrent_requests_serialise:
  assumes "data_store ds edges granted Inv up" and "Inv s0" and "up s0" and "scope_ok k" and "\<And>i. obs_ok L (obs i)"
    and "version_at (edges s0 (c, k)) + int (length tr) < max_int64"
    and "handler_steps L ds c k flap (\<lambda>s. version_at (edges s (c, k))) (\<lambda>i. Waiting (obs i), s0) tr (hs, s)"
  shows "distinct (map fst tr) \<and> version_at (edges s (c, k)) = version_at (edges s0 (c, k)) + int (length tr)
    \<and> (\<exists>rs. step_run L flap k (map snd tr) (map_option fst (edges s0 (c, k))) = (rs, map_option fst (edges s (c, k)))
        \<and> (\<forall>i a g err. hs i = Finished (a, g, err) \<longrightarrow> publishes a \<longrightarrow>
             (\<exists>j < length tr. tr ! j = (i, obs i) \<and> rs ! j = (a, g))))"
proof -
  have I: "data_store.sys_inv edges Inv up L c k flap obs s0 tr hs s"
    using data_store.handler_steps_inv [OF assms(1,7,2-6)] by simp
  note defs = data_store.sys_inv_def [OF assms(1)] data_store.store_inv_def [OF assms(1)]
    data_store.trace_inv_def [OF assms(1)] data_store.result_inv_def [OF assms(1)]
  have tr: "tr ! j = (fst (tr ! j), obs (fst (tr ! j)))" if "j < length tr" for j
    using I nth_mem [OF that] unfolding defs by (metis prod.collapse)
  show ?thesis using I tr unfolding defs by metis
qed

text \<open>
  Two handlers read the same empty scope before either writes: the first to write publishes, the
  other finds its version stale and does not.
\<close>

definition race_obs :: observation where
  "race_obs = (7 * second, ''a'', ref_payload ''a'')"

abbreviation race_ver :: "world \<Rightarrow> int" where
  "race_ver \<equiv> (\<lambda>s. version_at (ref_edges s (''c'', ''k'')))"

lemma race_obs_ok: "obs_ok ref_libs race_obs"
  using ref_encodes by (simp add: race_obs_def obs_ok_def ValidString_one unix_def second_def in_int64_def
      min_int64_def max_int64_def)

lemma race_load:
  assumes "ref_inv s" and "w_up s" and "ref_edges s (''c'', ''k'') = None"
  shows "\<exists>s'. Load ref_store ''c'' ''k'' s = ((None, 0, None), s') \<and> ref_inv s' \<and> w_up s' \<and> ref_edges s' = ref_edges s"
proof -
  obtain eo v err s' where l: "Load ref_store ''c'' ''k'' s = ((eo, v, err), s')" by (metis surj_pair)
  from ref.store.load [OF assms(1) scope_ok_k l] assms(2,3) l show ?thesis by auto
qed

lemma race_commit:
  assumes "ref_inv s" and "w_up s" and "ref_edges s (''c'', ''k'') = None"
  shows "\<exists>s'. evaluate_loaded ref_libs ref_store 7 ''c'' ''k'' ''a'' None (ref_payload ''a'') (None, 0, None) s =
      ((EdgeTriggeredForward, None, None), s') \<and> ref_inv s' \<and> w_up s' \<and> race_ver s' = 1"
proof -
  have now: "unix (7 * second) = 7" by (simp add: unix_def second_def)
  show ?thesis
    using edge_store.evaluate_loaded_current [OF ref.store.edge_store_axioms, OF assms(1,2) scope_ok_k, of "7 * second" "''a''" ref_libs "ref_payload ''a''" _ "''c''"
        None None, OF _ _ ref_encodes] assms(3)
    by (auto simp: now ValidString_one edge_step_def in_int64_def min_int64_def max_int64_def)
qed

lemma race_lost:
  assumes "ref_inv s" and "w_up s" and "race_ver s = 1"
    and "evaluate_loaded ref_libs ref_store 7 ''c'' ''k'' ''a'' None (ref_payload ''a'') (None, 0, None) s = ((a, g, err), s')"
  shows "race_ver s' = 1 \<and> \<not> publishes a"
proof -
  have now: "unix (7 * second) = 7" by (simp add: unix_def second_def)
  have "loaded_ok (ref_edges s (''c'', ''k'')) (None, 0, None)" using assms(3) by (simp add: loaded_ok_def)
  from data_store.evaluate_loaded_stale [OF ref.store.data_store_axioms, OF assms(1,2) scope_ok_k race_obs_ok [unfolded race_obs_def] _ this, unfolded now, OF _ _ assms(4)]
  show ?thesis using assms(3) by (simp add: max_int64_def)
qed

lemma race_steps:
  "\<exists>hs s. handler_steps ref_libs ref_store ''c'' ''k'' None race_ver (\<lambda>i. Waiting race_obs, empty_world) [(0, race_obs)] (hs, s)
     \<and> hs 0 = Finished (EdgeTriggeredForward, None, None) \<and> (\<exists>a g err. hs 1 = Finished (a, g, err) \<and> \<not> publishes a)"
proof -
  let ?step = "handler_step ref_libs ref_store ''c'' ''k'' None race_ver"
  let ?l = "Loaded race_obs (None, 0, None)"
  let ?h0 = "(\<lambda>i::nat. Waiting race_obs)(0 := ?l)"
  let ?h1 = "?h0(1 := ?l)"
  let ?h2 = "?h1(0 := Finished (EdgeTriggeredForward, None, None))"
  have now: "EpochTime (7 * second) = 7" by (simp add: EpochTime_def unix_def second_def)
  obtain s1 where l1: "Load ref_store ''c'' ''k'' empty_world = ((None, 0, None), s1)"
    and s1: "ref_inv s1" "w_up s1" "ref_edges s1 (''c'', ''k'') = None"
    using race_load [OF ref_inv_empty ref_up_empty ref_edges_empty] by (auto simp: ref_edges_empty)
  obtain s2 where l2: "Load ref_store ''c'' ''k'' s1 = ((None, 0, None), s2)"
    and s2: "ref_inv s2" "w_up s2" "ref_edges s2 (''c'', ''k'') = None"
    using race_load [OF s1] s1(3) by auto
  obtain s3 where e1: "evaluate_loaded ref_libs ref_store 7 ''c'' ''k'' ''a'' None (ref_payload ''a'') (None, 0, None) s2 =
      ((EdgeTriggeredForward, None, None), s3)" and s3: "ref_inv s3" "w_up s3" "race_ver s3 = 1"
    using race_commit [OF s2] by blast
  obtain a g err s4 where e2: "evaluate_loaded ref_libs ref_store 7 ''c'' ''k'' ''a'' None (ref_payload ''a'') (None, 0, None) s3 =
      ((a, g, err), s4)" by (metis surj_pair)
  note lost = race_lost [OF s3 e2]
  have 1: "?step (\<lambda>i. Waiting race_obs, empty_world) [] (?h0, s1)" by (rule load_step [OF refl l1])
  have 2: "?step (?h0, s1) [] (?h1, s2)" by (rule load_step [OF _ l2]) simp
  have 3: "?step (?h1, s2) [(0, race_obs)] (?h2, s3)"
    using eval_step [of ?h1 0 "7 * second" "''a''" "ref_payload ''a''" "(None, 0, None)" ref_libs ref_store "''c''" "''k''" None
        s2, unfolded now, OF _ e1, of race_ver] s2(3) s3(3) by (simp add: race_obs_def)
  have 4: "?step (?h2, s3) [] (?h2(1 := Finished (a, g, err)), s4)"
    using eval_step [of ?h2 1 "7 * second" "''a''" "ref_payload ''a''" "(None, 0, None)" ref_libs ref_store "''c''" "''k''" None
        s3, unfolded now, OF _ e2, of race_ver] s3(3) lost by (simp add: race_obs_def)
  from steps_step [OF steps_step [OF steps_step [OF steps_step [OF steps_refl 1] 2] 3] 4]
  have run: "handler_steps ref_libs ref_store ''c'' ''k'' None race_ver (\<lambda>i. Waiting race_obs, empty_world)
      [(0, race_obs)] (?h2(1 := Finished (a, g, err)), s4)" by simp
  show ?thesis by (rule exI, rule exI, rule conjI [OF run]) (simp add: lost)
qed

theorem concurrent_requests_serialise_witness:
  "\<exists>hs s. handler_steps ref_libs ref_store ''c'' ''k'' None race_ver (\<lambda>i. Waiting race_obs, empty_world) [(0, race_obs)] (hs, s)
     \<and> hs 0 = Finished (EdgeTriggeredForward, None, None) \<and> (\<exists>a g err. hs 1 = Finished (a, g, err) \<and> \<not> publishes a)
     \<and> race_ver s = 1 \<and> (\<exists>rs. step_run ref_libs None ''k'' [race_obs] None = (rs, map_option fst (ref_edges s (''c'', ''k''))))"
proof -
  obtain hs s where run: "handler_steps ref_libs ref_store ''c'' ''k'' None race_ver (\<lambda>i. Waiting race_obs, empty_world)
      [(0, race_obs)] (hs, s)" and hs: "hs 0 = Finished (EdgeTriggeredForward, None, None)"
      "\<exists>a g err. hs 1 = Finished (a, g, err) \<and> \<not> publishes a"
    using race_steps by blast
  have "race_ver empty_world + int (length [(0, race_obs)]) < max_int64" by (simp add: ref_edges_empty max_int64_def)
  note law = concurrent_requests_serialise [OF ref.store.data_store_axioms, OF ref_inv_empty ref_up_empty scope_ok_k race_obs_ok this run]
  then have "race_ver s = 1" and "\<exists>rs. step_run ref_libs None ''k'' [race_obs] None = (rs, map_option fst (ref_edges s (''c'', ''k'')))"
    by (auto simp: ref_edges_empty)
  with run hs show ?thesis by blast
qed

text \<open>
  Requests are answered.  Over any store, and in the middle of any interleaving, no handler ever has more accesses
  to make than when it started (a load and an evaluation), and the interleaving can be continued until each of the
  handlers has its result: none waits for another, whoever wins the race for the version.
\<close>

lemma handlers_terminate:
  assumes "handler_steps L ds c k flap ver (hs, s) tr (hs1, s1)"
  shows "(\<forall>i. accesses_left (hs1 i) \<le> accesses_left (hs i))
     \<and> (\<exists>tr' hs' s'. handler_steps L ds c k flap ver (hs, s) (tr @ tr') (hs', s') \<and> (\<forall>i < n. \<exists>r. hs' i = Finished r))"
  using handler_steps_progress [OF assms] all_handlers_finish [of L ds c k flap ver hs1 s1 n] handler_steps_trans [OF _ assms]
  by (simp add: accesses_left_0) blast

lemma handlers_terminate_witness:
  "\<exists>tr hs s. handler_steps ref_libs ref_store ''c'' ''k'' None race_ver (\<lambda>i. Waiting race_obs, empty_world) tr (hs, s)
     \<and> (\<forall>i < 5. \<exists>r. hs i = Finished r)"
  using handlers_terminate [OF steps_refl [of ref_libs ref_store "''c''" "''k''" None race_ver "(\<lambda>i. Waiting race_obs, empty_world)"], of 5]
  by auto

end
