(* ===== verification/TTL_Cache.thy ===== *)
theory TTL_Cache
  imports Prelude
begin

text \<open>
  \<^verbatim>\<open>internal/flow/ttl.go\<close>: the in-process cache with lazy expiration.  The mutex makes \<^verbatim>\<open>Get\<close> and \<^verbatim>\<open>Set\<close>
  atomic, so they are functions on the map; the result of \<^verbatim>\<open>time.Now()\<close> is an argument.  \<^verbatim>\<open>Get\<close>'s zero
  value and \<^verbatim>\<open>false\<close> are \<^const>\<open>None\<close>.
\<close>

record 'v entry =
  val :: 'v
  exp :: time

type_synonym ('k, 'v) TTL = "'k \<Rightarrow> 'v entry option"

definition NewTTL :: "('k, 'v) TTL" where
  "NewTTL = Map.empty"

definition TTL_Get :: "('k, 'v) TTL \<Rightarrow> 'k \<Rightarrow> time \<Rightarrow> 'v option" where
  "TTL_Get d k now =
     (case d k of
        None \<Rightarrow> None
      | Some e \<Rightarrow> if now > exp e then None else Some (val e))"

definition TTL_Set :: "('k, 'v) TTL \<Rightarrow> 'k \<Rightarrow> 'v \<Rightarrow> duration \<Rightarrow> time \<Rightarrow> ('k, 'v) TTL" where
  "TTL_Set d k v ttl now = d(k \<mapsto> \<lparr>val = v, exp = now + ttl\<rparr>)"

section \<open>Lemmas\<close>

lemma TTL_Get_New [simp]: "TTL_Get NewTTL k now = None"
  by (simp add: TTL_Get_def NewTTL_def)

lemma TTL_Get_Set_same:
  "TTL_Get (TTL_Set d k v ttl t) k now = (if now \<le> t + ttl then Some v else None)"
  by (simp add: TTL_Get_def TTL_Set_def not_less)

lemma TTL_Get_Set_other [simp]: "k' \<noteq> k \<Longrightarrow> TTL_Get (TTL_Set d k v ttl t) k' now = TTL_Get d k' now"
  by (simp add: TTL_Get_def TTL_Set_def)

lemma TTL_Get_antimono: "TTL_Get d k now = Some v \<Longrightarrow> t \<le> now \<Longrightarrow> TTL_Get d k t = Some v"
  by (auto simp: TTL_Get_def split: option.splits if_splits)

end
