(* ===== verification/Flow.thy ===== *)
theory Flow
  imports Edge_Runs TTL_Cache
begin

text \<open>
  \<^verbatim>\<open>internal/flow/flow.go\<close>: authentication, the pipeline \<^verbatim>\<open>Run\<close> (rate limits, passthrough, edge and flapping
  control, target limit), the hash that names a scope, and the cached configuration.
\<close>

section \<open>Scope keys\<close>

text \<open>\<^verbatim>\<open>hash/fnv\<close>'s \<^verbatim>\<open>New32a\<close>, and \<^verbatim>\<open>fmt.Sprintf("e%d", h.Sum32())\<close>.\<close>

unbundle bit_operations_syntax

definition fnv_step :: "32 word \<Rightarrow> char \<Rightarrow> 32 word" where
  "fnv_step h c = (h XOR of_nat (of_char c)) * 16777619"

definition fnv32a :: "string \<Rightarrow> 32 word" where
  "fnv32a s = foldl fnv_step 2166136261 s"

definition ComputeKey :: "string \<Rightarrow> string" where
  "ComputeKey s = ''e'' @ FormatInt (uint (fnv32a s))"

section \<open>Auth\<close>

definition Auth :: "ClientConfig \<Rightarrow> string \<Rightarrow> string \<Rightarrow> go_error option" where
  "Auth cc clientID clientKey =
     (if clientID = [] \<or> clientKey = [] then Some (ErrMsg ''missing headers'')
      else if clientKey \<noteq> ClientKey cc then Some (ErrMsg ''invalid credentials'')
      else None)"

section \<open>Run\<close>

text \<open>The readings of the clock during one \<^verbatim>\<open>Run\<close>: in each \<^verbatim>\<open>Acquire\<close> and in \<^verbatim>\<open>EvaluateEdgeAndFlap\<close>.\<close>

record run_clock =
  clk_ip :: clock
  clk_client :: clock
  clk_edge :: time
  clk_target :: clock

definition StatusOK :: int where "StatusOK = 200"
definition StatusAccepted :: int where "StatusAccepted = 202"
definition StatusBadRequest :: int where "StatusBadRequest = 400"
definition StatusUnauthorized :: int where "StatusUnauthorized = 401"
definition StatusMethodNotAllowed :: int where "StatusMethodNotAllowed = 405"
definition StatusTooManyRequests :: int where "StatusTooManyRequests = 429"
definition StatusInternalServerError :: int where "StatusInternalServerError = 500"

lemmas status_defs [go_defs] =
  StatusOK_def StatusAccepted_def StatusBadRequest_def StatusUnauthorized_def
  StatusMethodNotAllowed_def StatusTooManyRequests_def StatusInternalServerError_def

type_synonym run_result = "Action \<times> int \<times> payload \<times> go_error option"

text \<open>One of the two rate limits before the rules; \<open>None\<close> lets the notification pass.\<close>

definition gate_limit ::
    "'s DataStore \<Rightarrow> clock \<Rightarrow> string \<Rightarrow> int \<Rightarrow> string \<Rightarrow> 's \<Rightarrow> go_error option \<times> 's" where
  "gate_limit dataStore clk scope rpm msg s =
     (if rpm > 0 then
        (case Acquire dataStore clk scope rpm minute s of
           ((ok, acquireErr), s1) \<Rightarrow>
             (if acquireErr \<noteq> None then (Some (ErrMsg ''rate limit check failed''), s1)
              else if \<not> ok then (Some (ErrMsg msg), s1)
              else (None, s1)))
      else (None, s))"

text \<open>The target limit at the end of \<^verbatim>\<open>Run\<close>.\<close>

definition target_limit ::
    "'s DataStore \<Rightarrow> clock \<Rightarrow> string \<Rightarrow> ClientConfig \<Rightarrow> Action \<Rightarrow> payload \<Rightarrow> 's \<Rightarrow> run_result \<times> 's" where
  "target_limit dataStore clk clientID cc action newPayload s =
     (if (action = EdgeTriggeredForward \<or> action = AggregateSent) \<and> SNSRPM (Target (Trigger cc)) > 0 then
        (let targetScope = ''TARGET:'' @ clientID @ '':'' @ SNSArn (Target (Trigger cc)) in
         case Acquire dataStore clk targetScope (SNSRPM (Target (Trigger cc))) minute s of
           ((ok, acquireErr), s1) \<Rightarrow>
             (if acquireErr \<noteq> None
              then ((action, StatusInternalServerError, newPayload, Some (ErrMsg ''rate limit check failed'')), s1)
              else if \<not> ok then ((NoOp, StatusTooManyRequests, newPayload, None), s1)
              else ((action, StatusAccepted, newPayload, None), s1)))
      else ((action, StatusAccepted, newPayload, None), s))"

text \<open>The part of \<^verbatim>\<open>Run\<close> from the trigger field on.\<close>

definition run_trigger ::
    "Libs \<Rightarrow> run_clock \<Rightarrow> string \<Rightarrow> ClientConfig \<Rightarrow> 's DataStore \<Rightarrow> payload \<Rightarrow> 's \<Rightarrow> run_result \<times> 's" where
  "run_trigger L clk clientID cc dataStore p s =
     (case EvalString L (FieldExpr (Trigger cc)) p of
        Inl _ \<Rightarrow> ((NoOp, StatusBadRequest, p, Some (ErrMsg ''trigger field eval error'')), s)
      | Inr None \<Rightarrow> target_limit dataStore (clk_target clk) clientID cc NoOp p s
      | Inr (Some newVal) \<Rightarrow>
          (case EvaluateEdgeAndFlap L dataStore (clk_edge clk) clientID (ComputeKey (FieldExpr (Trigger cc)))
                  newVal (Flapping (Trigger cc)) p s of
             ((action, newPayload, err), s1) \<Rightarrow>
               (if err \<noteq> None
                then ((action, StatusInternalServerError, newPayload, Some (ErrMsg ''edge evaluation error'')), s1)
                else target_limit dataStore (clk_target clk) clientID cc action newPayload s1)))"

definition Run ::
    "Libs \<Rightarrow> run_clock \<Rightarrow> string \<Rightarrow> string \<Rightarrow> ClientConfig \<Rightarrow> 's DataStore \<Rightarrow> payload \<Rightarrow> 's \<Rightarrow> run_result \<times> 's" where
  "Run L clk clientID clientIP cc dataStore p s =
     (case gate_limit dataStore (clk_ip clk) (''IP:'' @ clientIP) (IPRPM cc) ''rate limit (ip)'' s of
        (Some e, s1) \<Rightarrow> ((NoOp, StatusAccepted, p, Some e), s1)
      | (None, s1) \<Rightarrow>
          (case gate_limit dataStore (clk_client clk) (''CLIENT:'' @ clientID) (ClientRPM cc) ''rate limit (client)'' s1 of
             (Some e, s2) \<Rightarrow> ((NoOp, StatusAccepted, p, Some e), s2)
           | (None, s2) \<Rightarrow>
               if CheckPassthrough L (Passthrough cc) p then ((ForwardedAsIs, StatusAccepted, p, None), s2)
               else if FieldExpr (Trigger cc) = [] then ((ForwardedAsIs, StatusAccepted, p, None), s2)
               else run_trigger L clk clientID cc dataStore p s2))"

section \<open>The cached configuration\<close>

text \<open>\<open>clk 0\<close> is the clock of the lookup and \<open>clk 1\<close> the one of the insertion.\<close>

definition LoadCachedClientConfig ::
    "clock \<Rightarrow> 's ClientStore \<Rightarrow> string \<Rightarrow> (string, ClientConfig) TTL \<times> 's \<Rightarrow>
       (go_error + ClientConfig) \<times> (string, ClientConfig) TTL \<times> 's" where
  "LoadCachedClientConfig clk cs i st =
     (case st of (cfgCache, s) \<Rightarrow>
        (case TTL_Get cfgCache i (clk 0) of
           Some v \<Rightarrow> (Inr v, cfgCache, s)
         | None \<Rightarrow>
             (case GetClientConfig cs i s of
                (Inl err, s1) \<Rightarrow> (Inl err, cfgCache, s1)
              | (Inr cc, s1) \<Rightarrow> (Inr cc, TTL_Set cfgCache i cc (300 * second) (clk 1), s1))))"

section \<open>What Run means\<close>

text \<open>
  The abstract state of a data store: the edges with their versions, and the grants of each minute
  bucket.  \<open>spec_run\<close> is \<^verbatim>\<open>Run\<close> on it.
\<close>

type_synonym grants = "string \<times> int \<Rightarrow> int"
type_synonym store_view = "edge_map \<times> grants"

definition spec_acquire :: "time \<Rightarrow> string \<Rightarrow> int \<Rightarrow> grants \<Rightarrow> bool \<times> grants" where
  "spec_acquire t scope rate G =
     (let b = (scope, epoch_minute t) in if G b < rate then (True, G(b := G b + 1)) else (False, G))"

definition spec_gate :: "time \<Rightarrow> string \<Rightarrow> int \<Rightarrow> grants \<Rightarrow> bool \<times> grants" where
  "spec_gate t scope rpm G = (if rpm > 0 then spec_acquire t scope rpm G else (True, G))"

definition target_scope :: "string \<Rightarrow> ClientConfig \<Rightarrow> string" where
  "target_scope c cc = ''TARGET:'' @ c @ '':'' @ SNSArn (Target (Trigger cc))"

definition spec_target :: "time \<Rightarrow> string \<Rightarrow> ClientConfig \<Rightarrow> Action \<Rightarrow> payload \<Rightarrow> grants \<Rightarrow> run_result \<times> grants" where
  "spec_target t c cc a g G =
     (case (if publishes a then spec_gate t (target_scope c cc) (SNSRPM (Target (Trigger cc))) G else (True, G)) of
        (ok, G1) \<Rightarrow> (if ok then (a, 202, g, None) else (NoOp, 429, g, None), G1))"

definition spec_trigger :: "Libs \<Rightarrow> run_clock \<Rightarrow> string \<Rightarrow> ClientConfig \<Rightarrow> payload \<Rightarrow> store_view \<Rightarrow> run_result \<times> store_view" where
  "spec_trigger L clk c cc p V =
     (case V of (E, G) \<Rightarrow>
        (case EvalString L (FieldExpr (Trigger cc)) p of
           Inl _ \<Rightarrow> ((NoOp, 400, p, Some (ErrMsg ''trigger field eval error'')), E, G)
         | Inr None \<Rightarrow> ((NoOp, 202, p, None), E, G)
         | Inr (Some v) \<Rightarrow>
             (let k = ComputeKey (FieldExpr (Trigger cc)) in
              case edge_step L (Flapping (Trigger cc)) (unix (clk_edge clk)) v (enc_of L p) (map_option fst (E (c, k))) of
                (a, g, w) \<Rightarrow>
                  (case spec_target (clk_target clk 0) c cc a g G of
                     (r, G1) \<Rightarrow>
                       (r, (case w of None \<Rightarrow> E | Some e \<Rightarrow> E((c, k) \<mapsto> (stored k e, version_at (E (c, k)) + 1))), G1)))))"

definition spec_run ::
    "Libs \<Rightarrow> run_clock \<Rightarrow> string \<Rightarrow> string \<Rightarrow> ClientConfig \<Rightarrow> payload \<Rightarrow> store_view \<Rightarrow> run_result \<times> store_view" where
  "spec_run L clk c ip cc p V =
     (case spec_gate (clk_ip clk 0) (''IP:'' @ ip) (IPRPM cc) (snd V) of
        (ok1, G1) \<Rightarrow>
          if \<not> ok1 then ((NoOp, 202, p, Some (ErrMsg ''rate limit (ip)'')), fst V, G1)
          else (case spec_gate (clk_client clk 0) (''CLIENT:'' @ c) (ClientRPM cc) G1 of
                  (ok2, G2) \<Rightarrow>
                    if \<not> ok2 then ((NoOp, 202, p, Some (ErrMsg ''rate limit (client)'')), fst V, G2)
                    else if CheckPassthrough L (Passthrough cc) p \<or> FieldExpr (Trigger cc) = []
                    then ((ForwardedAsIs, 202, p, None), fst V, G2)
                    else spec_trigger L clk c cc p (fst V, G2)))"

text \<open>What a payload must be for the trigger: a valid text as value, and a payload that encodes.\<close>

definition trigger_ok :: "Libs \<Rightarrow> ClientConfig \<Rightarrow> payload \<Rightarrow> bool" where
  "trigger_ok L cc p \<longleftrightarrow>
     (\<forall>v. EvalString L (FieldExpr (Trigger cc)) p = Inr (Some v) \<longrightarrow> ValidString v \<and> (\<exists>enc. EncodePayload L p = Inr enc))"

lemma minute_pos: "0 < minute"
  by (simp add: minute_def second_def)

lemma scope_ok_ComputeKey [simp]: "scope_ok (ComputeKey s)"
  using FormatInt_no_sep(1) by (simp add: scope_ok_def ComputeKey_def)

lemma evaluate_loaded_upsert:
  "evaluate_loaded L ds now c k v flap p l s = (r, s') \<Longrightarrow> s' = s \<or> (\<exists>pv e ur. UpsertCAS ds c k pv e s = (ur, s'))"
  by (auto simp: evaluate_loaded_def evaluate_flip_def commit_forward_def commit_aggregate_def
      split: prod.splits option.splits sum.splits if_splits)

context seq_data_store
begin

lemma evaluate_granted:
  assumes "inv s" and "EvaluateEdgeAndFlap L ds t c k v flap p s = (r, s')" and k: "scope_ok k"
  shows "granted s' = granted s"
proof -
  obtain l s1 where l: "Load ds c k s = (l, s1)" by (metis surj_pair)
  obtain eo lv lerr where "l = (eo, lv, lerr)" by (cases l)
  then have "inv s1" using load [OF assms(1) k] l by blast
  moreover have "granted s1 = granted s" by (rule load_granted [OF assms(1) k l])
  moreover have "evaluate_loaded L ds (EpochTime t) c k v flap p l s1 = (r, s')"
    using assms(2) by (simp add: EvaluateEdgeAndFlap_def Let_def l)
  ultimately show ?thesis using evaluate_loaded_upsert upsert_granted [OF _ k] by metis
qed

lemma gate_refines:
  assumes "inv s" and "up s" and "rpm \<le> max_int64" and "spec_gate (clk 0) scope rpm (granted s) = (ok, G)"
  shows "\<exists>s'. gate_limit ds clk scope rpm msg s = (if ok then None else Some (ErrMsg msg), s')
    \<and> inv s' \<and> up s' \<and> edges s' = edges s \<and> granted s' = G"
proof (cases "rpm > 0")
  case True
  obtain ok1 err s' where a: "Acquire ds clk scope rpm minute s = ((ok1, err), s')" by (metis surj_pair)
  show ?thesis
    using acquire [OF assms(1) True assms(3) minute_pos a refl] acquire_edges [OF assms(1,3) minute_pos a] assms(2,4) a True
    by (auto simp: gate_limit_def spec_gate_def spec_acquire_def Let_def split: if_splits)
next
  case False
  then show ?thesis using assms by (auto simp: gate_limit_def spec_gate_def)
qed

lemma target_refines:
  assumes "inv s" and "up s" and "SNSRPM (Target (Trigger cc)) \<le> max_int64"
    and "spec_target (clk 0) c cc a g (granted s) = (r, G)"
  shows "\<exists>s'. target_limit ds clk c cc a g s = (r, s') \<and> inv s' \<and> up s' \<and> edges s' = edges s \<and> granted s' = G"
proof (cases "publishes a \<and> SNSRPM (Target (Trigger cc)) > 0")
  case True
  then have pos: "0 < SNSRPM (Target (Trigger cc))" by simp
  obtain ok1 err s' where q: "Acquire ds clk (target_scope c cc) (SNSRPM (Target (Trigger cc))) minute s = ((ok1, err), s')"
    by (metis surj_pair)
  show ?thesis
    using acquire [OF assms(1) pos assms(3) minute_pos q refl] acquire_edges [OF assms(1,3) minute_pos q] assms(2,4) q True
    by (auto simp: target_limit_def spec_target_def spec_gate_def spec_acquire_def target_scope_def publishes_def
        status_defs Let_def split: if_splits)
next
  case False
  then show ?thesis
    using assms by (auto simp: target_limit_def spec_target_def spec_gate_def publishes_def status_defs split: if_splits)
qed

lemma trigger_refines:
  assumes s: "inv s" "up s" and rate: "SNSRPM (Target (Trigger cc)) \<le> max_int64" and now: "in_int64 (unix (clk_edge clk))"
    and ok: "trigger_ok L cc p" and ver: "version_at (edges s (c, ComputeKey (FieldExpr (Trigger cc)))) < max_int64"
    and spec: "spec_trigger L clk c cc p (edges s, granted s) = (r, V)"
  shows "\<exists>s'. run_trigger L clk c cc ds p s = (r, s') \<and> inv s' \<and> up s' \<and> (edges s', granted s') = V"
proof (cases "EvalString L (FieldExpr (Trigger cc)) p")
  case (Inl x)
  then show ?thesis using s spec by (auto simp: run_trigger_def spec_trigger_def status_defs)
next
  case (Inr vo)
  show ?thesis
  proof (cases vo)
    case None
    then show ?thesis
      using s spec Inr by (auto simp: run_trigger_def spec_trigger_def target_limit_def status_defs)
  next
    case (Some v)
    let ?k = "ComputeKey (FieldExpr (Trigger cc))" and ?flap = "Flapping (Trigger cc)"
    obtain enc where v: "ValidString v" and enc: "EncodePayload L p = Inr enc"
      using ok Inr Some by (auto simp: trigger_ok_def)
    have eo: "enc_of L p = enc" by (simp add: enc_of_def enc)
    obtain a g w where st: "edge_step L ?flap (unix (clk_edge clk)) v enc (map_option fst (edges s (c, ?k))) = (a, g, w)"
      by (metis surj_pair)
    obtain s1 where ev: "EvaluateEdgeAndFlap L ds (clk_edge clk) c ?k v ?flap p s = ((a, g, None), s1)"
      and s1: "inv s1" "up s1"
      and ed: "edges s1 = (case w of None \<Rightarrow> edges s
        | Some e \<Rightarrow> (edges s)((c, ?k) \<mapsto> (stored ?k e, version_at (edges s (c, ?k)) + 1)))"
      using evaluate_refines [OF s scope_ok_ComputeKey now v enc ver st] by blast
    have gr: "granted s1 = granted s" by (rule evaluate_granted [OF s(1) ev scope_ok_ComputeKey])
    obtain r1 G1 where tg: "spec_target (clk_target clk 0) c cc a g (granted s1) = (r1, G1)" by (metis surj_pair)
    from target_refines [where clk = "clk_target clk", OF s1 rate tg] show ?thesis
      using spec Inr Some st ev ed gr tg by (auto simp: run_trigger_def spec_trigger_def eo Let_def)
  qed
qed

text \<open>\<^verbatim>\<open>Run\<close> refines \<^const>\<open>spec_run\<close> while the store answers.\<close>

lemma run_refines:
  assumes s: "inv s" "up s" and cc: "config_range cc" and now: "in_int64 (unix (clk_edge clk))"
    and ok: "trigger_ok L cc p" and ver: "version_at (edges s (c, ComputeKey (FieldExpr (Trigger cc)))) < max_int64"
    and spec: "spec_run L clk c ip cc p (edges s, granted s) = (r, V)"
  shows "\<exists>s'. Run L clk c ip cc ds p s = (r, s') \<and> inv s' \<and> up s' \<and> (edges s', granted s') = V"
proof -
  have rates: "IPRPM cc \<le> max_int64" "ClientRPM cc \<le> max_int64" "SNSRPM (Target (Trigger cc)) \<le> max_int64"
    using cc by (simp_all add: config_range_def in_int64_def)
  obtain ok1 G1 where g1: "spec_gate (clk_ip clk 0) (''IP:'' @ ip) (IPRPM cc) (granted s) = (ok1, G1)" by (metis surj_pair)
  obtain s1 where r1: "gate_limit ds (clk_ip clk) (''IP:'' @ ip) (IPRPM cc) ''rate limit (ip)'' s =
      (if ok1 then None else Some (ErrMsg ''rate limit (ip)''), s1)"
    and s1: "inv s1" "up s1" "edges s1 = edges s" "granted s1 = G1"
    using gate_refines [where clk = "clk_ip clk", OF s rates(1) g1] by blast
  obtain ok2 G2 where g2: "spec_gate (clk_client clk 0) (''CLIENT:'' @ c) (ClientRPM cc) (granted s1) = (ok2, G2)" by (metis surj_pair)
  obtain s2 where r2: "gate_limit ds (clk_client clk) (''CLIENT:'' @ c) (ClientRPM cc) ''rate limit (client)'' s1 =
      (if ok2 then None else Some (ErrMsg ''rate limit (client)''), s2)"
    and s2: "inv s2" "up s2" "edges s2 = edges s1" "granted s2 = G2"
    using gate_refines [where clk = "clk_client clk", OF s1(1,2) rates(2) g2] by blast
  have tr: "spec_trigger L clk c cc p (edges s, G2) = (r, V) \<Longrightarrow>
      \<exists>s'. run_trigger L clk c cc ds p s2 = (r, s') \<and> inv s' \<and> up s' \<and> (edges s', granted s') = V"
    using trigger_refines [OF s2(1,2) rates(3) now ok, of c r V] s2 s1 ver by simp
  show ?thesis
    using spec g1 g2 r1 r2 s1 s2 tr
    by (auto simp: Run_def spec_run_def status_defs split: if_splits)
qed

end

end
