(* ===== verification/Flow_Limits.thy ===== *)
theory Flow_Limits
  imports Flow
begin

text \<open>
  The rate limits of \<^verbatim>\<open>Run\<close> over a series of calls, with any faults of the store: how many calls of one
  client get past its limit in a minute, and how many publish to its target.
\<close>

section \<open>Series of runs\<close>

type_synonym notification = "run_clock \<times> string \<times> payload"

fun run_series ::
    "Libs \<Rightarrow> string \<Rightarrow> ClientConfig \<Rightarrow> 's DataStore \<Rightarrow> notification list \<Rightarrow> 's \<Rightarrow> run_result list \<times> 's" where
  "run_series L c cc ds [] s = ([], s)"
| "run_series L c cc ds ((clk, ip, p) # xs) s =
     (case Run L clk c ip cc ds p s of (r, s1) \<Rightarrow>
        (case run_series L c cc ds xs s1 of (rs, s2) \<Rightarrow> (r # rs, s2)))"

definition admitted :: "run_result \<Rightarrow> bool" where
  "admitted r \<longleftrightarrow> snd (snd (snd r)) = None"

definition to_target :: "run_result \<Rightarrow> bool" where
  "to_target r \<longleftrightarrow> admitted r \<and> publishes (fst r)"

text \<open>A bucket that gained at least \<^term>\<open>n\<close> grants and stayed within its rate.\<close>

definition bucket_step :: "int \<Rightarrow> int \<Rightarrow> int \<Rightarrow> int \<Rightarrow> bool" where
  "bucket_step rate n g g' \<longleftrightarrow> g + n \<le> g' \<and> (g \<le> rate \<longrightarrow> g' \<le> rate)"

lemma bucket_step_refl [simp]: "bucket_step rate 0 g g"
  by (simp add: bucket_step_def)

lemma bucket_step_trans: "bucket_step rate m g g1 \<Longrightarrow> bucket_step rate n g1 g2 \<Longrightarrow> bucket_step rate (m + n) g g2"
  by (auto simp: bucket_step_def)

definition note_ok :: "Libs \<Rightarrow> ClientConfig \<Rightarrow> notification \<Rightarrow> bool" where
  "note_ok L cc x = (case x of (clk, ip, p) \<Rightarrow> in_int64 (unix (clk_edge clk)) \<and> trigger_ok L cc p)"

section \<open>One run\<close>

context seq_data_store
begin

lemma acquire_bucket:
  assumes "inv s" and "rate \<le> max_int64" and "0 < w" and "Acquire ds clk scope rate w s = ((ok, err), s')"
  shows "inv s' \<and> edges s' = edges s \<and> (b \<noteq> (scope, epoch_minute (clk 0)) \<longrightarrow> granted s' b = granted s b)
    \<and> (b = (scope, epoch_minute (clk 0)) \<longrightarrow>
         bucket_step rate (if ok \<and> err = None then 1 else 0) (granted s b) (granted s' b))"
proof (cases "0 < rate")
  case True
  show ?thesis
    using acquire [OF assms(1) True assms(2-4) refl] acquire_edges [OF assms]
    by (cases err) (auto simp: bucket_step_def split: if_splits)
next
  case False
  then show ?thesis using acquire_off [OF assms(1), of rate clk scope w] assms by (auto simp: bucket_step_def)
qed

lemma gate_bucket:
  assumes "inv s" and "rpm \<le> max_int64" and "gate_limit ds clk scope rpm msg s = (eo, s')"
  shows "inv s' \<and> edges s' = edges s \<and> (fst b \<noteq> scope \<longrightarrow> granted s' b = granted s b)
    \<and> (b = (scope, epoch_minute (clk 0)) \<and> 0 < rpm \<longrightarrow>
         bucket_step rpm (if eo = None then 1 else 0) (granted s b) (granted s' b))"
proof (cases "rpm > 0")
  case True
  obtain ok err s1 where a: "Acquire ds clk scope rpm minute s = ((ok, err), s1)" by (metis surj_pair)
  then have "s1 = s'" and "eo = None \<longleftrightarrow> ok \<and> err = None" using assms(3) True by (auto simp: gate_limit_def split: if_splits)
  then show ?thesis using acquire_bucket [OF assms(1,2) minute_pos a, of b] by auto
next
  case False
  then show ?thesis using assms by (simp add: gate_limit_def)
qed

lemma target_bucket:
  assumes "inv s" and "SNSRPM (Target (Trigger cc)) \<le> max_int64" and "target_limit ds clk c cc a g s = (r, s')"
  shows "inv s' \<and> edges s' = edges s \<and> (fst b \<noteq> target_scope c cc \<longrightarrow> granted s' b = granted s b)
    \<and> (b = (target_scope c cc, epoch_minute (clk 0)) \<and> 0 < SNSRPM (Target (Trigger cc)) \<longrightarrow>
         bucket_step (SNSRPM (Target (Trigger cc))) (if to_target r then 1 else 0) (granted s b) (granted s' b))
    \<and> (to_target r \<longrightarrow> publishes a)"
proof (cases "publishes a \<and> SNSRPM (Target (Trigger cc)) > 0")
  case True
  obtain ok err s1 where q: "Acquire ds clk (target_scope c cc) (SNSRPM (Target (Trigger cc))) minute s = ((ok, err), s1)"
    by (metis surj_pair)
  then have "s1 = s'" and "to_target r \<longleftrightarrow> ok \<and> err = None"
    using assms(3) True by (auto simp: target_limit_def target_scope_def publishes_def to_target_def admitted_def split: if_splits)
  then show ?thesis using acquire_bucket [OF assms(1,2) minute_pos q, of b] True by auto
next
  case False
  then show ?thesis using assms by (auto simp: target_limit_def publishes_def to_target_def split: if_splits)
qed

lemma evaluate_keeps:
  assumes "inv s" and "scope_ok k" and "in_int64 (unix t)" and "ValidString v" and "version_at (edges s (c, k)) < max_int64"
    and "EvaluateEdgeAndFlap L ds t c k v flap p s = (r, s')"
  shows "inv s' \<and> granted s' = granted s \<and> version_at (edges s' (c, k)) \<le> version_at (edges s (c, k)) + 1"
proof -
  obtain a g err where r: "r = (a, g, err)" by (cases r)
  obtain a1 g1 w where "edge_step L flap (unix t) v (enc_of L p) (map_option fst (edges s (c, k))) = (a1, g1, w)"
    by (metis surj_pair)
  from evaluate_outcome [OF assms(1-5) assms(6) [unfolded r] this] evaluate_granted [OF assms(1,6,2)]
  show ?thesis by (auto simp: committed_def)
qed

text \<open>What one run leaves of the store, and what it does to the client's and the target's bucket.\<close>

definition run_keeps where
  "run_keeps k c s s' \<longleftrightarrow> inv s' \<and> version_at (edges s' (c, k)) \<le> version_at (edges s (c, k)) + 1"

definition client_clause where
  "client_clause c cc clk r s s' \<longleftrightarrow>
     (0 < ClientRPM cc \<longrightarrow> (let b = (''CLIENT:'' @ c, epoch_minute (clk_client clk 0)) in
        bucket_step (ClientRPM cc) (if admitted r then 1 else 0) (granted s b) (granted s' b)))"

definition target_clause where
  "target_clause c cc clk r s s' \<longleftrightarrow>
     (0 < SNSRPM (Target (Trigger cc)) \<longrightarrow> (let b = (target_scope c cc, epoch_minute (clk_target clk 0)) in
        bucket_step (SNSRPM (Target (Trigger cc))) (if to_target r then 1 else 0) (granted s b) (granted s' b)))"

lemma scopes_apart:
  "target_scope c cc \<noteq> ''IP:'' @ ip" "''CLIENT:'' @ c' \<noteq> target_scope c cc"
  by (simp_all add: target_scope_def)

lemma run_trigger_bucket:
  assumes "inv s" and "config_range cc" and "note_ok L cc (clk, ip, p)"
    and "version_at (edges s (c, ComputeKey (FieldExpr (Trigger cc)))) < max_int64"
    and "run_trigger L clk c cc ds p s = (r, s')"
  shows "run_keeps (ComputeKey (FieldExpr (Trigger cc))) c s s' \<and> target_clause c cc clk r s s'
    \<and> (fst b \<noteq> target_scope c cc \<longrightarrow> granted s' b = granted s b)"
proof -
  have rate: "SNSRPM (Target (Trigger cc)) \<le> max_int64" using assms(2) by (simp add: config_range_def in_int64_def)
  let ?b = "(target_scope c cc, epoch_minute (clk_target clk 0))"
  show ?thesis
  proof (cases "EvalString L (FieldExpr (Trigger cc)) p")
    case (Inl x)
    then show ?thesis
      using assms by (auto simp: run_trigger_def run_keeps_def target_clause_def to_target_def admitted_def)
  next
    case (Inr vo)
    show ?thesis
    proof (cases vo)
      case None
      then show ?thesis
        using assms Inr by (auto simp: run_trigger_def run_keeps_def target_clause_def to_target_def target_limit_def publishes_def)
    next
      case (Some v)
      let ?k = "ComputeKey (FieldExpr (Trigger cc))"
      obtain a g err s1 where ev: "EvaluateEdgeAndFlap L ds (clk_edge clk) c ?k v (Flapping (Trigger cc)) p s = ((a, g, err), s1)"
        by (metis surj_pair)
      have "in_int64 (unix (clk_edge clk))" "ValidString v"
        using assms(3) Inr Some by (auto simp: note_ok_def trigger_ok_def)
      note keep = evaluate_keeps [OF assms(1) scope_ok_ComputeKey this assms(4) ev]
      show ?thesis
      proof (cases err)
        case None
        then have tl: "target_limit ds (clk_target clk) c cc a g s1 = (r, s')"
          using assms(5) Inr Some ev by (simp add: run_trigger_def)
        show ?thesis
          using keep target_bucket [OF _ rate tl, of b] target_bucket [OF _ rate tl, of ?b]
          by (auto simp: run_keeps_def target_clause_def Let_def)
      next
        case (Some x)
        then show ?thesis
          using assms(5) Inr \<open>vo = Some v\<close> ev keep
          by (auto simp: run_trigger_def run_keeps_def target_clause_def to_target_def admitted_def)
      qed
    qed
  qed
qed

lemma run_bucket:
  assumes inv: "inv s" and cc: "config_range cc" and ok: "note_ok L cc (clk, ip, p)"
    and ver: "version_at (edges s (c, ComputeKey (FieldExpr (Trigger cc)))) < max_int64"
    and run: "Run L clk c ip cc ds p s = (r, s')"
  shows "run_keeps (ComputeKey (FieldExpr (Trigger cc))) c s s' \<and> client_clause c cc clk r s s' \<and> target_clause c cc clk r s s'"
proof -
  have rates: "IPRPM cc \<le> max_int64" "ClientRPM cc \<le> max_int64" using cc by (simp_all add: config_range_def in_int64_def)
  let ?bc = "(''CLIENT:'' @ c, epoch_minute (clk_client clk 0))" and ?bt = "(target_scope c cc, epoch_minute (clk_target clk 0))"
  obtain e1 s1 where g1: "gate_limit ds (clk_ip clk) (''IP:'' @ ip) (IPRPM cc) ''rate limit (ip)'' s = (e1, s1)" by (metis surj_pair)
  have i1: "inv s1" "edges s1 = edges s" and c1: "granted s1 ?bc = granted s ?bc" and t1: "granted s1 ?bt = granted s ?bt"
    using gate_bucket [OF inv rates(1) g1, of ?bc] gate_bucket [OF inv rates(1) g1, of ?bt] by (simp_all add: target_scope_def)
  obtain e2 s2 where g2: "gate_limit ds (clk_client clk) (''CLIENT:'' @ c) (ClientRPM cc) ''rate limit (client)'' s1 = (e2, s2)"
    by (metis surj_pair)
  have i2: "inv s2" "edges s2 = edges s" and t2: "granted s2 ?bt = granted s ?bt"
    and c2: "0 < ClientRPM cc \<Longrightarrow> bucket_step (ClientRPM cc) (if e2 = None then 1 else 0) (granted s ?bc) (granted s2 ?bc)"
    using gate_bucket [OF i1(1) rates(2) g2, of ?bc] gate_bucket [OF i1(1) rates(2) g2, of ?bt] i1 c1 t1
    by (simp_all add: target_scope_def)
  note clauses = run_keeps_def client_clause_def target_clause_def Let_def admitted_def to_target_def publishes_def
  consider (ip) x where "e1 = Some x" "r = (NoOp, 202, p, Some x)" "s' = s1"
    | (client) x where "e1 = None" "e2 = Some x" "r = (NoOp, 202, p, Some x)" "s' = s2"
    | (pass) "e1 = None" "e2 = None" "r = (ForwardedAsIs, 202, p, None)" "s' = s2"
    | (trigger) "e1 = None" "e2 = None" "run_trigger L clk c cc ds p s2 = (r, s')"
    using run g1 g2 by (auto simp: Run_def status_defs split: option.splits if_splits)
  then show ?thesis
  proof cases
    case ip
    then show ?thesis using i1 c1 t1 by (simp add: clauses)
  next
    case client
    then show ?thesis using i2 c2 t2 by (simp add: clauses)
  next
    case pass
    then show ?thesis using i2 c2 t2 by (simp add: clauses)
  next
    case trigger
    have ver2: "version_at (edges s2 (c, ComputeKey (FieldExpr (Trigger cc)))) < max_int64" using ver i2 by simp
    note tb = run_trigger_bucket [OF i2(1) cc ok ver2 trigger(3), of ?bc]
    have "client_clause c cc clk r s s'"
      using tb c2 trigger(2) scopes_apart(2) [of c c cc] by (auto simp: client_clause_def Let_def bucket_step_def)
    then show ?thesis using tb i2 t2 by (simp add: run_keeps_def target_clause_def)
  qed
qed

section \<open>Series\<close>

lemma run_series_count:
  assumes "inv s" and cc: "config_range cc" and "\<forall>x \<in> set xs. note_ok L cc x"
    and "version_at (edges s (c, ComputeKey (FieldExpr (Trigger cc)))) + int (length xs) \<le> max_int64"
    and "run_series L c cc ds xs s = (rs, s')"
    and one: "\<And>clk ip p s r s1. (clk, ip, p) \<in> set xs \<Longrightarrow> client_clause c cc clk r s s1 \<Longrightarrow> target_clause c cc clk r s s1 \<Longrightarrow>
       bucket_step rate (if f r then 1 else 0) (granted s b) (granted s1 b)"
  shows "bucket_step rate (int (length (filter f rs))) (granted s b) (granted s' b)"
  using assms(1,3,4,5) one
proof (induction xs arbitrary: s rs)
  case (Cons x xs)
  obtain clk ip p where x: "x = (clk, ip, p)" by (cases x)
  obtain r s1 where r: "Run L clk c ip cc ds p s = (r, s1)" by (metis surj_pair)
  obtain rs1 where rs1: "run_series L c cc ds xs s1 = (rs1, s')" and rs: "rs = r # rs1"
    using Cons.prems(4) by (auto simp: x r split: prod.splits)
  have "version_at (edges s (c, ComputeKey (FieldExpr (Trigger cc)))) < max_int64" using Cons.prems(3) by simp
  note rb = run_bucket [OF Cons.prems(1) cc _ this r]
  have ok: "note_ok L cc (clk, ip, p)" using Cons.prems(2) x by simp
  have s1: "inv s1" "version_at (edges s1 (c, ComputeKey (FieldExpr (Trigger cc)))) + int (length xs) \<le> max_int64"
    using rb [OF ok] Cons.prems(3) by (auto simp: run_keeps_def)
  have head: "bucket_step rate (if f r then 1 else 0) (granted s b) (granted s1 b)"
    using Cons.prems(5) [of clk ip p r s s1] rb [OF ok] x by simp
  have tail: "bucket_step rate (int (length (filter f rs1))) (granted s1 b) (granted s' b)"
  proof (rule Cons.IH [OF s1(1) _ s1(2) rs1])
    show "\<forall>x \<in> set xs. note_ok L cc x" using Cons.prems(2) by simp
    show "bucket_step rate (if f r then 1 else 0) (granted s b) (granted s1 b)"
      if "(clk, ip, p) \<in> set xs" "client_clause c cc clk r s s1" "target_clause c cc clk r s s1" for clk ip p s r s1
      by (rule Cons.prems(5) [OF _ that(2,3), of ip p]) (use that(1) in simp)
  qed
  from bucket_step_trans [OF head tail] show ?case by (simp add: rs split: if_splits)
qed simp

lemma client_limit:
  assumes "inv s" and "config_range cc" and "\<forall>x \<in> set xs. note_ok L cc x"
    and "version_at (edges s (c, ComputeKey (FieldExpr (Trigger cc)))) + int (length xs) \<le> max_int64"
    and "run_series L c cc ds xs s = (rs, s')" and "0 < ClientRPM cc"
    and "\<forall>(clk, ip, p) \<in> set xs. epoch_minute (clk_client clk 0) = m"
  shows "bucket_step (ClientRPM cc) (int (length (filter admitted rs)))
    (granted s (''CLIENT:'' @ c, m)) (granted s' (''CLIENT:'' @ c, m))"
  by (rule run_series_count [OF assms(1-5)]) (use assms(6,7) in \<open>auto simp: client_clause_def Let_def\<close>)

lemma target_rate:
  assumes "inv s" and "config_range cc" and "\<forall>x \<in> set xs. note_ok L cc x"
    and "version_at (edges s (c, ComputeKey (FieldExpr (Trigger cc)))) + int (length xs) \<le> max_int64"
    and "run_series L c cc ds xs s = (rs, s')" and "0 < SNSRPM (Target (Trigger cc))"
    and "\<forall>(clk, ip, p) \<in> set xs. epoch_minute (clk_target clk 0) = m"
  shows "bucket_step (SNSRPM (Target (Trigger cc))) (int (length (filter to_target rs)))
    (granted s (target_scope c cc, m)) (granted s' (target_scope c cc, m))"
  by (rule run_series_count [OF assms(1-5)]) (use assms(6,7) in \<open>auto simp: target_clause_def Let_def\<close>)

end

end
