(* ===== verification/Flow_Properties.thy ===== *)
theory Flow_Properties
  imports Flow_Limits Edge_Properties
begin

text \<open>
  What \<^verbatim>\<open>Run\<close>, the rate limits, the scope keys and the configuration cache
  guarantee.
\<close>

section \<open>Concrete inputs\<close>

definition ref_clock :: "int \<Rightarrow> run_clock" where
  "ref_clock t = \<lparr>clk_ip = (\<lambda>_. t * second), clk_client = (\<lambda>_. t * second), clk_edge = t * second, clk_target = (\<lambda>_. t * second)\<rparr>"

definition ref_note :: "int \<Rightarrow> string \<Rightarrow> notification" where
  "ref_note t x = (ref_clock t, ''1.2.3.4'', ref_payload x)"

lemma sample_rates:
  "ClientRPM sample_config = 2" "SNSRPM (Target (Trigger sample_config)) = 1"
  by (simp_all add: sample_config_def)

lemma ref_eval: "EvalString ref_libs (FieldExpr (Trigger sample_config)) (ref_payload x) = Inr (Some x)"
  by (simp add: EvalString_def EvalAny_def ref_libs_def ref_search_def ref_payload_def sample_config_def)

lemma ref_trigger_ok: "ValidString x \<Longrightarrow> trigger_ok ref_libs sample_config (ref_payload x)"
  using ref_encodes by (auto simp: trigger_ok_def ref_eval)

lemma sample_note_ok: "in_int64 t \<Longrightarrow> ValidString x \<Longrightarrow> note_ok ref_libs sample_config (ref_note t x)"
  by (simp add: note_ok_def ref_note_def ref_clock_def ref_trigger_ok unix_def second_def)

definition sample_notes :: "notification list" where
  "sample_notes = [ref_note 1 ''a'', ref_note 2 ''b'', ref_note 3 ''a'']"

lemma sample_notes_ok:
  "\<forall>x \<in> set sample_notes. note_ok ref_libs sample_config x"
  "\<forall>(clk, ip, p) \<in> set sample_notes. epoch_minute (clk_client clk 0) = 0"
  "\<forall>(clk, ip, p) \<in> set sample_notes. epoch_minute (clk_target clk 0) = 0"
  by (simp add: sample_notes_def sample_note_ok ValidString_one in_int64_def min_int64_def max_int64_def)
    (simp_all add: sample_notes_def ref_note_def ref_clock_def epoch_minute_def unix_def second_def signed_divide_int_def)

section \<open>The pipeline\<close>

text \<open>
  C6: \<^verbatim>\<open>Run\<close> does what its specification says.  While the store answers, \<^verbatim>\<open>Run\<close> returns the action, the
  status, the payload and the error of \<^const>\<open>spec_run\<close> on the store's edges and grants: the limit per
  address, then the one per client, then the passthrough rule, then one step of the edge machine for the
  trigger's value under the key of the trigger expression, then the target limit; and the store ends
  with exactly the edges and grants of the specification.
\<close>

theorem Run_refines_spec_run:
  assumes "seq_data_store ds edges granted Inv up" and "Inv s" and "up s" and "config_range cc"
    and "in_int64 (unix (clk_edge clk))" and "trigger_ok L cc p"
    and "version_at (edges s (c, ComputeKey (FieldExpr (Trigger cc)))) < max_int64"
    and "spec_run L clk c ip cc p (edges s, granted s) = (r, V)"
  shows "\<exists>s'. Run L clk c ip cc ds p s = (r, s') \<and> Inv s' \<and> up s' \<and> (edges s', granted s') = V"
  using seq_data_store.run_refines [OF assms] .

lemma ref_granted_empty: "ref_granted empty_world b = 0"
  by (simp add: ddb_granted_def w_table_def empty_world_def)

theorem Run_refines_spec_run_witness:
  "\<exists>r V s'. spec_run ref_libs (ref_clock 1) ''c'' ''1.2.3.4'' sample_config (ref_payload ''a'')
        (ref_edges empty_world, ref_granted empty_world) = (r, V)
     \<and> Run ref_libs (ref_clock 1) ''c'' ''1.2.3.4'' sample_config ref_store (ref_payload ''a'') empty_world = (r, s')
     \<and> r = (EdgeTriggeredForward, 202, None, None) \<and> (ref_edges s', ref_granted s') = V"
proof -
  obtain r V where spec: "spec_run ref_libs (ref_clock 1) ''c'' ''1.2.3.4'' sample_config (ref_payload ''a'')
        (ref_edges empty_world, ref_granted empty_world) = (r, V)" by (metis surj_pair)
  then have r: "r = (EdgeTriggeredForward, 202, None, None)"
    using ref_eval [of "''a''"]
    by (auto simp: spec_run_def spec_gate_def spec_acquire_def spec_trigger_def spec_target_def sample_config_def
        CheckPassthrough_def edge_step_def publishes_def ref_edges_empty ref_granted_empty target_scope_def Let_def
        split: prod.splits)
  obtain s' where "Run ref_libs (ref_clock 1) ''c'' ''1.2.3.4'' sample_config ref_store (ref_payload ''a'') empty_world = (r, s')"
    "(ref_edges s', ref_granted s') = V"
    using Run_refines_spec_run [OF ref.store.seq_data_store_axioms, OF ref_inv_empty ref_up_empty sample_config_range
        _ _ _ spec]
    by (auto simp: ref_clock_def unix_def second_def in_int64_def min_int64_def max_int64_def ref_trigger_ok
        ValidString_one ref_edges_empty)
  with spec r show ?thesis by blast
qed

section \<open>Rate limits\<close>

text \<open>
  The client limit holds.  Of any series of notifications of one client whose rate check falls
  into one minute, at most \<^verbatim>\<open>ClientRPM\<close> (less what the minute had already granted) end without an error,
  whatever errors the store returns in between.
\<close>

lemma client_limit_bound:
  assumes "seq_data_store ds edges granted Inv up" and "Inv s" and "config_range cc"
    and "\<forall>x \<in> set xs. note_ok L cc x"
    and "version_at (edges s (c, ComputeKey (FieldExpr (Trigger cc)))) + int (length xs) \<le> max_int64"
    and "run_series L c cc ds xs s = (rs, s')" and "0 < ClientRPM cc"
    and "\<forall>(clk, ip, p) \<in> set xs. epoch_minute (clk_client clk 0) = m"
    and "granted s (''CLIENT:'' @ c, m) \<le> ClientRPM cc"
  shows "int (length (filter admitted rs)) \<le> ClientRPM cc - granted s (''CLIENT:'' @ c, m)"
  using seq_data_store.client_limit [OF assms(1-8)] assms(9) by (auto simp: bucket_step_def)

lemma client_limit_bound_witness:
  "int (length (filter admitted (fst (run_series ref_libs ''c'' sample_config ref_store sample_notes empty_world)))) \<le> 2"
proof -
  obtain rs s' where run: "run_series ref_libs ''c'' sample_config ref_store sample_notes empty_world = (rs, s')"
    by (metis surj_pair)
  have "int (length (filter admitted rs)) \<le> ClientRPM sample_config - ref_granted empty_world (''CLIENT:'' @ ''c'', 0)"
    by (rule client_limit_bound [OF ref.store.seq_data_store_axioms, OF ref_inv_empty sample_config_range sample_notes_ok(1)
          _ run _ sample_notes_ok(2)])
      (simp_all add: ref_edges_empty ref_granted_empty sample_notes_def sample_config_def max_int64_def)
  then show ?thesis by (simp add: run ref_granted_empty sample_rates)
qed

text \<open>
  The target limit holds.  Of any series of notifications of one client whose target check falls into
  one minute, at most \<^verbatim>\<open>SNSRPM\<close> (less what was already granted) come out as an edge forward or an
  aggregate to publish.
\<close>

lemma target_limit_bound:
  assumes "seq_data_store ds edges granted Inv up" and "Inv s" and "config_range cc"
    and "\<forall>x \<in> set xs. note_ok L cc x"
    and "version_at (edges s (c, ComputeKey (FieldExpr (Trigger cc)))) + int (length xs) \<le> max_int64"
    and "run_series L c cc ds xs s = (rs, s')" and "0 < SNSRPM (Target (Trigger cc))"
    and "\<forall>(clk, ip, p) \<in> set xs. epoch_minute (clk_target clk 0) = m"
    and "granted s (target_scope c cc, m) \<le> SNSRPM (Target (Trigger cc))"
  shows "int (length (filter to_target rs)) \<le> SNSRPM (Target (Trigger cc)) - granted s (target_scope c cc, m)"
  using seq_data_store.target_rate [OF assms(1-8)] assms(9) by (auto simp: bucket_step_def)

lemma target_limit_bound_witness:
  "int (length (filter to_target (fst (run_series ref_libs ''c'' sample_config ref_store sample_notes empty_world)))) \<le> 1"
proof -
  obtain rs s' where run: "run_series ref_libs ''c'' sample_config ref_store sample_notes empty_world = (rs, s')"
    by (metis surj_pair)
  have "int (length (filter to_target rs)) \<le> SNSRPM (Target (Trigger sample_config))
      - ref_granted empty_world (target_scope ''c'' sample_config, 0)"
    by (rule target_limit_bound [OF ref.store.seq_data_store_axioms, OF ref_inv_empty sample_config_range sample_notes_ok(1)
          _ run _ sample_notes_ok(3)])
      (simp_all add: ref_edges_empty ref_granted_empty sample_notes_def sample_config_def max_int64_def)
  then show ?thesis by (simp add: run ref_granted_empty sample_rates)
qed

section \<open>Early exits of the pipeline\<close>

text \<open>
  C38: a notification over the limit per address is answered with an error and the status 202, the action is
  \<^verbatim>\<open>NoOp\<close>, and neither the edges nor the grants change.
\<close>

theorem over_limit_answer:
  assumes "seq_data_store ds edges granted Inv up" and "Inv s" and "up s" and "config_range cc"
    and "0 < IPRPM cc" and "IPRPM cc \<le> granted s (''IP:'' @ ip, epoch_minute (clk_ip clk 0))"
  shows "\<exists>s'. Run L clk c ip cc ds p s = ((NoOp, 202, p, Some (ErrMsg ''rate limit (ip)'')), s')
    \<and> edges s' = edges s \<and> granted s' = granted s"
proof -
  have "spec_gate (clk_ip clk 0) (''IP:'' @ ip) (IPRPM cc) (granted s) = (False, granted s)"
    using assms(5,6) by (simp add: spec_gate_def spec_acquire_def)
  moreover have "IPRPM cc \<le> max_int64" using assms(4) by (simp add: config_range_def in_int64_def)
  ultimately obtain s' where "gate_limit ds (clk_ip clk) (''IP:'' @ ip) (IPRPM cc) ''rate limit (ip)'' s =
      (Some (ErrMsg ''rate limit (ip)''), s')" "edges s' = edges s" "granted s' = granted s"
    using seq_data_store.gate_refines [OF assms(1), where clk = "clk_ip clk", OF assms(2,3)] by fastforce
  then show ?thesis by (simp add: Run_def status_defs)
qed

text \<open>A world in which the address has used up its minute.\<close>

definition full_world :: world where
  "full_world = empty_world\<lparr>rows := [((''notify_guard'', pkRate ''IP:1.2.3.4'', skRateWin 0), [''count'' \<mapsto> AvN (FormatInt 10)])]\<rparr>"

lemma full_world_table:
  "w_table full_world tn rk = (if tn = ''notify_guard'' \<and> rk = (pkRate ''IP:1.2.3.4'', skRateWin 0)
     then Some [''count'' \<mapsto> AvN (FormatInt 10)] else None)"
  by (auto simp: w_table_def full_world_def)

lemma full_world_ok: "ref_inv full_world" "w_up full_world" "ref_granted full_world (''IP:1.2.3.4'', 0) = 10"
proof -
  have n: "count_row [''count'' \<mapsto> AvN (FormatInt 10)] 10" by (simp add: count_row_def max_int64_def)
  then show "ref_inv full_world" by (auto simp: ddb_inv_def full_world_table split: if_splits)
  show "w_up full_world" by (simp add: w_up_def full_world_def empty_world_def)
  have "in_int64 10" by (simp add: in_int64_def min_int64_def max_int64_def)
  then show "ref_granted full_world (''IP:1.2.3.4'', 0) = 10"
    by (simp add: ddb_granted_def full_world_table del: av_num.simps)
qed

theorem over_limit_answer_witness:
  "\<exists>s'. Run ref_libs (ref_clock 1) ''c'' ''1.2.3.4'' sample_config ref_store (ref_payload ''a'') full_world =
      ((NoOp, 202, ref_payload ''a'', Some (ErrMsg ''rate limit (ip)'')), s')
    \<and> ref_edges s' = ref_edges full_world \<and> ref_granted s' = ref_granted full_world"
proof -
  have "epoch_minute (clk_ip (ref_clock 1) 0) = 0"
    by (simp add: ref_clock_def epoch_minute_def unix_def second_def signed_divide_int_def)
  then show ?thesis
    by (intro over_limit_answer [OF ref.store.seq_data_store_axioms, OF full_world_ok(1,2) sample_config_range])
      (simp_all add: sample_config_def full_world_ok(3))
qed

section \<open>Scope keys\<close>

lemma digits_of_word: "uint (h :: 32 word) < 10 ^ 10"
proof -
  have "uint h < 2 ^ 32" using uint_lt2p [of h] by simp
  then show ?thesis by simp
qed

lemma length_format_nat: "n < 10 ^ k \<Longrightarrow> 0 < k \<Longrightarrow> length (format_nat n) \<le> k"
proof (induction n arbitrary: k rule: format_nat.induct)
  case (1 n)
  show ?case
  proof (cases "n < 10")
    case True
    then show ?thesis using 1 by (simp add: format_nat.simps)
  next
    case False
    then obtain j where k: "k = Suc j" and j: "0 < j" using "1.prems" by (cases k; cases "k - 1") auto
    have "n div 10 < 10 ^ j" using "1.prems"(1) k by (simp add: div_less_iff_less_mult mult.commute)
    then show ?thesis using "1.IH" [OF False _ j] False k by (simp add: format_nat.simps [of n])
  qed
qed

text \<open>
  \<^verbatim>\<open>ComputeKey\<close> yields a key of bounded length for every expression: the letter \<^verbatim>\<open>e\<close> and one to ten
  decimal digits, so it never contains the separators of the storage keys.
\<close>

lemma ComputeKey_format:
  "\<exists>ds. ComputeKey s = CHR ''e'' # ds \<and> 1 \<le> length ds \<and> length ds \<le> 10 \<and> list_all is_digit ds"
proof -
  let ?n = "nat (uint (fnv32a s))"
  have f: "FormatInt (uint (fnv32a s)) = format_nat ?n" by (simp add: FormatInt_def)
  have "?n < 10 ^ 10" using digits_of_word [of "fnv32a s"] by (subst nat_less_iff) simp_all
  then have "length (format_nat ?n) \<le> 10" by (rule length_format_nat) simp
  moreover have "1 \<le> length (format_nat ?n)" using format_nat_nonempty [of ?n] by (cases "format_nat ?n") auto
  ultimately show ?thesis using format_nat_digits [where n = ?n] by (simp add: ComputeKey_def f list_all_iff)
qed

section \<open>The configuration cache\<close>

text \<open>
  C34: the configuration cache.  After a configuration was read from the store it is served for 300
  seconds without asking the store again, whatever the store holds by then; after that the store is
  asked again.  A failed read is returned and not cached.
\<close>

theorem cached_config:
  assumes "TTL_Get cache i (clk 0) = None" and "LoadCachedClientConfig clk cs i (cache, s) = (r, cache1, s1)"
  shows "(case r of
      Inl err \<Rightarrow> GetClientConfig cs i s = (Inl err, s1) \<and> cache1 = cache
    | Inr cc \<Rightarrow> GetClientConfig cs i s = (Inr cc, s1)
        \<and> (if clk2 0 \<le> clk 1 + 300 * second
           then LoadCachedClientConfig clk2 cs2 i (cache1, s2) = (Inr cc, cache1, s2)
           else fst (LoadCachedClientConfig clk2 cs2 i (cache1, s2)) = fst (GetClientConfig cs2 i s2)))"
  using assms by (auto simp: LoadCachedClientConfig_def TTL_Get_Set_same split: sum.splits prod.splits)

abbreviation ref_clients :: "world ClientStore" where
  "ref_clients \<equiv> ddb_ClientStore ref_av ref_db ''notify_guard''"

text \<open>A world that holds the sample configuration.\<close>

definition client_world :: world where
  "client_world = empty_world\<lparr>rows :=
     [((''notify_guard'', pkClient ''c'', skProfile), ref_marshal_config (pkClient ''c'') skProfile sample_config)]\<rparr>"

lemma client_world_get: "GetClientConfig ref_clients ''c'' client_world = (Inr sample_config, client_world)"
  by (simp add: ddb_ClientStore_def ddb_GetClientConfig_def ref_db_def w_read_def next_fault_def client_world_def
      empty_world_def w_table_def ref_av_def ref_config [OF sample_config_range])

theorem cached_config_witness:
  "\<exists>cache1. LoadCachedClientConfig (\<lambda>_. 0) ref_clients ''c'' (NewTTL, client_world) = (Inr sample_config, cache1, client_world)
     \<and> LoadCachedClientConfig (\<lambda>_. 300 * second) ref_clients ''c'' (cache1, empty_world) = (Inr sample_config, cache1, empty_world)"
proof -
  obtain cache1 where l: "LoadCachedClientConfig (\<lambda>_. 0) ref_clients ''c'' (NewTTL, client_world) = (Inr sample_config, cache1, client_world)"
    by (auto simp: LoadCachedClientConfig_def client_world_get)
  from cached_config [OF _ l, of "\<lambda>_. 300 * second" ref_clients empty_world] l show ?thesis by auto
qed

end
