(* ===== verification/Http_Api.thy ===== *)
theory Http_Api
  imports Flow Go_Strings
begin

text \<open>
  \<^verbatim>\<open>internal/api/httphandler.go\<close>: the HTTP handler, with what it uses of \<^verbatim>\<open>net/http\<close>.  A handler acts on
  the response writer, the configuration cache and the state of the stores and the publisher.
\<close>

section \<open>net/http\<close>

text \<open>
  A body is the bytes it yields and the error it ends with, if any.  Headers are stored under their
  canonical names.
\<close>

record Request =
  Method :: string
  Path :: string
  Header :: "string \<Rightarrow> string list"
  RemoteAddr :: string
  Body :: "string \<times> go_error option"

definition Header_Get :: "(string \<Rightarrow> string list) \<Rightarrow> string \<Rightarrow> string" where
  "Header_Get h k = (case h (CanonicalMIMEHeaderKey k) of [] \<Rightarrow> [] | v # _ \<Rightarrow> v)"

text \<open>
  The response writer: the status and content type once they are sent, the content type set so far, the
  bytes written, and whether the connection still takes bytes.
\<close>

record ResponseWriter =
  status :: "int option"
  sent_type :: string
  content_type :: string
  written :: string
  open_conn :: bool

definition WriteHeader :: "int \<Rightarrow> ResponseWriter \<Rightarrow> ResponseWriter" where
  "WriteHeader code w =
     (if status w = None then w\<lparr>status := Some code, sent_type := content_type w\<rparr> else w)"

definition Write :: "string \<Rightarrow> ResponseWriter \<Rightarrow> go_error option \<times> ResponseWriter" where
  "Write b w =
     (let w1 = WriteHeader StatusOK w in
      if open_conn w1 then (None, w1\<lparr>written := written w1 @ b\<rparr>) else (Some (LibErr ''broken pipe''), w1))"

definition http_Error :: "string \<Rightarrow> int \<Rightarrow> ResponseWriter \<Rightarrow> ResponseWriter" where
  "http_Error msg code w =
     snd (Write (msg @ [CHR 0x0A]) (WriteHeader code (w\<lparr>content_type := ''text/plain; charset=utf-8''\<rparr>)))"

text \<open>
  \<^verbatim>\<open>io.ReadAll(io.LimitReader(body, n))\<close>: once \<^term>\<open>n\<close> bytes are read the limited reader reports the end
  without asking the body again.
\<close>

definition read_limited :: "nat \<Rightarrow> string \<times> go_error option \<Rightarrow> string \<times> go_error option" where
  "read_limited n b = (if n \<le> length (fst b) then (take n (fst b), None) else b)"

section \<open>The handler\<close>

record 's Handler =
  h_ClientStore :: "'s ClientStore"
  h_DataStore :: "'s DataStore"
  h_Pub :: "'s Publisher"

definition NewHandler :: "'s ClientStore \<Rightarrow> 's DataStore \<Rightarrow> 's Publisher \<Rightarrow> 's Handler" where
  "NewHandler cl es pub = \<lparr>h_ClientStore = cl, h_DataStore = es, h_Pub = pub\<rparr>"

definition clientIP :: "Request \<Rightarrow> string" where
  "clientIP r =
     (let xff = Header_Get (Header r) ''X-Forwarded-For'' in
      if xff \<noteq> [] then TrimSpace (split_first (CHR '','') xff)
      else (case SplitHostPort (RemoteAddr r) of
              Inl _ \<Rightarrow> RemoteAddr r
            | Inr (host, _) \<Rightarrow> host))"

text \<open>The encoder writes the text and a newline; nothing if the value does not marshal.\<close>

definition writeJSON :: "Libs \<Rightarrow> int \<Rightarrow> any \<Rightarrow> ResponseWriter \<Rightarrow> go_error option \<times> ResponseWriter" where
  "writeJSON L code v w =
     (let w1 = WriteHeader code (w\<lparr>content_type := ''application/json''\<rparr>) in
      case json_marshal L v of
        Inl e \<Rightarrow> (Some e, w1)
      | Inr b \<Rightarrow> Write (b @ [CHR 0x0A]) w1)"

definition status_body :: "Action \<Rightarrow> any" where
  "status_body a = AnyMap (Some [''status'' \<mapsto> AnyStr (StatusTextMap a)])"

definition answer :: "Libs \<Rightarrow> int \<Rightarrow> Action \<Rightarrow> ResponseWriter \<Rightarrow> ResponseWriter" where
  "answer L code a w =
     (case writeJSON L code (status_body a) w of
        (None, w1) \<Rightarrow> w1
      | (Some _, w1) \<Rightarrow> http_Error ''failed to write response'' StatusInternalServerError w1)"

text \<open>The two publishing cases of the switch.\<close>

definition publish_and_answer ::
    "Libs \<Rightarrow> 's Publisher \<Rightarrow> string \<Rightarrow> payload \<Rightarrow> Action \<Rightarrow> ResponseWriter \<Rightarrow> 's \<Rightarrow> ResponseWriter \<times> 's" where
  "publish_and_answer L pub arn p a w s =
     (case json_marshal L (AnyMap p) of
        Inl _ \<Rightarrow> (http_Error ''failed to marshal payload'' StatusInternalServerError w, s)
      | Inr b \<Rightarrow>
          (case PublishRaw pub arn b s of
             (Some _, s1) \<Rightarrow> (http_Error ''failed to publish'' StatusInternalServerError w, s1)
           | (None, s1) \<Rightarrow> (answer L StatusAccepted a w, s1)))"

definition notify_switch ::
    "Libs \<Rightarrow> 's Publisher \<Rightarrow> string \<Rightarrow> payload \<Rightarrow> run_result \<Rightarrow> ResponseWriter \<Rightarrow> 's \<Rightarrow> ResponseWriter \<times> 's" where
  "notify_switch L pub arn p r w s =
     (case r of (action, statusCode, newPayload, err) \<Rightarrow>
        (case err of
           Some e \<Rightarrow> (http_Error (error_text e) statusCode w, s)
         | None \<Rightarrow>
             (case action of
                NoOp \<Rightarrow> (answer L statusCode action w, s)
              | SuppressFlapping \<Rightarrow> (answer L statusCode action w, s)
              | SuppressDedup \<Rightarrow> (answer L statusCode action w, s)
              | AggregateSent \<Rightarrow> publish_and_answer L pub arn newPayload action w s
              | EdgeTriggeredForward \<Rightarrow> publish_and_answer L pub arn p action w s
              | ForwardedAsIs \<Rightarrow> publish_and_answer L pub arn p action w s)))"

text \<open>The clock of a request: for the configuration cache and for \<^verbatim>\<open>Run\<close>.\<close>

record req_clock =
  clk_cache :: clock
  clk_run :: run_clock

type_synonym cfg_cache = "(string, ClientConfig) TTL"

definition cfgCache_init :: cfg_cache where
  "cfgCache_init = NewTTL"

definition body_limit :: nat where
  "body_limit = 2 ^ 20"

text \<open>From the body on, for an authenticated client.\<close>

definition notify_body ::
    "Libs \<Rightarrow> req_clock \<Rightarrow> 's Handler \<Rightarrow> string \<Rightarrow> ClientConfig \<Rightarrow> Request \<Rightarrow> ResponseWriter \<Rightarrow> 's \<Rightarrow> ResponseWriter \<times> 's" where
  "notify_body L clk h clientID cc r w s =
     (case read_limited body_limit (Body r) of
        (_, Some _) \<Rightarrow> (http_Error ''read error'' StatusBadRequest w, s)
      | (body, None) \<Rightarrow>
          if length body = 0 then (http_Error ''empty body'' StatusBadRequest w, s)
          else (case json_unmarshal L body of
                  (_, Some _) \<Rightarrow> (http_Error ''invalid json'' StatusBadRequest w, s)
                | (p, None) \<Rightarrow>
                    (case Run L (clk_run clk) clientID (clientIP r) cc (h_DataStore h) p s of
                       (res, s1) \<Rightarrow> notify_switch L (h_Pub h) (SNSArn (Target (Trigger cc))) p res w s1)))"

definition handleNotify ::
    "Libs \<Rightarrow> req_clock \<Rightarrow> 's Handler \<Rightarrow> Request \<Rightarrow> ResponseWriter \<Rightarrow> cfg_cache \<times> 's \<Rightarrow>
       ResponseWriter \<times> cfg_cache \<times> 's" where
  "handleNotify L clk h r w st =
     (if Method r \<noteq> ''POST'' then (http_Error ''method not allowed'' StatusMethodNotAllowed w, st)
      else
        let clientID = Header_Get (Header r) ClientIDHdrName;
            clientKey = Header_Get (Header r) ClientKeyHdrName
        in (case LoadCachedClientConfig (clk_cache clk) (h_ClientStore h) clientID st of
              (Inl _, st1) \<Rightarrow> (http_Error ''unknown client'' StatusUnauthorized w, st1)
            | (Inr cc, cache, s1) \<Rightarrow>
                (case Auth cc clientID clientKey of
                   Some e \<Rightarrow> (http_Error (error_text e) StatusUnauthorized w, cache, s1)
                 | None \<Rightarrow>
                     (case notify_body L clk h clientID cc r w s1 of (w1, s2) \<Rightarrow> (w1, cache, s2)))))"

text \<open>The routes; \<^const>\<open>None\<close> is a path the multiplexer answers by itself.\<close>

definition Router ::
    "Libs \<Rightarrow> req_clock \<Rightarrow> 's Handler \<Rightarrow> Request \<Rightarrow> ResponseWriter \<Rightarrow> cfg_cache \<times> 's \<Rightarrow>
       (ResponseWriter \<times> cfg_cache \<times> 's) option" where
  "Router L clk h r w st =
     (if Path r = ''/notify'' then Some (handleNotify L clk h r w st)
      else if Path r = ''/health'' then Some (WriteHeader StatusOK w, st)
      else None)"

end
