(* ===== verification/Sns.thy ===== *)
theory Sns
  imports Ports
begin

text \<open>
  \<^verbatim>\<open>internal/pub/sns.go\<close>: the \<^verbatim>\<open>Publisher\<close> over SNS.  The SNS client is a parameter; \<open>publisher\<close> is the
  contract its callers rely on, in terms of the messages a topic has received.
\<close>

record MessageAttributeValue =
  DataType :: string
  StringValue :: "string option"

record PublishInput =
  TopicArn :: string
  Message :: string
  MessageAttributes :: "string \<Rightarrow> MessageAttributeValue option"

record 's SnsClient =
  Publish :: "PublishInput \<Rightarrow> 's \<Rightarrow> go_error option \<times> 's"

definition sns_PublishRaw :: "'s SnsClient \<Rightarrow> string \<Rightarrow> string \<Rightarrow> 's \<Rightarrow> go_error option \<times> 's" where
  "sns_PublishRaw cli arn p s =
     Publish cli
       \<lparr>TopicArn = arn, Message = p,
        MessageAttributes = [''content-type'' \<mapsto> \<lparr>DataType = ''String'', StringValue = Some ''application/json''\<rparr>]\<rparr> s"

definition NewSNS :: "'s SnsClient \<Rightarrow> 's Publisher" where
  "NewSNS cli = \<lparr>PublishRaw = sns_PublishRaw cli\<rparr>"

section \<open>The contract\<close>

text \<open>
  \<open>log s\<close> is the sequence of messages the topics have accepted.  A publish that succeeds adds one; one
  that fails may have been accepted or not.
\<close>

definition log_write :: "bool \<Rightarrow> 'a list \<Rightarrow> 'a \<Rightarrow> 'a list \<Rightarrow> bool" where
  "log_write ok old x new \<longleftrightarrow> (if ok then new = old @ [x] else new = old \<or> new = old @ [x])"

locale publisher =
  fixes pub :: "'s Publisher"
    and log :: "'s \<Rightarrow> (string \<times> string) list"
  assumes publish: "PublishRaw pub arn m s = (err, s') \<Longrightarrow> log_write (err = None) (log s) (arn, m) (log s')"

locale sns_service =
  fixes cli :: "'s SnsClient"
    and log :: "'s \<Rightarrow> (string \<times> string) list"
  assumes sns_publish:
    "Publish cli inp s = (err, s') \<Longrightarrow> log_write (err = None) (log s) (TopicArn inp, Message inp) (log s')"

sublocale sns_service \<subseteq> publisher "NewSNS cli" log
  by unfold_locales (auto simp: NewSNS_def sns_PublishRaw_def dest: sns_publish)

context sns_service
begin

lemmas publisher_contract = publisher_axioms

end

end
