(* ===== verification/Notify.thy ===== *)
theory Notify
  imports Http_Api Sns
begin

text \<open>
  The HTTP handler over its three collaborators.  \<open>quiet_stores\<close> are stores that publish nothing;
  \<open>notify_system\<close> adds a data store with its sequential contract and a publisher that leaves it alone.  In
  the first every request publishes at most one message, whatever fails; in the second the handler refines
  \<open>spec_run\<close>.
\<close>

section \<open>Responses\<close>

lemma status_WriteHeader: "status (WriteHeader code w) = (case status w of None \<Rightarrow> Some code | Some c \<Rightarrow> Some c)"
  by (simp add: WriteHeader_def split: option.splits)

lemma status_Write: "status (snd (Write b (WriteHeader code w))) = status (WriteHeader code w)"
  by (auto simp: Write_def WriteHeader_def Let_def)

lemma status_http_Error: "status w = None \<Longrightarrow> status (http_Error msg code w) = Some code"
  by (simp add: http_Error_def status_Write status_WriteHeader)

lemma status_http_Error_sent: "status w = Some c \<Longrightarrow> status (http_Error msg code w) = Some c"
  by (simp add: http_Error_def status_Write status_WriteHeader)

lemma status_writeJSON: "status w = None \<Longrightarrow> status (snd (writeJSON L code v w)) = Some code"
  by (cases "json_marshal L v") (simp_all add: writeJSON_def Let_def status_Write status_WriteHeader)

lemma status_answer:
  assumes "status w = None"
  shows "status (answer L code a w) = Some code"
proof -
  obtain e w1 where w: "writeJSON L code (status_body a) w = (e, w1)" by (cases "writeJSON L code (status_body a) w")
  then have "status w1 = Some code" using status_writeJSON [OF assms, of L code "status_body a"] by simp
  then show ?thesis by (cases e) (simp_all add: answer_def w status_http_Error_sent)
qed

text \<open>A writer at the start of a request, and the body of an answer on it.\<close>

definition fresh :: "ResponseWriter \<Rightarrow> bool" where
  "fresh w \<longleftrightarrow> status w = None \<and> open_conn w \<and> written w = []"

lemma answer_written:
  "fresh w \<Longrightarrow> json_marshal L (status_body a) = Inr b \<Longrightarrow> written (answer L code a w) = b @ [CHR 0x0A]"
  by (simp add: answer_def writeJSON_def Write_def WriteHeader_def fresh_def Let_def)

lemma http_Error_written: "fresh w \<Longrightarrow> written (http_Error msg code w) = msg @ [CHR 0x0A]"
  by (simp add: http_Error_def Write_def WriteHeader_def fresh_def Let_def)

section \<open>What a result of Run publishes\<close>

definition to_publish :: "payload \<Rightarrow> run_result \<Rightarrow> payload option" where
  "to_publish p r =
     (case r of (action, _, newPayload, err) \<Rightarrow>
        if err \<noteq> None then None
        else if action = AggregateSent then Some newPayload
        else if action = EdgeTriggeredForward \<or> action = ForwardedAsIs then Some p
        else None)"

definition result_status :: "run_result \<Rightarrow> int" where
  "result_status r = fst (snd r)"

text \<open>A payload that is to be published goes out with status 202.\<close>

definition result_ok :: "payload \<Rightarrow> run_result \<Rightarrow> bool" where
  "result_ok p r \<longleftrightarrow> result_status r \<in> {202, 400, 429, 500} \<and> (to_publish p r \<noteq> None \<longrightarrow> result_status r = 202)"

lemma result_ok_intros:
  "result_ok p (a, 202, g, e)" "result_ok p (a, 400, g, Some x)" "result_ok p (a, 500, g, Some x)"
  "result_ok p (NoOp, 429, g, None)"
  by (simp_all add: result_ok_def result_status_def to_publish_def)

lemma target_limit_ok: "target_limit ds k c cc a g s = (r, s') \<Longrightarrow> result_ok p r"
  by (auto simp: target_limit_def status_defs Let_def result_ok_intros split: if_splits prod.splits)

lemma run_trigger_ok: "run_trigger L clk c cc ds p s = (r, s') \<Longrightarrow> result_ok p r"
  by (auto simp: run_trigger_def status_defs result_ok_intros
      split: sum.splits option.splits prod.splits if_splits dest: target_limit_ok)

lemma Run_ok: "Run L clk c ip cc ds p s = (r, s') \<Longrightarrow> result_ok p r"
  by (auto simp: Run_def status_defs result_ok_intros split: option.splits prod.splits if_splits dest: run_trigger_ok)

lemma notify_switch_quiet:
  "to_publish p r = None \<Longrightarrow> notify_switch L pub arn p r w s = (w', s') \<Longrightarrow>
     s' = s \<and> (status w = None \<longrightarrow> status w' = Some (result_status r))"
  by (auto simp: notify_switch_def to_publish_def result_status_def status_answer status_http_Error
      split: prod.splits option.splits Action.splits if_splits)

lemma notify_switch_publish:
  "to_publish p r = Some q \<Longrightarrow> notify_switch L pub arn p r w s = publish_and_answer L pub arn q (fst r) w s"
  by (auto simp: notify_switch_def to_publish_def split: prod.splits option.splits Action.splits if_splits)

section \<open>A committed edge is settled\<close>

lemma edge_step_LastValue: "edge_step L flap now v enc eo = (a, g, Some e) \<Longrightarrow> LastValue e = v"
  by (auto simp: edge_step_def split: option.splits prod.splits if_splits dest: flip_step_keeps(1))

lemma edge_step_publishes: "edge_step L flap now v enc eo = (a, g, w) \<Longrightarrow> publishes a \<Longrightarrow> w \<noteq> None"
  by (auto simp: edge_step_def publishes_def split: option.splits prod.splits if_splits)

lemma spec_trigger_published:
  assumes "spec_trigger L clk c cc p (E, G) = (r, E1, G1)" and "publishes (fst r)" and "k = ComputeKey (FieldExpr (Trigger cc))"
  shows "\<exists>v e ver. EvalString L (FieldExpr (Trigger cc)) p = Inr (Some v) \<and> E1 (c, k) = Some (e, ver) \<and> LastValue e = v"
proof -
  obtain v where v: "EvalString L (FieldExpr (Trigger cc)) p = Inr (Some v)"
    using assms(1,2) by (auto simp: spec_trigger_def publishes_def split: sum.splits option.splits)
  obtain a g w where st: "edge_step L (Flapping (Trigger cc)) (unix (clk_edge clk)) v (enc_of L p) (map_option fst (E (c, k))) = (a, g, w)"
    by (metis surj_pair)
  obtain r2 G2 where tg: "spec_target (clk_target clk 0) c cc a g G = (r2, G2)" by (metis surj_pair)
  have r: "r = r2" "E1 = (case w of None \<Rightarrow> E | Some e \<Rightarrow> E((c, k) \<mapsto> (stored k e, version_at (E (c, k)) + 1)))"
    using assms(1,3) v st tg by (auto simp: spec_trigger_def Let_def)
  have "publishes a" using tg assms(2) r(1) by (auto simp: spec_target_def publishes_def split: if_splits prod.splits)
  then obtain e where "w = Some e" using edge_step_publishes [OF st] by auto
  then show ?thesis using v r(2) edge_step_LastValue [OF st [unfolded \<open>w = Some e\<close>]] by simp
qed

lemma spec_run_published:
  assumes "spec_run L clk c ip cc p (E, G) = (r, E1, G1)" and "publishes (fst r)" and "k = ComputeKey (FieldExpr (Trigger cc))"
  shows "\<not> CheckPassthrough L (Passthrough cc) p \<and> FieldExpr (Trigger cc) \<noteq> [] \<and>
    (\<exists>v e ver. EvalString L (FieldExpr (Trigger cc)) p = Inr (Some v) \<and> E1 (c, k) = Some (e, ver) \<and> LastValue e = v)"
proof -
  have "\<not> CheckPassthrough L (Passthrough cc) p \<and> FieldExpr (Trigger cc) \<noteq> [] \<and> (\<exists>G2. spec_trigger L clk c cc p (E, G2) = (r, E1, G1))"
    using assms(1,2) by (auto simp: spec_run_def publishes_def split: prod.splits if_splits)
  then show ?thesis using spec_trigger_published assms(2,3) by blast
qed

lemma spec_run_settled:
  assumes "\<not> CheckPassthrough L (Passthrough cc) p" and "FieldExpr (Trigger cc) \<noteq> []"
    and "EvalString L (FieldExpr (Trigger cc)) p = Inr (Some v)"
    and "E (c, ComputeKey (FieldExpr (Trigger cc))) = Some (e, ver)" and "LastValue e = v"
    and "spec_run L clk c ip cc p (E, G) = (r, V)"
  shows "to_publish p r = None \<and> fst V = E"
proof -
  have "spec_trigger L clk c cc p (E, G2) = ((NoOp, 202, None, None), E, G2)" for G2
    using assms(3-5) by (simp add: spec_trigger_def edge_step_def spec_target_def publishes_def Let_def)
  then show ?thesis
    using assms(1,2,6) by (auto simp: spec_run_def to_publish_def split: prod.splits if_splits)
qed

context seq_data_store
begin

lemma retry_publishes_nothing:
  assumes s: "inv s" "up s" and cc: "config_range cc" and ok: "trigger_ok L cc p" and k: "k = ComputeKey (FieldExpr (Trigger cc))"
    and now: "in_int64 (unix (clk_edge clk))" "in_int64 (unix (clk_edge clk'))"
    and ver: "version_at (edges s (c, k)) < max_int64" "version_at (edges s2 (c, k)) < max_int64"
    and r1: "Run L clk c ip cc ds p s = (r, s1)" "publishes (fst r)"
    and s2: "inv s2" "up s2" "edges s2 = edges s1"
    and r2: "Run L clk' c ip' cc ds p s2 = (r', s3)"
  shows "to_publish p r' = None \<and> edges s3 = edges s2"
proof -
  obtain ra V where sp: "spec_run L clk c ip cc p (edges s, granted s) = (ra, V)" by (metis surj_pair)
  have V: "ra = r" "V = (edges s1, granted s1)"
    using run_refines [OF s cc now(1) ok ver(1) [unfolded k] sp] r1(1) by auto
  obtain rb V' where sp': "spec_run L clk' c ip' cc p (edges s2, granted s2) = (rb, V')" by (metis surj_pair)
  have V': "rb = r'" "V' = (edges s3, granted s3)"
    using run_refines [OF s2(1,2) cc now(2) ok ver(2) [unfolded k] sp'] r2 by auto
  from spec_run_published [OF sp [unfolded V] r1(2) k] obtain v e vv where
    "\<not> CheckPassthrough L (Passthrough cc) p" "FieldExpr (Trigger cc) \<noteq> []"
    "EvalString L (FieldExpr (Trigger cc)) p = Inr (Some v)" "edges s1 (c, k) = Some (e, vv)" "LastValue e = v" by blast
  from spec_run_settled [OF this(1-3) _ this(5) sp'] this(4) show ?thesis by (simp add: V' s2(3) k)
qed

end

section \<open>Every request publishes at most once\<close>

locale quiet_stores =
  fixes ds :: "'s DataStore"
    and cs :: "'s ClientStore"
    and log :: "'s \<Rightarrow> (string \<times> string) list"
  assumes acquire_quiet: "Acquire ds clk scope rate w s = (ar, s') \<Longrightarrow> log s' = log s"
    and load_quiet: "Load ds c k s = (lr, s') \<Longrightarrow> log s' = log s"
    and upsert_quiet: "UpsertCAS ds c k pv e s = (ur, s') \<Longrightarrow> log s' = log s"
    and get_quiet: "GetClientConfig cs i s = (gr, s') \<Longrightarrow> log s' = log s"
begin

lemma evaluate_quiet: "EvaluateEdgeAndFlap L ds t c k v flap p s = (r, s') \<Longrightarrow> log s' = log s"
  using load_quiet [of c k s] upsert_quiet
  by (auto simp: EvaluateEdgeAndFlap_def Let_def split: prod.splits dest!: evaluate_loaded_upsert)

lemma gate_quiet: "gate_limit ds clk scope rpm msg s = (r, s') \<Longrightarrow> log s' = log s"
  by (auto simp: gate_limit_def split: if_splits prod.splits dest: acquire_quiet)

lemma target_quiet: "target_limit ds clk c cc a g s = (r, s') \<Longrightarrow> log s' = log s"
  by (auto simp: target_limit_def Let_def split: if_splits prod.splits dest: acquire_quiet)

lemma trigger_quiet:
  assumes "run_trigger L clk c cc ds p s = (r, s')"
  shows "log s' = log s"
proof -
  let ?k = "ComputeKey (FieldExpr (Trigger cc))"
  have "log s2 = log s" if "EvaluateEdgeAndFlap L ds (clk_edge clk) c ?k v (Flapping (Trigger cc)) p s = (x, s1)"
    "target_limit ds (clk_target clk) c cc a g s1 = (y, s2)" for v x s1 a g y s2
    using evaluate_quiet [OF that(1)] target_quiet [OF that(2)] by simp
  then show ?thesis
    using assms by (auto simp: run_trigger_def split: sum.splits option.splits prod.splits if_splits
        dest: target_quiet evaluate_quiet)
qed

lemma run_quiet:
  assumes "Run L clk c ip cc ds p s = (r, s')"
  shows "log s' = log s"
proof -
  obtain e1 s1 where g1: "gate_limit ds (clk_ip clk) (''IP:'' @ ip) (IPRPM cc) ''rate limit (ip)'' s = (e1, s1)" by (metis surj_pair)
  obtain e2 s2 where g2: "gate_limit ds (clk_client clk) (''CLIENT:'' @ c) (ClientRPM cc) ''rate limit (client)'' s1 = (e2, s2)"
    by (metis surj_pair)
  show ?thesis
    using assms g1 g2 gate_quiet [OF g1] gate_quiet [OF g2] trigger_quiet
    by (auto simp: Run_def split: option.splits if_splits)
qed

lemma load_config_quiet: "LoadCachedClientConfig clk cs i (cache, s) = (r, cache', s') \<Longrightarrow> log s' = log s"
  by (auto simp: LoadCachedClientConfig_def split: option.splits prod.splits sum.splits dest: get_quiet)

end

text \<open>
  The message of a request: what the published payload marshals to, for a parsed body, an authenticated
  client and a result of \<^verbatim>\<open>Run\<close> that asks for it.
\<close>

definition request_client :: "Request \<Rightarrow> string" where
  "request_client r = Header_Get (Header r) ClientIDHdrName"

definition request_key :: "Request \<Rightarrow> string" where
  "request_key r = Header_Get (Header r) ClientKeyHdrName"

locale notify_stores = quiet_stores ds cs log + publisher pub log
  for ds :: "'s DataStore" and cs log pub
begin

lemma publish_and_answer_log:
  assumes "publish_and_answer L pub arn p a w s = (w', s')" and "status w = None"
  shows "log s' = log s \<and> status w' = Some 500
    \<or> (\<exists>m. json_marshal L (AnyMap p) = Inr m \<and> log s' = log s @ [(arn, m)] \<and> status w' \<in> {Some 202, Some 500})"
proof (cases "json_marshal L (AnyMap p)")
  case (Inl e)
  then show ?thesis using assms by (auto simp: publish_and_answer_def status_http_Error status_defs)
next
  case (Inr m)
  obtain e s1 where q: "PublishRaw pub arn m s = (e, s1)" by (cases "PublishRaw pub arn m s")
  show ?thesis
    using assms Inr q publish [OF q]
    by (cases e) (auto simp: publish_and_answer_def log_write_def status_http_Error status_answer status_defs)
qed

lemma notify_body_log:
  assumes "notify_body L clk \<lparr>h_ClientStore = cs, h_DataStore = ds, h_Pub = pub\<rparr> c cc r w s = (w', s')" and "status w = None"
  shows "status w' \<in> Some ` {202, 400, 429, 500}
    \<and> (log s' = log s \<or> (\<exists>m. log s' = log s @ [(SNSArn (Target (Trigger cc)), m)] \<and> status w' \<in> {Some 202, Some 500}))"
proof -
  obtain body be where b: "read_limited body_limit (Body r) = (body, be)" by (cases "read_limited body_limit (Body r)")
  obtain p pe where u: "json_unmarshal L body = (p, pe)" by (cases "json_unmarshal L body")
  obtain res s1 where run: "Run L (clk_run clk) c (clientIP r) cc ds p s = (res, s1)" by (metis surj_pair)
  note ok = Run_ok [OF run] and quiet = run_quiet [OF run]
  consider (early) "be \<noteq> None \<or> body = [] \<or> pe \<noteq> None" | (run) "be = None" "body \<noteq> []" "pe = None" by blast
  then show ?thesis
  proof cases
    case early
    then show ?thesis using assms b u
      by (auto simp: notify_body_def status_http_Error status_defs split: option.splits if_splits)
  next
    case run': run
    then have sw: "notify_switch L pub (SNSArn (Target (Trigger cc))) p res w s1 = (w', s')"
      using assms(1) b u run by (simp add: notify_body_def)
    show ?thesis
    proof (cases "to_publish p res")
      case None
      then show ?thesis using notify_switch_quiet [OF None sw] assms(2) ok quiet by (auto simp: result_ok_def)
    next
      case (Some q)
      then show ?thesis
        using publish_and_answer_log [OF sw [unfolded notify_switch_publish [OF Some]] assms(2)] quiet by auto
    qed
  qed
qed

lemma handle_notify_log:
  assumes "handleNotify L clk \<lparr>h_ClientStore = cs, h_DataStore = ds, h_Pub = pub\<rparr> r w (cache, s) = (w', cache', s')"
    and "status w = None"
  shows "status w' \<in> Some ` {202, 400, 401, 405, 429, 500}
    \<and> (log s' = log s \<or>
        (\<exists>cc m s1. Method r = ''POST'' \<and> LoadCachedClientConfig (clk_cache clk) cs (request_client r) (cache, s) = (Inr cc, cache', s1)
           \<and> Auth cc (request_client r) (request_key r) = None
           \<and> log s' = log s @ [(SNSArn (Target (Trigger cc)), m)] \<and> status w' \<in> {Some 202, Some 500}))"
proof -
  let ?c = "request_client r"
  obtain lr c1 s1 where l: "LoadCachedClientConfig (clk_cache clk) cs ?c (cache, s) = (lr, c1, s1)" by (metis surj_pair)
  have q: "log s1 = log s" by (rule load_config_quiet [OF l])
  consider (other_verb) "Method r \<noteq> ''POST''" | (unknown) e where "Method r = ''POST''" "lr = Inl e"
    | (denied) cc e where "Method r = ''POST''" "lr = Inr cc" "Auth cc ?c (request_key r) = Some e"
    | (run) cc where "Method r = ''POST''" "lr = Inr cc" "Auth cc ?c (request_key r) = None"
    by (metis not_None_eq sum.exhaust)
  then show ?thesis
  proof cases
    case (run cc)
    obtain w2 s2 where b: "notify_body L clk \<lparr>h_ClientStore = cs, h_DataStore = ds, h_Pub = pub\<rparr> ?c cc r w s1 = (w2, s2)"
      by (metis surj_pair)
    have "w' = w2" "cache' = c1" "s' = s2"
      using assms(1) run l b by (simp_all add: handleNotify_def request_client_def request_key_def Let_def)
    then show ?thesis using notify_body_log [OF b assms(2)] q run l by auto
  qed (use assms l q in \<open>auto simp: handleNotify_def request_client_def request_key_def Let_def status_http_Error status_defs\<close>)
qed

end

section \<open>The handler refines spec_run\<close>

text \<open>The topic messages and the text of the answer that a result of \<^verbatim>\<open>Run\<close> stands for.\<close>

definition messages :: "Libs \<Rightarrow> ClientConfig \<Rightarrow> payload \<Rightarrow> run_result \<Rightarrow> (string \<times> string) list" where
  "messages L cc p r =
     (case to_publish p r of
        None \<Rightarrow> []
      | Some q \<Rightarrow> [(SNSArn (Target (Trigger cc)), projr (json_marshal L (AnyMap q)))])"

definition reply_text :: "Libs \<Rightarrow> run_result \<Rightarrow> string" where
  "reply_text L r =
     (case r of (a, _, _, err) \<Rightarrow>
        (case err of Some e \<Rightarrow> error_text e | None \<Rightarrow> projr (json_marshal L (status_body a)))) @ [CHR 0x0A]"

definition marshals :: "Libs \<Rightarrow> payload \<Rightarrow> run_result \<Rightarrow> bool" where
  "marshals L p r \<longleftrightarrow>
     (\<exists>b. json_marshal L (status_body (fst r)) = Inr b)
     \<and> (case to_publish p r of None \<Rightarrow> True | Some q \<Rightarrow> \<exists>m. json_marshal L (AnyMap q) = Inr m)"

locale notify_system = seq_data_store ds edges granted inv up + notify_stores ds cs log pub
  for ds :: "'s DataStore" and edges granted inv up cs log pub +
  assumes publish_frame:
      "PublishRaw pub arn m s = (err, s') \<Longrightarrow> inv s \<Longrightarrow>
         inv s' \<and> edges s' = edges s \<and> granted s' = granted s \<and> (up s \<longrightarrow> up s' \<and> err = None)"
    and get_frame:
      "GetClientConfig cs i s = (gr, s') \<Longrightarrow> inv s \<Longrightarrow>
         inv s' \<and> edges s' = edges s \<and> granted s' = granted s \<and> (up s \<longrightarrow> up s')"
begin

lemma load_config_frame:
  "LoadCachedClientConfig clk cs i (cache, s) = (r, cache', s') \<Longrightarrow> inv s \<Longrightarrow> up s \<Longrightarrow>
     inv s' \<and> up s' \<and> edges s' = edges s \<and> granted s' = granted s"
  by (auto simp: LoadCachedClientConfig_def split: option.splits prod.splits sum.splits dest: get_frame)

lemma switch_refines:
  assumes "inv s" and "up s" and "fresh w" and "marshals L p r" and "result_ok p r"
  shows "\<exists>w' s'. notify_switch L pub (SNSArn (Target (Trigger cc))) p r w s = (w', s') \<and> inv s' \<and> up s'
    \<and> edges s' = edges s \<and> granted s' = granted s \<and> log s' = log s @ messages L cc p r
    \<and> status w' = Some (result_status r) \<and> written w' = reply_text L r"
proof (cases "to_publish p r")
  case None
  obtain a code g err where r: "r = (a, code, g, err)" by (cases r)
  obtain b where b: "json_marshal L (status_body a) = Inr b" using assms(4) r by (auto simp: marshals_def)
  have st: "status w = None" using assms(3) by (simp add: fresh_def)
  show ?thesis
    using None assms st answer_written [OF assms(3) b] http_Error_written [OF assms(3)] b
    by (cases err; cases a)
      (auto simp: notify_switch_def messages_def r result_status_def reply_text_def status_answer status_http_Error to_publish_def)
next
  case (Some q)
  then have r: "snd (snd (snd r)) = None" "result_status r = 202"
    using assms(5) by (auto simp: to_publish_def result_ok_def split: prod.splits if_splits)
  obtain b m where bm: "json_marshal L (status_body (fst r)) = Inr b" "json_marshal L (AnyMap q) = Inr m"
    using assms(4) Some by (auto simp: marshals_def)
  obtain e s1 where q: "PublishRaw pub (SNSArn (Target (Trigger cc))) m s = (e, s1)"
    by (cases "PublishRaw pub (SNSArn (Target (Trigger cc))) m s")
  have st: "status w = None" using assms(3) by (simp add: fresh_def)
  show ?thesis
    unfolding notify_switch_publish [OF Some]
    using assms(1,2) publish_frame [OF q assms(1)] publish [OF q] q bm r Some st answer_written [OF assms(3) bm(1)]
    by (cases r) (auto simp: publish_and_answer_def log_write_def messages_def status_answer status_defs reply_text_def)
qed

lemma notify_refines:
  assumes s: "inv s" "up s" and w: "fresh w" and post: "Method r = ''POST''"
    and l: "LoadCachedClientConfig (clk_cache clk) cs (request_client r) (cache, s) = (Inr cc, cache', s1)"
    and auth: "Auth cc (request_client r) (request_key r) = None"
    and body: "read_limited body_limit (Body r) = (body, None)" "body \<noteq> []" "json_unmarshal L body = (p, None)"
    and cc: "config_range cc" and now: "in_int64 (unix (clk_edge (clk_run clk)))" and ok: "trigger_ok L cc p"
    and ver: "version_at (edges s (request_client r, ComputeKey (FieldExpr (Trigger cc)))) < max_int64"
    and spec: "spec_run L (clk_run clk) (request_client r) (clientIP r) cc p (edges s, granted s) = (res, V)"
    and m: "marshals L p res"
  shows "\<exists>w' s'. handleNotify L clk \<lparr>h_ClientStore = cs, h_DataStore = ds, h_Pub = pub\<rparr> r w (cache, s) = (w', cache', s')
    \<and> inv s' \<and> up s' \<and> (edges s', granted s') = V \<and> log s' = log s @ messages L cc p res
    \<and> status w' = Some (result_status res) \<and> written w' = reply_text L res"
proof -
  have s1: "inv s1" "up s1" "edges s1 = edges s" "granted s1 = granted s" using load_config_frame [OF l s] by auto
  obtain s2 where run: "Run L (clk_run clk) (request_client r) (clientIP r) cc ds p s1 = (res, s2)" "inv s2" "up s2"
      "(edges s2, granted s2) = V"
    using run_refines [OF s1(1,2) cc now ok, of "request_client r" "clientIP r" res V] ver spec s1 by auto
  obtain w' s' where sw: "notify_switch L pub (SNSArn (Target (Trigger cc))) p res w s2 = (w', s')" "inv s'" "up s'"
      "edges s' = edges s2" "granted s' = granted s2" "log s' = log s2 @ messages L cc p res"
      "status w' = Some (result_status res)" "written w' = reply_text L res"
    using switch_refines [OF run(2,3) w m Run_ok [OF run(1)]] by blast
  have "notify_body L clk \<lparr>h_ClientStore = cs, h_DataStore = ds, h_Pub = pub\<rparr> (request_client r) cc r w s1 = (w', s')"
    using body run(1) sw(1) by (simp add: notify_body_def)
  then have "handleNotify L clk \<lparr>h_ClientStore = cs, h_DataStore = ds, h_Pub = pub\<rparr> r w (cache, s) = (w', cache', s')"
    using post l auth by (simp add: handleNotify_def request_client_def request_key_def Let_def)
  then show ?thesis using sw run run_quiet [OF run(1)] load_config_quiet [OF l] by auto
qed

end

end
