(* ===== verification/Redis.thy ===== *)
theory Redis
  imports Ports
begin

text \<open>
  The third-party interfaces of the Redis backend: the commands of \<^verbatim>\<open>go-redis\<close> and the JSON package.  Both
  are parameters (records of operations); the laws their documentation promises, for the calls the
  program makes, are the locales \<open>redis_json\<close> and \<open>redis_service\<close>.
\<close>

section \<open>Commands\<close>

text \<open>The values the program passes to \<^verbatim>\<open>HMSet\<close>, and the text Redis stores for each.\<close>

datatype redis_arg = ArgStr string | ArgInt int | ArgBytes string

fun arg_text :: "redis_arg \<Rightarrow> string" where
  "arg_text (ArgStr x) = x"
| "arg_text (ArgInt i) = FormatInt i"
| "arg_text (ArgBytes b) = b"

text \<open>\<^verbatim>\<open>HMGet\<close> is only called with one field, so its result is that field's value or nil.\<close>

record 's Redis =
  HGetAll :: "string \<Rightarrow> 's \<Rightarrow> (go_error + (string \<times> string) list) \<times> 's"
  HMSet :: "string \<Rightarrow> (string \<times> redis_arg) list \<Rightarrow> 's \<Rightarrow> go_error option \<times> 's"
  HMGet :: "string \<Rightarrow> string \<Rightarrow> 's \<Rightarrow> (go_error + string option) \<times> 's"
  HGet :: "string \<Rightarrow> string \<Rightarrow> 's \<Rightarrow> (go_error + string) \<times> 's"
  HIncrBy :: "string \<Rightarrow> string \<Rightarrow> int \<Rightarrow> 's \<Rightarrow> go_error option \<times> 's"
  RExpire :: "string \<Rightarrow> duration \<Rightarrow> 's \<Rightarrow> go_error option \<times> 's"
  RKeys :: "string \<Rightarrow> 's \<Rightarrow> (go_error + string list) \<times> 's"
  RGet :: "string \<Rightarrow> 's \<Rightarrow> (go_error + string) \<times> 's"
  RSet :: "string \<Rightarrow> string \<Rightarrow> duration \<Rightarrow> 's \<Rightarrow> go_error option \<times> 's"
  RDel :: "string list \<Rightarrow> 's \<Rightarrow> go_error option \<times> 's"

record JsonCodec =
  flips_Marshal :: "Flip list \<Rightarrow> go_error + string"
  flips_Unmarshal :: "string \<Rightarrow> go_error + Flip list"
  config_Marshal :: "ClientConfig \<Rightarrow> go_error + string"
  config_Unmarshal :: "string \<Rightarrow> go_error + ClientConfig"

section \<open>The keyspace\<close>

type_synonym hash = "string \<Rightarrow> string option"

datatype redis_value = RHash hash | RStr string

type_synonym keyspace = "string \<Rightarrow> redis_value option"

text \<open>The hash at a key, empty if there is none; \<^const>\<open>None\<close> for a key of another type.\<close>

definition hash_at :: "keyspace \<Rightarrow> string \<Rightarrow> hash option" where
  "hash_at K key =
     (case K key of None \<Rightarrow> Some Map.empty | Some (RHash h) \<Rightarrow> Some h | Some (RStr _) \<Rightarrow> None)"

definition set_fields :: "hash \<Rightarrow> (string \<times> redis_arg) list \<Rightarrow> hash" where
  "set_fields h fs = foldl (\<lambda>h (f, a). h(f \<mapsto> arg_text a)) h fs"

text \<open>After an error a write may or may not have happened.\<close>

definition redis_write :: "keyspace \<Rightarrow> keyspace \<Rightarrow> go_error option \<Rightarrow> keyspace \<Rightarrow> bool" where
  "redis_write old new err K \<longleftrightarrow> (if err = None then K = new else K = old \<or> K = new)"

text \<open>Patterns without glob characters match themselves; a final star matches any suffix.\<close>

definition plain_pattern :: "string \<Rightarrow> bool" where
  "plain_pattern p \<longleftrightarrow> set p \<inter> {CHR ''*'', CHR ''?'', CHR ''['', CHR '']'', CHR 0x5C} = {}"

section \<open>The laws\<close>

locale redis_json =
  fixes js :: JsonCodec
  assumes flips_json:
      "\<forall>f \<in> set fs. flip_range f \<Longrightarrow> \<exists>b. flips_Marshal js fs = Inr b \<and> flips_Unmarshal js b = Inr fs"
    and config_json:
      "config_range cc \<Longrightarrow> \<exists>b. config_Marshal js cc = Inr b \<and> config_Unmarshal js b = Inr cc"

locale redis_service =
  fixes r :: "'s Redis"
    and keyspace :: "'s \<Rightarrow> keyspace"
    and up :: "'s \<Rightarrow> bool"
  assumes hgetall:
      "HGetAll r key s = (gr, s') \<Longrightarrow> hash_at (keyspace s) key = Some h \<Longrightarrow>
         keyspace s' = keyspace s \<and> (up s \<longrightarrow> up s' \<and> (\<exists>m. gr = Inr m)) \<and> gr \<noteq> Inl RedisNil
         \<and> (\<forall>m. gr = Inr m \<longrightarrow> map_of m = h)"
    and hmset:
      "HMSet r key fs s = (err, s') \<Longrightarrow> hash_at (keyspace s) key = Some h \<Longrightarrow>
         redis_write (keyspace s) ((keyspace s)(key \<mapsto> RHash (set_fields h fs))) err (keyspace s')
         \<and> (up s \<longrightarrow> up s' \<and> err = None)"
    and hmget:
      "HMGet r key f s = (mr, s') \<Longrightarrow> hash_at (keyspace s) key = Some h \<Longrightarrow>
         keyspace s' = keyspace s \<and> (up s \<longrightarrow> up s' \<and> (\<exists>x. mr = Inr x)) \<and> mr \<noteq> Inl RedisNil
         \<and> (\<forall>x. mr = Inr x \<longrightarrow> x = h f)"
    and hget:
      "HGet r key f s = (fr, s') \<Longrightarrow> hash_at (keyspace s) key = Some h \<Longrightarrow>
         keyspace s' = keyspace s \<and> (up s \<longrightarrow> up s' \<and> ((\<exists>x. fr = Inr x) \<or> fr = Inl RedisNil))
         \<and> (\<forall>x. fr = Inr x \<longrightarrow> h f = Some x) \<and> (fr = Inl RedisNil \<longrightarrow> h f = None)"
    and hincrby:
      "HIncrBy r key f d s = (err, s') \<Longrightarrow> hash_at (keyspace s) key = Some h \<Longrightarrow>
         (h f = None \<and> n = 0 \<or> h f = Some (FormatInt n)) \<Longrightarrow> in_int64 n \<Longrightarrow> in_int64 (n + d) \<Longrightarrow>
         redis_write (keyspace s) ((keyspace s)(key \<mapsto> RHash (h(f \<mapsto> FormatInt (n + d))))) err (keyspace s')
         \<and> (up s \<longrightarrow> up s' \<and> err = None)"
    and expire:
      "RExpire r key d s = (err, s') \<Longrightarrow> 0 < d \<Longrightarrow> keyspace s' = keyspace s \<and> (up s \<longrightarrow> up s' \<and> err = None)"
    and keys:
      "RKeys r pat s = (kr, s') \<Longrightarrow>
         keyspace s' = keyspace s \<and> (up s \<longrightarrow> up s' \<and> (\<exists>ks. kr = Inr ks))
         \<and> (\<forall>ks. kr = Inr ks \<longrightarrow> plain_pattern pat \<longrightarrow> set ks = {k. k = pat \<and> keyspace s k \<noteq> None})
         \<and> (\<forall>ks p. kr = Inr ks \<longrightarrow> pat = p @ ''*'' \<longrightarrow> plain_pattern p \<longrightarrow>
              set ks = {k. take (length p) k = p \<and> keyspace s k \<noteq> None})"
    and rget:
      "RGet r key s = (vr, s') \<Longrightarrow> (\<forall>h. keyspace s key \<noteq> Some (RHash h)) \<Longrightarrow>
         keyspace s' = keyspace s \<and> (up s \<longrightarrow> up s' \<and> ((\<exists>x. vr = Inr x) \<or> vr = Inl RedisNil))
         \<and> (\<forall>x. vr = Inr x \<longrightarrow> keyspace s key = Some (RStr x)) \<and> (vr = Inl RedisNil \<longrightarrow> keyspace s key = None)"
    and rset:
      "RSet r key x 0 s = (err, s') \<Longrightarrow>
         redis_write (keyspace s) ((keyspace s)(key \<mapsto> RStr x)) err (keyspace s') \<and> (up s \<longrightarrow> up s' \<and> err = None)"
    and rdel:
      "RDel r ks s = (err, s') \<Longrightarrow> ks \<noteq> [] \<Longrightarrow>
         redis_write (keyspace s) (\<lambda>k. if k \<in> set ks then None else keyspace s k) err (keyspace s')
         \<and> (up s \<longrightarrow> up s' \<and> err = None)"

end
