(* ===== verification/Redis_Store.thy ===== *)
theory Redis_Store
  imports Redis
begin

text \<open>
  \<^verbatim>\<open>internal/backends/redis/datastore.go\<close>: the \<^verbatim>\<open>DataStore\<close> over Redis.  The sublocale at the end shows that,
  used by one caller at a time, it keeps the sequential part of the contract (\<open>seq_data_store\<close>); it does
  not keep the part about stale versions.
\<close>

section \<open>Keys\<close>

definition getDataKeyName :: "string \<Rightarrow> string \<Rightarrow> string" where
  "getDataKeyName clientID scopeKey = ''_enoti_data_'' @ clientID @ ''_s'' @ scopeKey"

definition getWindowKeyName :: "string \<Rightarrow> int \<Rightarrow> string" where
  "getWindowKeyName key epochMin = ''_enoti_rwin_'' @ key @ ''_'' @ FormatInt epochMin"

section \<open>Operations\<close>

text \<open>\<^verbatim>\<open>m[f]\<close> of a Go map: the zero value for a missing key.\<close>

definition field :: "(string \<times> string) list \<Rightarrow> string \<Rightarrow> string" where
  "field m f = (case map_of m f of None \<Rightarrow> [] | Some x \<Rightarrow> x)"

definition num_err :: "string \<Rightarrow> num_error \<Rightarrow> go_error" where
  "num_err what e = Wrap what (LibErr (case e of ErrSyntax \<Rightarrow> ''invalid syntax'' | ErrRange \<Rightarrow> ''value out of range''))"

text \<open>The part of \<^verbatim>\<open>Load\<close> that reads the fields, over the lookup \<^term>\<open>get\<close> of the map.\<close>

definition parse_edge :: "JsonCodec \<Rightarrow> string \<Rightarrow> (string \<Rightarrow> string) \<Rightarrow> Edge option \<times> int \<times> go_error option" where
  "parse_edge js scopeKey get =
     (case ParseInt (get ''ver'') of
        Inl e \<Rightarrow> (None, 0, Some (num_err ''invalid ver'' e))
      | Inr ver \<Rightarrow>
     (case ParseInt (get ''last_change_ts'') of
        Inl e \<Rightarrow> (None, 0, Some (num_err ''invalid last_change_ts'' e))
      | Inr lastChangeTS \<Rightarrow>
     (case ParseInt (get ''window_start'') of
        Inl e \<Rightarrow> (None, 0, Some (num_err ''invalid window_start'' e))
      | Inr windowStart \<Rightarrow>
     (case Atoi (get ''flip_count'') of
        Inl e \<Rightarrow> (None, 0, Some (num_err ''invalid flip_count'' e))
      | Inr flipCount \<Rightarrow>
     (case ParseInt (get ''agg_until_ts'') of
        Inl e \<Rightarrow> (None, 0, Some (num_err ''invalid agg_until_ts'' e))
      | Inr aggUntilTS \<Rightarrow>
     (case flips_Unmarshal js (get ''recent'') of
        Inl e \<Rightarrow> (None, 0, Some (Wrap ''invalid recent'' e))
      | Inr recent \<Rightarrow>
          (Some \<lparr>ScopeKey = scopeKey, LastValue = get ''last_value'', LastChangeTS = lastChangeTS,
                 WindowStart = windowStart, FlipCount = flipCount, Recent = recent,
                 AggUntilTS = aggUntilTS, Version = 0\<rparr>, ver, None)))))))"

definition redis_Load ::
    "JsonCodec \<Rightarrow> 's Redis \<Rightarrow> string \<Rightarrow> string \<Rightarrow> 's \<Rightarrow> (Edge option \<times> int \<times> go_error option) \<times> 's" where
  "redis_Load js r clientID scopeKey s =
     (case HGetAll r (getDataKeyName clientID scopeKey) s of
        (Inl e, s1) \<Rightarrow> if e = RedisNil then ((None, 0, None), s1) else ((None, 0, Some e), s1)
      | (Inr m, s1) \<Rightarrow> if length m = 0 then ((None, 0, None), s1) else (parse_edge js scopeKey (field m), s1))"

text \<open>The create branch of \<^verbatim>\<open>UpsertCAS\<close>, and the update once the version was found current.\<close>

definition redis_create ::
    "JsonCodec \<Rightarrow> 's Redis \<Rightarrow> string \<Rightarrow> string \<Rightarrow> Edge \<Rightarrow> 's \<Rightarrow> (bool \<times> go_error option) \<times> 's" where
  "redis_create js r clientID scopeKey nxt s =
     (case flips_Marshal js (Recent nxt) of
        Inl e \<Rightarrow> ((False, Some e), s)
      | Inr recentMarshaled \<Rightarrow>
          (case HMSet r (getDataKeyName clientID scopeKey)
                  [(''scope_key'', ArgStr (ScopeKey nxt)), (''last_value'', ArgStr (LastValue nxt)),
                   (''last_change_ts'', ArgInt (LastChangeTS nxt)), (''window_start'', ArgInt (WindowStart nxt)),
                   (''flip_count'', ArgInt (FlipCount nxt)), (''recent'', ArgBytes recentMarshaled),
                   (''agg_until_ts'', ArgInt (AggUntilTS nxt)), (''ver'', ArgInt (Version nxt))] s of
             (Some e, s1) \<Rightarrow> ((False, Some e), s1)
           | (None, s1) \<Rightarrow> ((True, None), s1)))"

definition redis_update ::
    "JsonCodec \<Rightarrow> 's Redis \<Rightarrow> string \<Rightarrow> string \<Rightarrow> int \<Rightarrow> Edge \<Rightarrow> 's \<Rightarrow> (bool \<times> go_error option) \<times> 's" where
  "redis_update js r clientID scopeKey currentVersion nxt s =
     (case flips_Marshal js (Recent nxt) of
        Inl e \<Rightarrow> ((False, Some e), s)
      | Inr recentMarshaled \<Rightarrow>
          (case HMSet r (getDataKeyName clientID scopeKey)
                  [(''last_value'', ArgStr (LastValue nxt)), (''last_change_ts'', ArgInt (LastChangeTS nxt)),
                   (''window_start'', ArgInt (WindowStart nxt)), (''flip_count'', ArgInt (FlipCount nxt)),
                   (''recent'', ArgStr recentMarshaled), (''agg_until_ts'', ArgInt (AggUntilTS nxt)),
                   (''ver'', ArgInt (add64 currentVersion 1))] s of
             (err, s1) \<Rightarrow> ((True, err), s1)))"

text \<open>
  The version test of the update: an early result of \<^verbatim>\<open>UpsertCAS\<close>, or the version that was found
  current.  It is a command of its own, so the commands of other callers may come between it and the write.
\<close>

definition redis_check ::
    "'s Redis \<Rightarrow> string \<Rightarrow> string \<Rightarrow> int \<Rightarrow> 's \<Rightarrow> ((bool \<times> go_error option) + int) \<times> 's" where
  "redis_check r clientID scopeKey prevVersion s =
     (case HMGet r (getDataKeyName clientID scopeKey) ''ver'' s of
        (Inl e, s1) \<Rightarrow> if e = RedisNil then (Inl (False, None), s1) else (Inl (False, Some e), s1)
      | (Inr currentVerObj, s1) \<Rightarrow>
          (case currentVerObj of
             None \<Rightarrow> (Inl (False, None), s1)
           | Some currentVerStr \<Rightarrow>
               if currentVerStr = [] then (Inl (False, None), s1)
               else (case ParseInt currentVerStr of
                       Inl e \<Rightarrow> (Inl (False, Some (num_err ''invalid ver'' e)), s1)
                     | Inr currentVersion \<Rightarrow>
                         if currentVersion \<noteq> prevVersion then (Inl (False, None), s1)
                         else (Inr currentVersion, s1))))"

definition redis_UpsertCAS ::
    "JsonCodec \<Rightarrow> 's Redis \<Rightarrow> string \<Rightarrow> string \<Rightarrow> int \<Rightarrow> Edge \<Rightarrow> 's \<Rightarrow> (bool \<times> go_error option) \<times> 's" where
  "redis_UpsertCAS js r clientID scopeKey prevVersion nxt s =
     (let nxt = nxt\<lparr>ScopeKey := scopeKey\<rparr> in
      if prevVersion = 0 then redis_create js r clientID scopeKey (nxt\<lparr>Version := 1\<rparr>) s
      else (case redis_check r clientID scopeKey prevVersion s of
              (Inl res, s1) \<Rightarrow> (res, s1)
            | (Inr currentVersion, s1) \<Rightarrow> redis_update js r clientID scopeKey currentVersion nxt s1))"

text \<open>The increment for a bucket that does not exist yet, with its expiry.\<close>

definition redis_first_hit :: "'s Redis \<Rightarrow> string \<Rightarrow> duration \<Rightarrow> 's \<Rightarrow> (bool \<times> go_error option) \<times> 's" where
  "redis_first_hit r cacheKey window s =
     (case HIncrBy r cacheKey ''count'' 1 s of
        (Some e1, s1) \<Rightarrow> ((False, Some e1), s1)
      | (None, s1) \<Rightarrow> (case RExpire r cacheKey (2 * window) s1 of (e2, s2) \<Rightarrow> ((e2 = None, e2), s2)))"

definition redis_next_hit :: "'s Redis \<Rightarrow> string \<Rightarrow> 's \<Rightarrow> (bool \<times> go_error option) \<times> 's" where
  "redis_next_hit r cacheKey s =
     (case HIncrBy r cacheKey ''count'' 1 s of
        (Some e, s1) \<Rightarrow> ((False, Some e), s1)
      | (None, s1) \<Rightarrow> ((True, None), s1))"

text \<open>
  The read of the count: an early result of \<^verbatim>\<open>Acquire\<close>, or whether the bucket is new.  It too is a command
  of its own.
\<close>

definition redis_count ::
    "'s Redis \<Rightarrow> string \<Rightarrow> int \<Rightarrow> 's \<Rightarrow> ((bool \<times> go_error option) + bool) \<times> 's" where
  "redis_count r cacheKey ratePerWindow s =
     (case HGet r cacheKey ''count'' s of
        (Inl e, s1) \<Rightarrow> if e = RedisNil then (Inr True, s1) else (Inl (False, Some e), s1)
      | (Inr v, s1) \<Rightarrow>
          if v \<noteq> [] then
            (case Atoi v of
               Inl e \<Rightarrow> (Inl (False, Some (num_err ''invalid count'' e)), s1)
             | Inr count \<Rightarrow>
                 if count \<ge> ratePerWindow then (Inl (False, None), s1) else (Inr False, s1))
          else (Inr False, s1))"

definition redis_hit :: "'s Redis \<Rightarrow> bool \<Rightarrow> string \<Rightarrow> duration \<Rightarrow> 's \<Rightarrow> (bool \<times> go_error option) \<times> 's" where
  "redis_hit r new cacheKey window s =
     (if new then redis_first_hit r cacheKey window s else redis_next_hit r cacheKey s)"

definition redis_Acquire ::
    "'s Redis \<Rightarrow> clock \<Rightarrow> string \<Rightarrow> int \<Rightarrow> duration \<Rightarrow> 's \<Rightarrow> (bool \<times> go_error option) \<times> 's" where
  "redis_Acquire r clk key ratePerWindow window s =
     (if ratePerWindow \<le> 0 then ((False, None), s)
      else let epochMin = unix (clk 0) sdiv 60;
               cacheKey = getWindowKeyName key epochMin
           in (case redis_count r cacheKey ratePerWindow s of
                 (Inl res, s1) \<Rightarrow> (res, s1)
               | (Inr new, s1) \<Rightarrow> redis_hit r new cacheKey window s1))"

definition redis_DataStore :: "JsonCodec \<Rightarrow> 's Redis \<Rightarrow> 's DataStore" where
  "redis_DataStore js r =
     \<lparr>Acquire = redis_Acquire r, Load = redis_Load js r, UpsertCAS = redis_UpsertCAS js r\<rparr>"

section \<open>The sequential contract\<close>

definition hash_field :: "hash \<Rightarrow> string \<Rightarrow> string" where
  "hash_field h f = (case h f of None \<Rightarrow> [] | Some x \<Rightarrow> x)"

definition edge_hash :: "JsonCodec \<Rightarrow> Edge \<Rightarrow> hash \<Rightarrow> bool" where
  "edge_hash js e h \<longleftrightarrow>
     h ''last_value'' = Some (LastValue e) \<and> h ''last_change_ts'' = Some (FormatInt (LastChangeTS e))
     \<and> h ''window_start'' = Some (FormatInt (WindowStart e)) \<and> h ''flip_count'' = Some (FormatInt (FlipCount e))
     \<and> (\<exists>b. h ''recent'' = Some b \<and> flips_Unmarshal js b = Inr (Recent e))
     \<and> h ''agg_until_ts'' = Some (FormatInt (AggUntilTS e)) \<and> h ''ver'' = Some (FormatInt (Version e))
     \<and> edge_range e \<and> 0 < Version e \<and> Version e \<le> max_int64"

definition count_hash :: "hash \<Rightarrow> int \<Rightarrow> bool" where
  "count_hash h n \<longleftrightarrow> h ''count'' = Some (FormatInt n) \<and> 0 \<le> n \<and> n \<le> max_int64"

definition redis_edges :: "JsonCodec \<Rightarrow> keyspace \<Rightarrow> edge_map" where
  "redis_edges js K ck =
     (case K (getDataKeyName (fst ck) (snd ck)) of
        Some (RHash h) \<Rightarrow>
          (case parse_edge js (snd ck) (hash_field h) of
             (Some e, v, None) \<Rightarrow> if scope_ok (snd ck) then Some (e, v) else None
           | _ \<Rightarrow> None)
      | _ \<Rightarrow> None)"

definition redis_granted :: "keyspace \<Rightarrow> string \<times> int \<Rightarrow> int" where
  "redis_granted K b =
     (case K (getWindowKeyName (fst b) (snd b)) of
        Some (RHash h) \<Rightarrow> (case ParseInt (hash_field h ''count'') of Inl _ \<Rightarrow> 0 | Inr n \<Rightarrow> n)
      | _ \<Rightarrow> 0)"

definition redis_inv :: "JsonCodec \<Rightarrow> keyspace \<Rightarrow> bool" where
  "redis_inv js K \<longleftrightarrow>
     (\<forall>c k x. scope_ok k \<longrightarrow> K (getDataKeyName c k) = Some x \<longrightarrow> (\<exists>h e. x = RHash h \<and> edge_hash js e h))
     \<and> (\<forall>scope m x. K (getWindowKeyName scope m) = Some x \<longrightarrow> (\<exists>h n. x = RHash h \<and> count_hash h n))"

lemma getDataKeyName_inject:
  assumes "scope_ok k" and "scope_ok k'"
  shows "getDataKeyName c k = getDataKeyName c' k' \<longleftrightarrow> c = c' \<and> k = k'"
  using assms append_sep_inject_right [of c "CHR ''_''" "CHR ''s'' # k" c' "CHR ''s'' # k'"]
  by (auto simp: getDataKeyName_def scope_ok_def)

lemma getWindowKeyName_inject [simp]:
  "getWindowKeyName a m = getWindowKeyName b n \<longleftrightarrow> a = b \<and> m = n"
  using append_sep_inject_right [of a "CHR ''_''" "FormatInt m" b "FormatInt n"]
  by (auto simp: getWindowKeyName_def FormatInt_inject)

lemma redis_keys_apart [simp]:
  "getDataKeyName c k \<noteq> getWindowKeyName a m" "getWindowKeyName a m \<noteq> getDataKeyName c k"
  by (simp_all add: getDataKeyName_def getWindowKeyName_def)

lemma parse_edge_hash:
  "edge_hash js e h \<Longrightarrow> parse_edge js k (hash_field h) = (Some (stored k e), Version e, None)"
  by (auto simp: edge_hash_def parse_edge_def hash_field_def edge_range_def ParseInt_FormatInt Atoi_FormatInt stored_def
      in_int64_def min_int64_def)

lemma field_map_of: "map_of m = h \<Longrightarrow> field m = hash_field h"
  by (rule ext) (auto simp: field_def hash_field_def)

lemma redis_edges_hash:
  "scope_ok k \<Longrightarrow> K (getDataKeyName c k) = Some (RHash h) \<Longrightarrow> edge_hash js e h \<Longrightarrow>
     redis_edges js K (c, k) = Some (stored k e, Version e)"
  by (simp add: redis_edges_def parse_edge_hash)

lemma redis_edges_set:
  assumes "scope_ok k" and "edge_hash js e h"
  shows "redis_edges js (K(getDataKeyName c k \<mapsto> RHash h)) = (redis_edges js K)((c, k) \<mapsto> (stored k e, Version e))"
proof
  fix x :: "string \<times> string"
  obtain c' k' where x: "x = (c', k')" by (cases x)
  show "redis_edges js (K(getDataKeyName c k \<mapsto> RHash h)) x = ((redis_edges js K)((c, k) \<mapsto> (stored k e, Version e))) x"
  proof (cases "scope_ok k'")
    case True
    then show ?thesis
      using assms getDataKeyName_inject [OF True assms(1), of c' c]
      by (auto simp: x redis_edges_def parse_edge_hash)
  next
    case False
    then show ?thesis
      using assms(1) by (auto simp: x redis_edges_def split: option.splits redis_value.splits prod.splits)
  qed
qed

lemma redis_granted_set_data [simp]: "redis_granted (K(getDataKeyName c k := x)) = redis_granted K"
  by (rule ext) (simp add: redis_granted_def)

lemma redis_edges_set_window [simp]: "redis_edges js (K(getWindowKeyName a m := x)) = redis_edges js K"
  by (rule ext) (simp add: redis_edges_def)

lemma redis_inv_set_data:
  "redis_inv js K \<Longrightarrow> scope_ok k \<Longrightarrow> edge_hash js e h \<Longrightarrow> redis_inv js (K(getDataKeyName c k \<mapsto> RHash h))"
  by (auto simp: redis_inv_def)

lemma redis_inv_set_window:
  "redis_inv js K \<Longrightarrow> count_hash h n \<Longrightarrow> redis_inv js (K(getWindowKeyName a m \<mapsto> RHash h))"
  by (auto simp: redis_inv_def)

lemma count_hash_range: "count_hash h n \<Longrightarrow> in_int64 n"
  by (simp add: count_hash_def in_int64_def min_int64_def)

lemma redis_granted_hash:
  "K (getWindowKeyName a m) = Some (RHash h) \<Longrightarrow> count_hash h n \<Longrightarrow> redis_granted K (a, m) = n"
  using count_hash_range [of h n] by (simp add: redis_granted_def hash_field_def count_hash_def ParseInt_FormatInt)

lemma redis_granted_set:
  assumes "count_hash h n"
  shows "redis_granted (K(getWindowKeyName a m \<mapsto> RHash h)) = (redis_granted K)((a, m) := n)"
proof
  fix b :: "string \<times> int"
  show "redis_granted (K(getWindowKeyName a m \<mapsto> RHash h)) b = ((redis_granted K)((a, m) := n)) b"
    using redis_granted_hash [OF _ assms, of "K(getWindowKeyName a m \<mapsto> RHash h)" a m]
    by (cases b) (auto simp: redis_granted_def)
qed

section \<open>The store keeps the sequential contract\<close>

lemma redis_inv_hash_data:
  "redis_inv js K \<Longrightarrow> scope_ok k \<Longrightarrow> \<exists>h. hash_at K (getDataKeyName c k) = Some h"
  unfolding redis_inv_def hash_at_def by (cases "K (getDataKeyName c k)") fastforce+

lemma redis_inv_hash_window: "redis_inv js K \<Longrightarrow> \<exists>h. hash_at K (getWindowKeyName a m) = Some h"
  unfolding redis_inv_def hash_at_def by (cases "K (getWindowKeyName a m)") fastforce+

text \<open>What is at a key, in the three views of the keyspace.\<close>

lemma redis_data_cases:
  assumes "redis_inv js K" and "scope_ok k"
  obtains (absent) "K (getDataKeyName c k) = None" "hash_at K (getDataKeyName c k) = Some Map.empty"
      "redis_edges js K (c, k) = None"
  | (present) h e where "K (getDataKeyName c k) = Some (RHash h)" "hash_at K (getDataKeyName c k) = Some h"
      "edge_hash js e h" "redis_edges js K (c, k) = Some (stored k e, Version e)"
proof (cases "K (getDataKeyName c k)")
  case None
  then show ?thesis by (intro absent) (simp_all add: hash_at_def redis_edges_def)
next
  case (Some x)
  then obtain h e where "x = RHash h" "edge_hash js e h" using assms unfolding redis_inv_def by blast
  with Some assms show ?thesis by (intro present) (simp_all add: hash_at_def redis_edges_hash)
qed

lemma redis_window_cases:
  assumes "redis_inv js K"
  obtains (absent) "hash_at K (getWindowKeyName a m) = Some Map.empty" "redis_granted K (a, m) = 0"
  | (present) h n where "hash_at K (getWindowKeyName a m) = Some h" "count_hash h n" "redis_granted K (a, m) = n"
proof (cases "K (getWindowKeyName a m)")
  case None
  then show ?thesis by (intro absent) (simp_all add: hash_at_def redis_granted_def)
next
  case (Some x)
  then obtain h n where "x = RHash h" "count_hash h n" using assms unfolding redis_inv_def by blast
  with Some show ?thesis by (intro present) (simp_all add: hash_at_def redis_granted_hash)
qed

lemma redis_granted_nonneg:
  assumes "redis_inv js K"
  shows "0 \<le> redis_granted K b"
proof -
  have "0 \<le> redis_granted K (fst b, snd b)"
    by (rule redis_window_cases [OF assms, of "fst b" "snd b"]) (simp_all add: count_hash_def)
  then show ?thesis by simp
qed

lemma redis_edges_SomeD:
  assumes "redis_inv js K" and "redis_edges js K (c, k) = Some (e, v)"
  shows "0 < v \<and> v \<le> max_int64 \<and> edge_range e \<and> stored k e = e"
proof -
  have "scope_ok k"
    using assms(2) by (auto simp: redis_edges_def split: option.splits redis_value.splits prod.splits if_splits)
  from assms(1) this show ?thesis
    by (rule redis_data_cases [where c = c]) (use assms(2) in \<open>auto simp: edge_hash_def\<close>)
qed

locale redis_backend = redis_json js + redis_service r keyspace up
  for js :: JsonCodec and r :: "'s Redis" and keyspace up
begin

lemma load_law:
  assumes i: "redis_inv js (keyspace s)" and k: "scope_ok k" and l: "redis_Load js r c k s = ((eo, v, err), s')"
  shows "keyspace s' = keyspace s \<and> (up s \<longrightarrow> up s' \<and> err = None)
         \<and> (err = None \<longrightarrow>
              (case redis_edges js (keyspace s) (c, k) of
                 None \<Rightarrow> eo = None \<and> v = 0
               | Some (e, w) \<Rightarrow> v = w \<and> (\<exists>e'. eo = Some e' \<and> e'\<lparr>Version := 0\<rparr> = e)))"
proof -
  obtain gr s1 where g: "HGetAll r (getDataKeyName c k) s = (gr, s1)" by (cases "HGetAll r (getDataKeyName c k) s")
  from i k show ?thesis
  proof (rule redis_data_cases [where c = c])
    assume "hash_at (keyspace s) (getDataKeyName c k) = Some Map.empty" "redis_edges js (keyspace s) (c, k) = None"
    with l hgetall [OF g] show ?thesis by (auto simp: redis_Load_def g split: sum.splits if_splits)
  next
    fix h e
    assume h: "hash_at (keyspace s) (getDataKeyName c k) = Some h" "edge_hash js e h"
      "redis_edges js (keyspace s) (c, k) = Some (stored k e, Version e)"
    then have "h \<noteq> Map.empty" by (auto simp: edge_hash_def)
    with l h hgetall [OF g h(1)] show ?thesis
      by (auto simp: redis_Load_def g field_map_of parse_edge_hash stored_def split: sum.splits if_splits)
  qed
qed

lemma flips_marshal:
  assumes "edge_range e"
  obtains b where "flips_Marshal js (Recent e) = Inr b" "flips_Unmarshal js b = Inr (Recent e)"
  using flips_json [of "Recent e"] assms by (auto simp: edge_range_def)

text \<open>A hash write that stores \<^term>\<open>e\<close>, and one that sets a count, in the three views.\<close>

lemma edge_write:
  assumes "redis_inv js K" "scope_ok k" "edge_hash js e h" "redis_write K (K(getDataKeyName c k \<mapsto> RHash h)) err K'"
  shows "redis_inv js K'"
    and "err = None \<Longrightarrow> redis_edges js K' = (redis_edges js K)((c, k) \<mapsto> (stored k e, Version e))"
    and "redis_edges js K' = redis_edges js K \<or>
           redis_edges js K' = (redis_edges js K)((c, k) \<mapsto> (stored k e, Version e))"
  using assms by (auto simp: redis_write_def redis_inv_set_data redis_edges_set split: if_splits)

lemma count_write:
  assumes "redis_inv js K" "count_hash h n" "redis_write K (K(getWindowKeyName a m \<mapsto> RHash h)) err K'"
  shows "redis_inv js K'" and "redis_edges js K' = redis_edges js K"
    and "err = None \<Longrightarrow> redis_granted K' = (redis_granted K)((a, m) := n)"
    and "redis_granted K' = redis_granted K \<or> redis_granted K' = (redis_granted K)((a, m) := n)"
  using assms by (auto simp: redis_write_def redis_inv_set_window redis_granted_set split: if_splits)

lemma create_write:
  assumes h: "hash_at (keyspace s) (getDataKeyName c k) = Some h" and e: "edge_range e" "Version e = 1"
    and w: "redis_create js r c k e s = ((ok, err), s')"
  obtains h' where "edge_hash js e h'" "ok \<longleftrightarrow> err = None" "up s \<longrightarrow> up s' \<and> err = None"
    "redis_write (keyspace s) ((keyspace s)(getDataKeyName c k \<mapsto> RHash h')) err (keyspace s')"
proof -
  from e(1) obtain b where b: "flips_Marshal js (Recent e) = Inr b" "flips_Unmarshal js b = Inr (Recent e)"
    by (rule flips_marshal)
  define fs where "fs = [(''scope_key'', ArgStr (ScopeKey e)), (''last_value'', ArgStr (LastValue e)),
      (''last_change_ts'', ArgInt (LastChangeTS e)), (''window_start'', ArgInt (WindowStart e)),
      (''flip_count'', ArgInt (FlipCount e)), (''recent'', ArgBytes b),
      (''agg_until_ts'', ArgInt (AggUntilTS e)), (''ver'', ArgInt (Version e))]"
  have "edge_hash js e (set_fields h fs)"
    using e b by (simp add: edge_hash_def set_fields_def fs_def max_int64_def)
  moreover obtain err1 s1 where m: "HMSet r (getDataKeyName c k) fs s = (err1, s1)"
    by (cases "HMSet r (getDataKeyName c k) fs s")
  moreover have "err = err1" "s' = s1" "ok \<longleftrightarrow> err1 = None"
    using w m by (auto simp: redis_create_def b fs_def split: option.splits)
  ultimately show ?thesis using that [of "set_fields h fs"] hmset [OF m h] by simp
qed

lemma update_write:
  assumes h: "hash_at (keyspace s) (getDataKeyName c k) = Some h" and e: "edge_range e" "0 < cv" "cv < max_int64"
    and w: "redis_update js r c k cv e s = ((ok, err), s')"
  obtains h' where "edge_hash js (e\<lparr>Version := cv + 1\<rparr>) h'" "ok" "up s \<longrightarrow> up s' \<and> err = None"
    "redis_write (keyspace s) ((keyspace s)(getDataKeyName c k \<mapsto> RHash h')) err (keyspace s')"
proof -
  from e(1) obtain b where b: "flips_Marshal js (Recent e) = Inr b" "flips_Unmarshal js b = Inr (Recent e)"
    by (rule flips_marshal)
  define fs where "fs = [(''last_value'', ArgStr (LastValue e)), (''last_change_ts'', ArgInt (LastChangeTS e)),
      (''window_start'', ArgInt (WindowStart e)), (''flip_count'', ArgInt (FlipCount e)),
      (''recent'', ArgStr b), (''agg_until_ts'', ArgInt (AggUntilTS e)), (''ver'', ArgInt (add64 cv 1))]"
  have "add64 cv 1 = cv + 1" using e(2,3) by (simp add: add64_def wrap64_id in_int64_def min_int64_def)
  then have "edge_hash js (e\<lparr>Version := cv + 1\<rparr>) (set_fields h fs)"
    using e b by (simp add: edge_hash_def set_fields_def fs_def edge_range_def)
  moreover obtain err1 s1 where m: "HMSet r (getDataKeyName c k) fs s = (err1, s1)"
    by (cases "HMSet r (getDataKeyName c k) fs s")
  moreover have "err = err1" "s' = s1" "ok"
    using w m by (auto simp: redis_update_def b fs_def)
  ultimately show ?thesis using that [of "set_fields h fs"] hmset [OF m h] by simp
qed

lemma upsert_current_law:
  assumes i: "redis_inv js (keyspace s)" and k: "scope_ok k" and e: "edge_range e"
    and pv: "pv = version_at (redis_edges js (keyspace s) (c, k))" "pv < max_int64"
    and u: "redis_UpsertCAS js r c k pv e s = ((ok, err), s')"
  obtains h where "edge_hash js (e\<lparr>ScopeKey := k, Version := pv + 1\<rparr>) h" "err = None \<longrightarrow> ok"
    "up s \<longrightarrow> up s' \<and> err = None"
    "redis_write (keyspace s) ((keyspace s)(getDataKeyName c k \<mapsto> RHash h)) err (keyspace s')"
    | "err \<noteq> None" "keyspace s' = keyspace s" "\<not> up s"
proof (rule redis_data_cases [OF i k, of c])
  assume h: "hash_at (keyspace s) (getDataKeyName c k) = Some Map.empty" and "redis_edges js (keyspace s) (c, k) = None"
  then have z: "pv = 0" using pv by simp
  have r': "edge_range (e\<lparr>ScopeKey := k, Version := 1\<rparr>)" using e by (simp add: edge_range_def)
  from u z have cr: "redis_create js r c k (e\<lparr>ScopeKey := k, Version := 1\<rparr>) s = ((ok, err), s')"
    by (simp add: redis_UpsertCAS_def)
  obtain h' where "edge_hash js (e\<lparr>ScopeKey := k, Version := 1\<rparr>) h'" "ok \<longleftrightarrow> err = None" "up s \<longrightarrow> up s' \<and> err = None"
    "redis_write (keyspace s) ((keyspace s)(getDataKeyName c k \<mapsto> RHash h')) err (keyspace s')"
    by (rule create_write [OF h r' _ cr]) simp_all
  then show thesis by (intro that(1) [of h']) (simp_all add: z)
next
  fix h e0
  assume h: "hash_at (keyspace s) (getDataKeyName c k) = Some h" and eh: "edge_hash js e0 h"
    and ed: "redis_edges js (keyspace s) (c, k) = Some (stored k e0, Version e0)"
  have v: "0 < pv" "h ''ver'' = Some (FormatInt pv)" "pv = Version e0" using eh ed pv by (auto simp: edge_hash_def)
  obtain mr s1 where m: "HMGet r (getDataKeyName c k) ''ver'' s = (mr, s1)"
    by (cases "HMGet r (getDataKeyName c k) ''ver'' s")
  note law = hmget [OF m h]
  show thesis
  proof (cases mr)
    case (Inl x)
    with law u v show thesis by (intro that(2)) (auto simp: redis_UpsertCAS_def redis_check_def m)
  next
    case (Inr x)
    with law v have "mr = Inr (Some (FormatInt pv))" "FormatInt pv \<noteq> []" "ParseInt (FormatInt pv) = Inr pv"
      using pv(2) by (auto simp: ParseInt_FormatInt in_int64_def min_int64_def)
    with u v have w: "redis_update js r c k pv (e\<lparr>ScopeKey := k\<rparr>) s1 = ((ok, err), s')"
      by (simp add: redis_UpsertCAS_def redis_check_def m)
    have h1: "hash_at (keyspace s1) (getDataKeyName c k) = Some h" using law h by simp
    have r': "edge_range (e\<lparr>ScopeKey := k\<rparr>)" using e by (simp add: edge_range_def)
    obtain h' where "edge_hash js (e\<lparr>ScopeKey := k, Version := pv + 1\<rparr>) h'" ok "up s1 \<longrightarrow> up s' \<and> err = None"
      "redis_write (keyspace s1) ((keyspace s1)(getDataKeyName c k \<mapsto> RHash h')) err (keyspace s')"
      by (rule update_write [OF h1 r' v(1) pv(2) w]) simp
    with law show thesis by (intro that(1) [of h']) simp_all
  qed
qed

text \<open>The operations leave the keys of others alone.\<close>

lemma upsert_frame:
  assumes i: "redis_inv js (keyspace s)" and k: "scope_ok k" and q: "q \<noteq> getDataKeyName c k"
    and u: "redis_UpsertCAS js r c k pv e s = (ur, s')"
  shows "keyspace s' q = keyspace s q"
proof -
  obtain h where h: "hash_at (keyspace s) (getDataKeyName c k) = Some h" using redis_inv_hash_data [OF i k] by blast
  have set: "keyspace s2 q = keyspace s1 q"
    if "HMSet r (getDataKeyName c k) fs s1 = (er, s2)" "keyspace s1 = keyspace s" for fs er s1 s2
    using hmset [OF that(1)] h q that(2) by (auto simp: redis_write_def split: if_splits)
  have create: "keyspace s' q = keyspace s q" if "redis_create js r c k nxt s = (ur, s')" for nxt
    using that by (auto simp: redis_create_def split: sum.splits prod.splits option.splits dest: set)
  show ?thesis
  proof (cases "pv = 0")
    case True
    with u create show ?thesis by (auto simp: redis_UpsertCAS_def)
  next
    case False
    obtain mr s1 where m: "HMGet r (getDataKeyName c k) ''ver'' s = (mr, s1)"
      by (cases "HMGet r (getDataKeyName c k) ''ver'' s")
    have s1: "keyspace s1 = keyspace s" using hmget [OF m h] by simp
    have "keyspace s' q = keyspace s1 q" if "redis_update js r c k cv nxt s1 = (ur, s')" for cv nxt
      using that s1 by (auto simp: redis_update_def split: sum.splits prod.splits dest: set)
    with u False s1 show ?thesis
      by (auto simp: redis_UpsertCAS_def redis_check_def m Let_def split: sum.splits option.splits if_splits)
  qed
qed

lemma upsert_granted_law:
  assumes "redis_inv js (keyspace s)" and "scope_ok k" and "redis_UpsertCAS js r c k pv e s = (ur, s')"
  shows "redis_granted (keyspace s') = redis_granted (keyspace s)"
proof
  fix b :: "string \<times> int"
  show "redis_granted (keyspace s') b = redis_granted (keyspace s) b"
    using upsert_frame [OF assms(1,2) _ assms(3)] by (cases b) (simp add: redis_granted_def)
qed

lemma hit_law:
  assumes i: "redis_inv js (keyspace s)" and h: "hash_at (keyspace s) (getWindowKeyName a m) = Some h"
    and n: "h ''count'' = None \<and> n = 0 \<or> count_hash h n" "n < max_int64" and w: "0 < w"
    and hit: "redis_first_hit r (getWindowKeyName a m) w s = ((ok, err), s')
              \<or> redis_next_hit r (getWindowKeyName a m) s = ((ok, err), s')"
  shows "redis_inv js (keyspace s') \<and> redis_edges js (keyspace s') = redis_edges js (keyspace s)
         \<and> (up s \<longrightarrow> up s' \<and> err = None) \<and> (ok \<longleftrightarrow> err = None)
         \<and> (err = None \<longrightarrow> redis_granted (keyspace s') = (redis_granted (keyspace s))((a, m) := n + 1))
         \<and> (redis_granted (keyspace s') = redis_granted (keyspace s) \<or>
            redis_granted (keyspace s') = (redis_granted (keyspace s))((a, m) := n + 1))
         \<and> (\<forall>q. q \<noteq> getWindowKeyName a m \<longrightarrow> keyspace s' q = keyspace s q)"
proof -
  let ?key = "getWindowKeyName a m" and ?h = "h(''count'' \<mapsto> FormatInt (n + 1))"
  obtain er s1 where inc: "HIncrBy r ?key ''count'' 1 s = (er, s1)" by (cases "HIncrBy r ?key ''count'' 1 s")
  obtain er2 s2 where x: "RExpire r ?key (2 * w) s1 = (er2, s2)" by (cases "RExpire r ?key (2 * w) s1")
  have nn: "0 \<le> n" using n(1) by (auto simp: count_hash_def)
  then have "count_hash ?h (n + 1)" using n(2) by (simp add: count_hash_def)
  note cw = count_write [OF i this, of a m er "keyspace s1"]
  have "in_int64 n" "in_int64 (n + 1)" using nn n(2) by (simp_all add: in_int64_def min_int64_def)
  then have wr: "redis_write (keyspace s) ((keyspace s)(?key \<mapsto> RHash ?h)) er (keyspace s1)" "up s \<longrightarrow> up s1 \<and> er = None"
    using hincrby [OF inc h, of n] n(1) by (auto simp: count_hash_def)
  have ex: "keyspace s2 = keyspace s1" "up s1 \<longrightarrow> up s2 \<and> er2 = None" using expire [OF x] w by auto
  have "\<forall>q. q \<noteq> ?key \<longrightarrow> keyspace s1 q = keyspace s q" using wr(1) by (auto simp: redis_write_def split: if_splits)
  note cw' = cw [OF wr(1)] this
  from hit show ?thesis
  proof
    assume f: "redis_first_hit r ?key w s = ((ok, err), s')"
    show ?thesis
    proof (cases er)
      case None
      with f inc x have "s' = s2" "err = er2" "ok \<longleftrightarrow> er2 = None" by (auto simp: redis_first_hit_def)
      with cw' wr(2) ex None show ?thesis by simp
    next
      case (Some y)
      with f inc have "s' = s1" "err = er" "\<not> ok" by (auto simp: redis_first_hit_def)
      with cw' wr(2) Some show ?thesis by simp
    qed
  next
    assume "redis_next_hit r ?key s = ((ok, err), s')"
    with inc have "s' = s1" "err = er" "ok \<longleftrightarrow> er = None" by (auto simp: redis_next_hit_def split: option.splits)
    with cw' wr(2) show ?thesis by simp
  qed
qed

lemma acquire_law:
  assumes i: "redis_inv js (keyspace s)" and rate: "0 < rate" "rate \<le> max_int64" "0 < w"
    and a: "redis_Acquire r clk scope rate w s = ((ok, err), s')" and b: "b = (scope, epoch_minute (clk 0))"
    and G: "G = redis_granted (keyspace s)"
  shows "redis_inv js (keyspace s') \<and> redis_edges js (keyspace s') = redis_edges js (keyspace s)
         \<and> (up s \<longrightarrow> up s' \<and> err = None) \<and> (err = None \<longrightarrow> ok = (G b < rate))
         \<and> (err = None \<longrightarrow> redis_granted (keyspace s') = (if ok then G(b := G b + 1) else G))
         \<and> (err \<noteq> None \<longrightarrow> \<not> ok \<and> (redis_granted (keyspace s') = G \<or>
              (G b < rate \<and> redis_granted (keyspace s') = G(b := G b + 1))))
         \<and> (\<forall>q. q \<noteq> getWindowKeyName scope (snd b) \<longrightarrow> keyspace s' q = keyspace s q)"
proof -
  define m where "m = epoch_minute (clk 0)"
  let ?key = "getWindowKeyName scope m"
  obtain fr s1 where g: "HGet r ?key ''count'' s = (fr, s1)" by (cases "HGet r ?key ''count'' s")
  have acq: "redis_Acquire r clk scope rate w s =
      (case fr of
         Inl e \<Rightarrow> if e = RedisNil then redis_first_hit r ?key w s1 else ((False, Some e), s1)
       | Inr v \<Rightarrow>
           if v \<noteq> [] then
             (case Atoi v of
                Inl e \<Rightarrow> ((False, Some (num_err ''invalid count'' e)), s1)
              | Inr count \<Rightarrow> if count \<ge> rate then ((False, None), s1) else redis_next_hit r ?key s1)
           else redis_next_hit r ?key s1)"
    using rate g unfolding m_def epoch_minute_def
    by (auto simp: redis_Acquire_def redis_count_def redis_hit_def Let_def split: sum.splits)
  obtain h n where h: "hash_at (keyspace s) ?key = Some h" "h ''count'' = None \<and> n = 0 \<or> count_hash h n" "G b = n"
    unfolding G b m_def [symmetric] by (rule redis_window_cases [OF i, of scope m]) auto
  note hg = hget [OF g h(1)]
  have h1: "hash_at (keyspace s1) ?key = Some h" "redis_inv js (keyspace s1)" using hg h(1) i by auto
  note hit = hit_law [OF h1(2,1) h(2) _ rate(3)]
  show ?thesis
  proof (cases "fr = Inl RedisNil \<or> fr = Inr (FormatInt n) \<and> count_hash h n \<and> n < rate")
    case True
    then have "redis_first_hit r ?key w s1 = ((ok, err), s') \<or> redis_next_hit r ?key s1 = ((ok, err), s')"
      using a acq count_hash_range [of h n] by (auto simp: Atoi_FormatInt)
    moreover have n: "n < rate" using True hg h(2) rate by (auto simp: count_hash_def)
    ultimately show ?thesis
      using hit [of ok err s'] n rate hg h(3) unfolding G b m_def [symmetric] by (cases err) simp_all
  next
    case False
    then have "s' = s1" "\<not> ok" "err = None \<longrightarrow> rate \<le> n" "up s \<longrightarrow> err = None"
      using a [unfolded acq] count_hash_range [of h n] hg h(2)
      by (auto simp: Atoi_FormatInt count_hash_def split: sum.splits if_splits)
    then show ?thesis using hg i h(3) by (auto simp: G)
  qed
qed

sublocale store: seq_data_store "redis_DataStore js r" "\<lambda>s. redis_edges js (keyspace s)"
    "\<lambda>s. redis_granted (keyspace s)" "\<lambda>s. redis_inv js (keyspace s)" up
proof (unfold_locales, goal_cases)
  case (1 s c k e v)
  then show ?case by (rule redis_edges_SomeD)
next
  case (2 s k c eo v err s')
  then show ?case using load_law [of s k c eo v err s'] by (simp add: redis_DataStore_def)
next
  case (3 s k e pv c ok err s')
  have u: "redis_UpsertCAS js r c k pv e s = ((ok, err), s')" using 3 by (simp add: redis_DataStore_def)
  have st: "stored k (e\<lparr>ScopeKey := k, Version := pv + 1\<rparr>) = stored k e" by (simp add: stored_def)
  from 3(1-5) u show ?case
  proof (rule upsert_current_law)
    fix h
    assume h: "edge_hash js (e\<lparr>ScopeKey := k, Version := pv + 1\<rparr>) h" "err = None \<longrightarrow> ok" "up s \<longrightarrow> up s' \<and> err = None"
      "redis_write (keyspace s) ((keyspace s)(getDataKeyName c k \<mapsto> RHash h)) err (keyspace s')"
    show ?case using edge_write [OF 3(1,2) h(1,4)] h(2,3) by (simp add: st)
  next
    assume "err \<noteq> None" "keyspace s' = keyspace s" "\<not> up s"
    with 3(1) show ?case by auto
  qed
next
  case (4 s b)
  then show ?case by (rule redis_granted_nonneg)
next
  case (5 s rate clk scope w)
  then show ?case by (simp add: redis_DataStore_def redis_Acquire_def)
next
  case (6 s rate w clk scope ok err s' b)
  then show ?case using acquire_law [of s rate w clk scope ok err s' b "redis_granted (keyspace s)"]
    by (simp add: redis_DataStore_def)
next
  case (7 s rate w clk scope ar s')
  obtain ok err where "ar = (ok, err)" by (cases ar)
  with 7 show ?case
    using acquire_law [of s rate w clk scope ok err s' "(scope, epoch_minute (clk 0))" "redis_granted (keyspace s)"]
    by (cases "0 < rate") (simp_all add: redis_DataStore_def redis_Acquire_def)
next
  case (8 s k c lr s')
  obtain eo v err where "lr = (eo, v, err)" by (cases lr)
  with 8 show ?case using load_law [of s k c eo v err s'] by (simp add: redis_DataStore_def)
next
  case (9 s k c pv e ur s')
  then show ?case using upsert_granted_law [of s k c pv e ur s'] by (simp add: redis_DataStore_def)
qed

lemmas store_contract = store.seq_data_store_axioms

text \<open>The create branch does not look at the row that is there.\<close>

lemma create_anyway:
  assumes "redis_inv js (keyspace s)" "up s" "scope_ok k" "edge_range e"
  shows "\<exists>s'. redis_UpsertCAS js r c k 0 e s = ((True, None), s') \<and> redis_inv js (keyspace s') \<and> up s' \<and>
           redis_edges js (keyspace s') = (redis_edges js (keyspace s))((c, k) \<mapsto> (stored k e, 1))"
proof -
  let ?e = "e\<lparr>ScopeKey := k, Version := 1\<rparr>"
  obtain h where h: "hash_at (keyspace s) (getDataKeyName c k) = Some h"
    using redis_inv_hash_data [OF assms(1,3)] by blast
  obtain ok err s' where u: "redis_create js r c k ?e s = ((ok, err), s')" by (cases "redis_create js r c k ?e s") auto
  have r': "edge_range ?e" using assms(4) by (simp add: edge_range_def)
  obtain h' where h': "edge_hash js ?e h'" "ok \<longleftrightarrow> err = None" "up s \<longrightarrow> up s' \<and> err = None"
    "redis_write (keyspace s) ((keyspace s)(getDataKeyName c k \<mapsto> RHash h')) err (keyspace s')"
    by (rule create_write [OF h r' _ u]) simp_all
  note w = edge_write [OF assms(1,3) h'(1,4)]
  from u h' w assms(2) show ?thesis by (intro exI [of _ s']) (simp add: redis_UpsertCAS_def stored_def)
qed

text \<open>Two updates whose tests both come before their writes.\<close>

lemma check_current:
  assumes "redis_inv js (keyspace s)" "up s" "scope_ok k" "redis_edges js (keyspace s) (c, k) = Some (e, v)"
  shows "\<exists>s1. redis_check r c k v s = (Inr v, s1) \<and> keyspace s1 = keyspace s \<and> up s1"
proof (rule redis_data_cases [OF assms(1,3), of c])
  assume "redis_edges js (keyspace s) (c, k) = None"
  with assms(4) show ?thesis by simp
next
  fix h e0
  assume h: "hash_at (keyspace s) (getDataKeyName c k) = Some h" and eh: "edge_hash js e0 h"
    and "redis_edges js (keyspace s) (c, k) = Some (stored k e0, Version e0)"
  then have v: "h ''ver'' = Some (FormatInt v)" "ParseInt (FormatInt v) = Inr v"
    using assms(4) by (auto simp: edge_hash_def ParseInt_FormatInt in_int64_def min_int64_def)
  obtain mr s1 where m: "HMGet r (getDataKeyName c k) ''ver'' s = (mr, s1)"
    by (cases "HMGet r (getDataKeyName c k) ''ver'' s")
  then show ?thesis using hmget [OF m h] v assms(2) by (auto simp: redis_check_def m)
qed

lemma update_anyway:
  assumes "redis_inv js (keyspace s)" "up s" "scope_ok k" "edge_range e" "0 < v" "v < max_int64"
  shows "\<exists>s'. redis_update js r c k v (e\<lparr>ScopeKey := k\<rparr>) s = ((True, None), s') \<and> redis_inv js (keyspace s') \<and> up s' \<and>
           redis_edges js (keyspace s') = (redis_edges js (keyspace s))((c, k) \<mapsto> (stored k e, v + 1))"
proof -
  let ?e = "e\<lparr>ScopeKey := k\<rparr>"
  obtain h where h: "hash_at (keyspace s) (getDataKeyName c k) = Some h"
    using redis_inv_hash_data [OF assms(1,3)] by blast
  obtain ok err s' where u: "redis_update js r c k v ?e s = ((ok, err), s')" by (cases "redis_update js r c k v ?e s") auto
  have r': "edge_range ?e" using assms(4) by (simp add: edge_range_def)
  obtain h' where h': "edge_hash js (?e\<lparr>Version := v + 1\<rparr>) h'" ok "up s \<longrightarrow> up s' \<and> err = None"
    "redis_write (keyspace s) ((keyspace s)(getDataKeyName c k \<mapsto> RHash h')) err (keyspace s')"
    by (rule update_write [OF h r' assms(5,6) u]) simp
  note w = edge_write [OF assms(1,3) h'(1,4)]
  from u h' w assms(2) show ?thesis by (intro exI [of _ s']) (simp add: stored_def)
qed

lemma update_race:
  assumes "redis_inv js (keyspace s)" "up s" "scope_ok k" "edge_range e1" "edge_range e2"
    and "redis_edges js (keyspace s) (c, k) = Some (e, v)" "v < max_int64"
  shows "\<exists>s1 s2 s3 s4. redis_check r c k v s = (Inr v, s1) \<and> redis_check r c k v s1 = (Inr v, s2)
     \<and> redis_update js r c k v (e1\<lparr>ScopeKey := k\<rparr>) s2 = ((True, None), s3)
     \<and> redis_update js r c k v (e2\<lparr>ScopeKey := k\<rparr>) s3 = ((True, None), s4)
     \<and> redis_edges js (keyspace s4) = (redis_edges js (keyspace s))((c, k) \<mapsto> (stored k e2, v + 1))"
proof -
  have v: "0 < v" using redis_edges_SomeD [OF assms(1,6)] by simp
  obtain s1 where s1: "redis_check r c k v s = (Inr v, s1)" "keyspace s1 = keyspace s" "up s1"
    using check_current [OF assms(1-3,6)] by blast
  obtain s2 where s2: "redis_check r c k v s1 = (Inr v, s2)" "keyspace s2 = keyspace s" "up s2"
    using check_current [of s1 k c e v] s1 assms(1,3,6) by auto
  obtain s3 where s3: "redis_update js r c k v (e1\<lparr>ScopeKey := k\<rparr>) s2 = ((True, None), s3)" "redis_inv js (keyspace s3)" "up s3"
      "redis_edges js (keyspace s3) = (redis_edges js (keyspace s))((c, k) \<mapsto> (stored k e1, v + 1))"
    using update_anyway [of s2 k e1 v c] s2 assms v by auto
  obtain s4 where "redis_update js r c k v (e2\<lparr>ScopeKey := k\<rparr>) s3 = ((True, None), s4)"
      "redis_edges js (keyspace s4) = (redis_edges js (keyspace s3))((c, k) \<mapsto> (stored k e2, v + 1))"
    using update_anyway [OF s3(2,3) assms(3,5) v assms(7), of c] by blast
  with s1 s2 s3 show ?thesis by auto
qed

text \<open>Two acquisitions whose reads both come before their increments.\<close>

lemma count_free:
  assumes "redis_inv js (keyspace s)" "up s" "redis_granted (keyspace s) (a, m) < rate"
  shows "\<exists>new s1. redis_count r (getWindowKeyName a m) rate s = (Inr new, s1) \<and> keyspace s1 = keyspace s \<and> up s1"
proof -
  let ?key = "getWindowKeyName a m"
  obtain fr s1 where g: "HGet r ?key ''count'' s = (fr, s1)" by (cases "HGet r ?key ''count'' s")
  obtain h where h: "hash_at (keyspace s) ?key = Some h"
      "h ''count'' = None \<or> (\<exists>n. count_hash h n \<and> n = redis_granted (keyspace s) (a, m))"
    by (rule redis_window_cases [OF assms(1), of a m]) auto
  show ?thesis
  proof (cases "h ''count''")
    case None
    then have "fr = Inl RedisNil" using hget [OF g h(1)] assms(2) by auto
    then show ?thesis using hget [OF g h(1)] assms(2) g by (auto simp: redis_count_def)
  next
    case (Some x)
    then obtain n where n: "count_hash h n" "n < rate" using h(2) assms(3) by auto
    then have "fr = Inr (FormatInt n)" "Atoi (FormatInt n) = Inr n"
      using hget [OF g h(1)] assms(2) count_hash_range [OF n(1)] by (auto simp: count_hash_def Atoi_FormatInt)
    then show ?thesis using hget [OF g h(1)] assms(2) g n by (auto simp: redis_count_def)
  qed
qed

lemma hit_granted:
  assumes "redis_inv js (keyspace s)" "up s" "redis_granted (keyspace s) (a, m) < max_int64" "0 < w"
  shows "\<exists>s'. redis_hit r new (getWindowKeyName a m) w s = ((True, None), s') \<and> redis_inv js (keyspace s') \<and> up s'
     \<and> redis_granted (keyspace s') = (redis_granted (keyspace s))((a, m) := redis_granted (keyspace s) (a, m) + 1)"
proof -
  obtain ok err s' where u: "redis_hit r new (getWindowKeyName a m) w s = ((ok, err), s')"
    by (cases "redis_hit r new (getWindowKeyName a m) w s") auto
  obtain h n where h: "hash_at (keyspace s) (getWindowKeyName a m) = Some h" "h ''count'' = None \<and> n = 0 \<or> count_hash h n"
      "redis_granted (keyspace s) (a, m) = n"
    by (rule redis_window_cases [OF assms(1), of a m]) auto
  have "redis_first_hit r (getWindowKeyName a m) w s = ((ok, err), s') \<or> redis_next_hit r (getWindowKeyName a m) s = ((ok, err), s')"
    using u by (auto simp: redis_hit_def split: if_splits)
  from hit_law [OF assms(1) h(1,2) _ assms(4) this] assms(2,3) h(3) u show ?thesis by simp
qed

lemma acquire_race:
  assumes "redis_inv js (keyspace s)" "up s" "redis_granted (keyspace s) (a, m) = rate - 1" "rate < max_int64" "0 < w"
  shows "\<exists>n1 n2 s1 s2 s3 s4. redis_count r (getWindowKeyName a m) rate s = (Inr n1, s1)
     \<and> redis_count r (getWindowKeyName a m) rate s1 = (Inr n2, s2)
     \<and> redis_hit r n1 (getWindowKeyName a m) w s2 = ((True, None), s3)
     \<and> redis_hit r n2 (getWindowKeyName a m) w s3 = ((True, None), s4)
     \<and> redis_granted (keyspace s4) (a, m) = rate + 1"
proof -
  obtain n1 s1 where s1: "redis_count r (getWindowKeyName a m) rate s = (Inr n1, s1)" "keyspace s1 = keyspace s" "up s1"
    using count_free [OF assms(1,2), of a m rate] assms(3) by auto
  obtain n2 s2 where s2: "redis_count r (getWindowKeyName a m) rate s1 = (Inr n2, s2)" "keyspace s2 = keyspace s" "up s2"
    using count_free [of s1 a m rate] s1 assms(1,3) by auto
  obtain s3 where s3: "redis_hit r n1 (getWindowKeyName a m) w s2 = ((True, None), s3)" "redis_inv js (keyspace s3)" "up s3"
      "redis_granted (keyspace s3) (a, m) = rate"
    using hit_granted [of s2 a m w n1] s2 assms by auto
  obtain s4 where "redis_hit r n2 (getWindowKeyName a m) w s3 = ((True, None), s4)" "redis_granted (keyspace s4) (a, m) = rate + 1"
    using hit_granted [OF s3(2,3), of a m w n2] s3(4) assms(4,5) by auto
  with s1 s2 s3 show ?thesis by blast
qed

end

end
