(* ===== verification/Redis_Clients.thy ===== *)
theory Redis_Clients
  imports Redis_Store
begin

text \<open>
  \<^verbatim>\<open>internal/backends/redis/clientstore.go\<close>: the \<^verbatim>\<open>ClientStore\<close> over Redis.  It keeps the contract
  \<open>client_store\<close>, with \<^verbatim>\<open>redis.Nil\<close> as its error for an unknown client; \<open>clear_all_law\<close> says which keys
  \<^verbatim>\<open>ClearAll\<close> removes.
\<close>

section \<open>Operations\<close>

definition getClientKey :: "string \<Rightarrow> string" where
  "getClientKey i = ''_enoti_cfg_'' @ i"

definition redis_GetClientConfig ::
    "JsonCodec \<Rightarrow> 's Redis \<Rightarrow> string \<Rightarrow> 's \<Rightarrow> (go_error + ClientConfig) \<times> 's" where
  "redis_GetClientConfig js r clientID s =
     (case RGet r (getClientKey clientID) s of
        (Inl e, s1) \<Rightarrow> (Inl e, s1)
      | (Inr out, s1) \<Rightarrow> (config_Unmarshal js out, s1))"

definition redis_ListClients :: "'s Redis \<Rightarrow> 's \<Rightarrow> (go_error + string list) \<times> 's" where
  "redis_ListClients r s =
     (case RKeys r (getClientKey []) s of
        (Inl e, s1) \<Rightarrow> (Inl e, s1)
      | (Inr keys, s1) \<Rightarrow>
          (let prefixLen = length (getClientKey [])
           in (Inr (map (drop prefixLen) (filter (\<lambda>k. prefixLen < length k) keys)), s1)))"

definition redis_PutClientConfig ::
    "JsonCodec \<Rightarrow> 's Redis \<Rightarrow> string \<Rightarrow> ClientConfig \<Rightarrow> 's \<Rightarrow> go_error option \<times> 's" where
  "redis_PutClientConfig js r clientID cfg s =
     (case Validate cfg of
        Some e \<Rightarrow> (Some e, s)
      | None \<Rightarrow>
          (case config_Marshal js cfg of
             Inl e \<Rightarrow> (Some e, s)
           | Inr out \<Rightarrow> RSet r (getClientKey clientID) out 0 s))"

definition redis_DeleteClientConfig :: "'s Redis \<Rightarrow> string \<Rightarrow> 's \<Rightarrow> go_error option \<times> 's" where
  "redis_DeleteClientConfig r clientID s = RDel r [getClientKey clientID] s"

text \<open>
  The loop of \<^verbatim>\<open>ClearAll\<close> over the configuration keys.  Errors are logged and skipped; the slice
  expression panics (\<^const>\<open>None\<close>) on a key shorter than the prefix.
\<close>

fun clear_data :: "'s Redis \<Rightarrow> string list \<Rightarrow> 's \<Rightarrow> unit option \<times> 's" where
  "clear_data r [] s = (Some (), s)"
| "clear_data r (key # keys) s =
     (let stubLen = length (getClientKey []) in
      if length key < stubLen then (None, s)
      else let clientID = drop stubLen key in
        (case RKeys r (getDataKeyName clientID ''*'') s of
           (Inl _, s1) \<Rightarrow> clear_data r keys s1
         | (Inr dataKeys, s1) \<Rightarrow>
             if 0 < length dataKeys then (case RDel r dataKeys s1 of (_, s2) \<Rightarrow> clear_data r keys s2)
             else clear_data r keys s1))"

definition redis_ClearAll :: "'s Redis \<Rightarrow> 's \<Rightarrow> go_error option option \<times> 's" where
  "redis_ClearAll r s =
     (case RKeys r (getClientKey ''*'') s of
        (Inl e, s1) \<Rightarrow> (Some (Some e), s1)
      | (Inr keys, s1) \<Rightarrow>
          if length keys = 0 then (Some None, s1)
          else (case clear_data r keys s1 of
                  (None, s2) \<Rightarrow> (None, s2)
                | (Some _, s2) \<Rightarrow> (case RDel r keys s2 of (e, s3) \<Rightarrow> (Some e, s3))))"

definition redis_ClientStore :: "JsonCodec \<Rightarrow> 's Redis \<Rightarrow> 's ClientStore" where
  "redis_ClientStore js r =
     \<lparr>GetClientConfig = redis_GetClientConfig js r, ListClients = redis_ListClients r,
      PutClientConfig = redis_PutClientConfig js r, DeleteClientConfig = redis_DeleteClientConfig r,
      ClearAll = redis_ClearAll r\<rparr>"

section \<open>The store keeps the contract\<close>

definition redis_configs :: "JsonCodec \<Rightarrow> keyspace \<Rightarrow> string \<Rightarrow> ClientConfig option" where
  "redis_configs js K i =
     (case K (getClientKey i) of
        Some (RStr x) \<Rightarrow> (case config_Unmarshal js x of Inl _ \<Rightarrow> None | Inr cc \<Rightarrow> Some cc)
      | _ \<Rightarrow> None)"

definition redis_profiles_ok :: "JsonCodec \<Rightarrow> keyspace \<Rightarrow> bool" where
  "redis_profiles_ok js K \<longleftrightarrow>
     (\<forall>i x. K (getClientKey i) = Some x \<longrightarrow> (\<exists>b cc. x = RStr b \<and> config_Unmarshal js b = Inr cc))"

text \<open>The keys \<^verbatim>\<open>ClearAll\<close> removes: all configurations, and the data keys of the configured clients.\<close>

definition cleared :: "keyspace \<Rightarrow> string \<Rightarrow> bool" where
  "cleared K k \<longleftrightarrow>
     (\<exists>i. k = getClientKey i) \<or> (\<exists>i sk. K (getClientKey i) \<noteq> None \<and> k = getDataKeyName i sk)"

lemma getClientKey_inject [simp]: "getClientKey i = getClientKey j \<longleftrightarrow> i = j"
  by (simp add: getClientKey_def)

lemma client_keys_apart [simp]:
  "getClientKey i \<noteq> getDataKeyName c k" "getClientKey i \<noteq> getWindowKeyName a m"
  "getDataKeyName c k \<noteq> getClientKey i" "getWindowKeyName a m \<noteq> getClientKey i"
  by (simp_all add: getClientKey_def getDataKeyName_def getWindowKeyName_def)

lemma redis_configs_set:
  "config_Unmarshal js b = Inr cc \<Longrightarrow> redis_configs js (K(getClientKey i \<mapsto> RStr b)) = (redis_configs js K)(i \<mapsto> cc)"
  "redis_configs js (K(getClientKey i := None)) = (redis_configs js K)(i := None)"
  by (rule ext; simp add: redis_configs_def)+

lemma redis_profiles_ok_set:
  "redis_profiles_ok js K \<Longrightarrow> config_Unmarshal js b = Inr cc \<Longrightarrow> redis_profiles_ok js (K(getClientKey i \<mapsto> RStr b))"
  "redis_profiles_ok js K \<Longrightarrow> redis_profiles_ok js (K(getClientKey i := None))"
  by (auto simp: redis_profiles_ok_def)

lemma take_prefix_iff: "take (length p) k = p \<longleftrightarrow> (\<exists>i. k = p @ i)"
  by (metis append_eq_conv_conj append_take_drop_id)

lemma client_key_prefix: "take (length (getClientKey [])) k = getClientKey [] \<longleftrightarrow> (\<exists>i. k = getClientKey i)"
  unfolding take_prefix_iff by (simp add: getClientKey_def)

lemma data_key_prefix: "take (length (getDataKeyName c [])) k = getDataKeyName c [] \<longleftrightarrow> (\<exists>sk. k = getDataKeyName c sk)"
  unfolding take_prefix_iff by (simp add: getDataKeyName_def)

lemma plain_client_key: "plain_pattern (getClientKey i) \<longleftrightarrow> plain_pattern i"
  by (simp add: plain_pattern_def getClientKey_def)

lemma plain_data_key: "plain_pattern (getDataKeyName c k) \<longleftrightarrow> plain_pattern c \<and> plain_pattern k"
  by (auto simp: plain_pattern_def getDataKeyName_def)

lemma plain_Nil [simp]: "plain_pattern []"
  by (simp add: plain_pattern_def)

context redis_backend
begin

sublocale clients: client_store "redis_ClientStore js r" "\<lambda>s. redis_configs js (keyspace s)" RedisNil
    "\<lambda>s. redis_profiles_ok js (keyspace s)" up
proof (unfold_locales, goal_cases)
  case (1 s i gr s')
  obtain vr s1 where g: "RGet r (getClientKey i) s = (vr, s1)" by (cases "RGet r (getClientKey i) s")
  have "\<forall>h. keyspace s (getClientKey i) \<noteq> Some (RHash h)" using 1(1) by (auto simp: redis_profiles_ok_def)
  note law = rget [OF g this]
  have "\<exists>cc. config_Unmarshal js b = Inr cc" if "keyspace s (getClientKey i) = Some (RStr b)" for b
    using 1(1) that by (fastforce simp: redis_profiles_ok_def)
  with 1 law show ?case
    by (auto simp: redis_ClientStore_def redis_GetClientConfig_def g redis_configs_def redis_profiles_ok_def
        split: sum.splits)
next
  case (2 cc e i s)
  then show ?case by (simp add: redis_ClientStore_def redis_PutClientConfig_def)
next
  case (3 s cc i res s')
  then obtain b where "config_Marshal js cc = Inr b" "config_Unmarshal js b = Inr cc"
    using config_json by blast
  with 3 rset [of "getClientKey i" b s res s'] show ?case
    by (auto simp: redis_ClientStore_def redis_PutClientConfig_def redis_write_def redis_configs_set
        redis_profiles_ok_set)
next
  case (4 s i res s')
  have eq: "(\<lambda>k. if k \<in> set [getClientKey i] then None else keyspace s k) = (keyspace s)(getClientKey i := None)"
    by auto
  from 4 rdel [of "[getClientKey i]" s res s', unfolded eq] show ?case
    by (auto simp: redis_ClientStore_def redis_DeleteClientConfig_def redis_write_def redis_configs_set
        redis_profiles_ok_set)
qed

lemmas clients_contract = clients.client_store_axioms

lemma list_clients_law:
  assumes "redis_ListClients r s = (lr, s')"
  shows "keyspace s' = keyspace s \<and> (up s \<longrightarrow> lr = Inr []) \<and> (\<forall>ids. lr = Inr ids \<longrightarrow> ids = [])"
proof -
  obtain kr s1 where k: "RKeys r (getClientKey []) s = (kr, s1)" by (cases "RKeys r (getClientKey []) s")
  have "filter (\<lambda>k. length (getClientKey []) < length k) ks = []" if "kr = Inr ks" for ks
    using keys [OF k] that by (auto simp: plain_client_key filter_empty_conv)
  with keys [OF k] assms show ?thesis by (auto simp: redis_ListClients_def k Let_def split: sum.splits)
qed

lemma clear_data_law:
  assumes "up s" and "\<forall>key \<in> set ks. \<exists>i. key = getClientKey i \<and> plain_pattern i"
  shows "\<exists>s'. clear_data r ks s = (Some (), s') \<and> up s' \<and>
           (\<forall>k. keyspace s' k = (if \<exists>i sk. getClientKey i \<in> set ks \<and> k = getDataKeyName i sk then None else keyspace s k))"
  using assms
proof (induction ks arbitrary: s)
  case Nil
  then show ?case by simp
next
  case (Cons key ks)
  then obtain i where i: "key = getClientKey i" "plain_pattern i" by auto
  obtain kr s1 where k: "RKeys r (getDataKeyName i ''*'') s = (kr, s1)" by (cases "RKeys r (getDataKeyName i ''*'') s")
  have star: "getDataKeyName i ''*'' = getDataKeyName i [] @ ''*''" by (simp add: getDataKeyName_def)
  from keys [OF k] Cons.prems(1) obtain dk where dk: "kr = Inr dk" "up s1" "keyspace s1 = keyspace s" by auto
  have set: "set dk = {k. (\<exists>sk. k = getDataKeyName i sk) \<and> keyspace s k \<noteq> None}"
    using keys [OF k] dk(1) star i(2) unfolding data_key_prefix [symmetric] by (simp add: plain_data_key)
  obtain s2 where s2: "clear_data r (key # ks) s = clear_data r ks s2" "up s2"
      "\<forall>k. keyspace s2 k = (if \<exists>sk. k = getDataKeyName i sk then None else keyspace s k)"
  proof (cases "dk = []")
    case True
    then have "\<forall>k. (\<exists>sk. k = getDataKeyName i sk) \<longrightarrow> keyspace s k = None" using set by auto
    with True dk k i(1) show thesis by (intro that [of s1]) (auto simp: getClientKey_def)
  next
    case False
    obtain er s3 where d: "RDel r dk s1 = (er, s3)" by (cases "RDel r dk s1")
    from rdel [OF d False] dk False k d i(1) set show thesis
      by (intro that [of s3]) (auto simp: redis_write_def getClientKey_def)
  qed
  obtain s' where "clear_data r ks s2 = (Some (), s')" "up s'"
      "\<forall>k. keyspace s' k = (if \<exists>i sk. getClientKey i \<in> set ks \<and> k = getDataKeyName i sk then None else keyspace s2 k)"
    using Cons.IH [OF s2(2)] Cons.prems(2) by auto
  with s2 show ?case by (intro exI [of _ s']) (auto simp: i(1))
qed

lemma clear_all_law:
  assumes "up s" and "\<forall>i. keyspace s (getClientKey i) \<noteq> None \<longrightarrow> plain_pattern i"
  shows "\<exists>s'. redis_ClearAll r s = (Some None, s') \<and> up s' \<and>
           (\<forall>k. keyspace s' k = (if cleared (keyspace s) k then None else keyspace s k))"
proof -
  obtain kr s1 where k: "RKeys r (getClientKey ''*'') s = (kr, s1)" by (cases "RKeys r (getClientKey ''*'') s")
  have star: "getClientKey ''*'' = getClientKey [] @ ''*''" by (simp add: getClientKey_def)
  from keys [OF k] assms(1) obtain ks where ks: "kr = Inr ks" "up s1" "keyspace s1 = keyspace s" by auto
  have set: "set ks = {k. (\<exists>i. k = getClientKey i) \<and> keyspace s k \<noteq> None}"
    using keys [OF k] ks(1) star unfolding client_key_prefix [symmetric] by (simp add: plain_client_key)
  show ?thesis
  proof (cases "ks = []")
    case True
    then have none: "keyspace s (getClientKey i) = None" for i using set by auto
    have "\<forall>k. keyspace s1 k = (if cleared (keyspace s) k then None else keyspace s k)"
      using none ks(3) by (auto simp: cleared_def)
    with True ks k show ?thesis by (simp add: redis_ClearAll_def)
  next
    case False
    have "\<forall>key \<in> set ks. \<exists>i. key = getClientKey i \<and> plain_pattern i" using set assms(2) by auto
    from clear_data_law [OF ks(2) this] obtain s2 where s2: "clear_data r ks s1 = (Some (), s2)" "up s2"
      "\<forall>k. keyspace s2 k = (if \<exists>i sk. getClientKey i \<in> set ks \<and> k = getDataKeyName i sk then None else keyspace s1 k)"
      by blast
    obtain er s3 where d: "RDel r ks s2 = (er, s3)" by (cases "RDel r ks s2")
    have "keyspace s3 k = (if cleared (keyspace s) k then None else keyspace s k)" for k
      using rdel [OF d False] s2 ks(3) set by (auto simp: redis_write_def cleared_def) (metis option.distinct(1))
    then show ?thesis using rdel [OF d False] s2 False ks k d by (simp add: redis_ClearAll_def)
  qed
qed

end

end
