(* ===== verification/Frames.thy ===== *)
theory Frames
  imports Notify Ddb_Clients Redis_Clients
begin

text \<open>
  What the stores leave alone.  An operation keeps a view of the state if it never changes it; an operation of a store
  keeps every view that the commands of its service keep.  So a store over one service disturbs neither the other
  service nor the topics.
\<close>

section \<open>Operations that keep a view\<close>

definition keeps :: "('s \<Rightarrow> 'a) \<Rightarrow> ('s \<Rightarrow> 'r \<times> 's) \<Rightarrow> bool" where
  "keeps f op \<longleftrightarrow> (\<forall>s. f (snd (op s)) = f s)"

lemma keepsD: "keeps f op \<Longrightarrow> op s = (r, s') \<Longrightarrow> f s' = f s"
  by (metis keeps_def snd_conv)

text \<open>The commands that the stores use while notifications are processed.\<close>

definition db_keeps :: "('s \<Rightarrow> 'a) \<Rightarrow> 's DynamoDB \<Rightarrow> bool" where
  "db_keeps f db \<longleftrightarrow>
     (\<forall>gi. keeps f (GetItem db gi)) \<and> (\<forall>pin. keeps f (PutItem db pin)) \<and> (\<forall>u. keeps f (UpdateItem db u))"

definition redis_keeps :: "('s \<Rightarrow> 'a) \<Rightarrow> 's Redis \<Rightarrow> bool" where
  "redis_keeps f r \<longleftrightarrow>
     (\<forall>key. keeps f (HGetAll r key)) \<and> (\<forall>key fs. keeps f (HMSet r key fs)) \<and> (\<forall>key fld. keeps f (HMGet r key fld))
     \<and> (\<forall>key fld. keeps f (HGet r key fld)) \<and> (\<forall>key fld n. keeps f (HIncrBy r key fld n))
     \<and> (\<forall>key d. keeps f (RExpire r key d)) \<and> (\<forall>key. keeps f (RGet r key))"

definition data_keeps :: "('s \<Rightarrow> 'a) \<Rightarrow> 's DataStore \<Rightarrow> bool" where
  "data_keeps f ds \<longleftrightarrow>
     (\<forall>clk scope rate w. keeps f (Acquire ds clk scope rate w)) \<and> (\<forall>c k. keeps f (Load ds c k))
     \<and> (\<forall>c k pv e. keeps f (UpsertCAS ds c k pv e))"

definition clients_keep :: "('s \<Rightarrow> 'a) \<Rightarrow> 's ClientStore \<Rightarrow> bool" where
  "clients_keep f cs \<longleftrightarrow> (\<forall>i. keeps f (GetClientConfig cs i))"

lemma db_keeps_simps:
  assumes "db_keeps f db"
  shows "f (snd (GetItem db gi s)) = f s" and "f (snd (PutItem db pin s)) = f s" and "f (snd (UpdateItem db u s)) = f s"
  using assms by (simp_all add: db_keeps_def keeps_def)

lemma redis_keeps_simps:
  assumes "redis_keeps f r"
  shows "f (snd (HGetAll r key s)) = f s" and "f (snd (HMSet r key fs s)) = f s" and "f (snd (HMGet r key fld s)) = f s"
    and "f (snd (HGet r key fld s)) = f s" and "f (snd (HIncrBy r key fld n s)) = f s"
    and "f (snd (RExpire r key d s)) = f s" and "f (snd (RGet r key s)) = f s"
  using assms by (simp_all add: redis_keeps_def keeps_def)

lemma data_keepsD:
  assumes "data_keeps f ds"
  shows "Acquire ds clk scope rate w s = (ar, s') \<Longrightarrow> f s' = f s" and "Load ds c k s = (lr, s') \<Longrightarrow> f s' = f s"
    and "UpsertCAS ds c k pv e s = (ur, s') \<Longrightarrow> f s' = f s"
  using assms unfolding data_keeps_def by (metis keepsD)+

section \<open>The stores keep what their service keeps\<close>

lemma ddb_data_keeps: "db_keeps f db \<Longrightarrow> data_keeps f (ddb_DataStore av db tn)"
  by (auto simp: data_keeps_def keeps_def ddb_DataStore_def ddb_Acquire_def ddb_Load_def ddb_UpsertCAS_def ddb_create_def
      Let_def split_beta db_keeps_simps split: option.splits sum.splits)

lemma ddb_clients_keep: "db_keeps f db \<Longrightarrow> clients_keep f (ddb_ClientStore av db tn)"
  by (auto simp: clients_keep_def keeps_def ddb_ClientStore_def ddb_GetClientConfig_def split_beta db_keeps_simps
      split: option.splits sum.splits)

lemma redis_acquire_keeps:
  assumes "redis_keeps f r"
  shows "f (snd (redis_Acquire r clk scope rate w s)) = f s"
proof -
  have 1: "f (snd (redis_count r key n s)) = f s" for key n s
    by (simp add: redis_count_def split_beta redis_keeps_simps [OF assms] split: sum.split)
  have 2: "f (snd (redis_hit r new key w s)) = f s" for new key s
    by (simp add: redis_hit_def redis_first_hit_def redis_next_hit_def split_beta redis_keeps_simps [OF assms] split: option.split)
  show ?thesis by (simp add: redis_Acquire_def Let_def split_beta 1 2 split: sum.split)
qed

lemma redis_upsert_keeps:
  assumes "redis_keeps f r"
  shows "f (snd (redis_UpsertCAS js r c k pv e s)) = f s"
proof -
  have 1: "f (snd (redis_check r c k pv s)) = f s"
    by (simp add: redis_check_def split_beta redis_keeps_simps [OF assms] split: sum.split option.split)
  have 2: "f (snd (redis_create js r c k e s)) = f s" "f (snd (redis_update js r c k cv e s)) = f s" for cv e s
    by (simp_all add: redis_create_def redis_update_def split_beta redis_keeps_simps [OF assms] split: sum.split option.split)
  show ?thesis by (simp add: redis_UpsertCAS_def Let_def split_beta 1 2 split: sum.split)
qed

lemma redis_data_keeps: "redis_keeps f r \<Longrightarrow> data_keeps f (redis_DataStore js r)"
  by (simp add: data_keeps_def keeps_def redis_DataStore_def redis_acquire_keeps redis_upsert_keeps)
    (simp add: redis_Load_def split_beta redis_keeps_simps split: sum.split)

lemma redis_clients_keep: "redis_keeps f r \<Longrightarrow> clients_keep f (redis_ClientStore js r)"
  by (simp add: clients_keep_def keeps_def redis_ClientStore_def redis_GetClientConfig_def split_beta redis_keeps_simps
      split: sum.split)

section \<open>Consequences for the interfaces\<close>

lemma quiet_storesI:
  assumes "data_keeps log ds" and "clients_keep log cs"
  shows "quiet_stores ds cs log"
proof (unfold_locales, goal_cases)
  case (4 i s gr s')
  have "keeps log (GetClientConfig cs i)" using assms(2) by (simp add: clients_keep_def)
  from keepsD [OF this 4] show ?case .
qed (rule data_keepsD [OF assms(1)], assumption)+

lemma seq_data_store_keeps:
  assumes "seq_data_store ds edges granted Inv up" and "data_keeps f ds"
  shows "seq_data_store ds edges granted (\<lambda>s. Inv s \<and> P (f s)) up"
  using data_keepsD [OF assms(2)] by (intro seq_data_store_frame [OF assms(1)]) auto

lemma data_store_keeps:
  assumes "data_store ds edges granted Inv up" and "data_keeps f ds"
  shows "data_store ds edges granted (\<lambda>s. Inv s \<and> P (f s)) up"
  using data_keepsD [OF assms(2)] by (intro data_store_frame [OF assms(1)]) auto

end
