(* ===== verification/Lambda.thy ===== *)
theory Lambda
  imports Notify
begin

text \<open>
  \<^verbatim>\<open>cmd/lambda-sqs/main.go\<close>: the Lambda function that processes batches of a FIFO queue.  Its JSON functions
  are those of \<^verbatim>\<open>encoding/json\<close>; they are the parameter \<open>StdJson\<close>, since the floating-point texts of that
  package are not modelled.  Logging has no effect on the state.
\<close>

record StdJson =
  std_Marshal :: "any \<Rightarrow> go_error + string"
  std_Unmarshal :: "string \<Rightarrow> payload \<times> go_error option"

text \<open>\<^verbatim>\<open>events.SQSMessage\<close>: an attribute may be missing or have no string value.\<close>

record SQSMessage =
  MessageId :: string
  sqs_Body :: string
  sqs_Attributes :: "string \<Rightarrow> string option option"

record 's LambdaHandler =
  lh_ClientStore :: "'s ClientStore"
  lh_DataStore :: "'s DataStore"
  lh_Publisher :: "'s Publisher"

record SQSMessageAttributes =
  att_ClientID :: string
  att_ClientKey :: string
  att_ClientIP :: string

definition string_attr :: "SQSMessage \<Rightarrow> string \<Rightarrow> string" where
  "string_attr record k = (case sqs_Attributes record k of Some (Some v) \<Rightarrow> v | _ \<Rightarrow> [])"

definition extractMessageAttributes :: "SQSMessage \<Rightarrow> go_error + SQSMessageAttributes" where
  "extractMessageAttributes record =
     (let clientID = string_attr record ClientIDHdrName;
          clientKey = string_attr record ClientKeyHdrName;
          ip = string_attr record ''ClientIP''
      in if clientID = [] then Inl (ErrMsg (''missing required attribute: '' @ ClientIDHdrName))
         else if clientKey = [] then Inl (ErrMsg (''missing required attribute: '' @ ClientKeyHdrName))
         else Inr \<lparr>att_ClientID = clientID, att_ClientKey = clientKey,
                   att_ClientIP = (if ip \<noteq> [] then ip else ''lambda'')\<rparr>)"

text \<open>The two publishing cases of the switch; \<^term>\<open>m1\<close> and \<^term>\<open>m2\<close> are their error messages.\<close>

definition lambda_publish ::
    "StdJson \<Rightarrow> 's Publisher \<Rightarrow> string \<Rightarrow> payload \<Rightarrow> string \<Rightarrow> string \<Rightarrow> 's \<Rightarrow> go_error option \<times> 's" where
  "lambda_publish J pub arn p m1 m2 s =
     (case std_Marshal J (AnyMap p) of
        Inl e \<Rightarrow> (Some (Wrap m1 e), s)
      | Inr b \<Rightarrow>
          (case PublishRaw pub arn b s of
             (Some e, s1) \<Rightarrow> (Some (Wrap m2 e), s1)
           | (None, s1) \<Rightarrow> (None, s1)))"

text \<open>The default branch of the switch has no counterpart: the actions are the six constructors.\<close>

definition lambda_switch ::
    "StdJson \<Rightarrow> 's Publisher \<Rightarrow> string \<Rightarrow> payload \<Rightarrow> run_result \<Rightarrow> 's \<Rightarrow> go_error option \<times> 's" where
  "lambda_switch J pub arn p r s =
     (case r of (action, statusCode, newPayload, err) \<Rightarrow>
        (case err of
           Some e \<Rightarrow> (Some (Wrap ''flow.Run'' e), s)
         | None \<Rightarrow>
             (case action of
                NoOp \<Rightarrow> (None, s)
              | SuppressFlapping \<Rightarrow> (None, s)
              | SuppressDedup \<Rightarrow> (None, s)
              | AggregateSent \<Rightarrow>
                  lambda_publish J pub arn newPayload ''marshal aggregate payload'' ''publish aggregate to SNS'' s
              | EdgeTriggeredForward \<Rightarrow> lambda_publish J pub arn p ''marshal payload'' ''publish to SNS'' s
              | ForwardedAsIs \<Rightarrow> lambda_publish J pub arn p ''marshal payload'' ''publish to SNS'' s)))"

definition processMessage ::
    "Libs \<Rightarrow> StdJson \<Rightarrow> req_clock \<Rightarrow> 's LambdaHandler \<Rightarrow> SQSMessage \<Rightarrow> cfg_cache \<times> 's \<Rightarrow>
       go_error option \<times> cfg_cache \<times> 's" where
  "processMessage L J clk h record st =
     (case extractMessageAttributes record of
        Inl e \<Rightarrow> (Some (Wrap ''extract attributes'' e), st)
      | Inr attrs \<Rightarrow>
          (case LoadCachedClientConfig (clk_cache clk) (lh_ClientStore h) (att_ClientID attrs) st of
             (Inl e, st1) \<Rightarrow> (Some (Wrap ''load client config'' e), st1)
           | (Inr cc, cache, s1) \<Rightarrow>
               (case Auth cc (att_ClientID attrs) (att_ClientKey attrs) of
                  Some e \<Rightarrow> (Some (Wrap ''authentication failed'' e), cache, s1)
                | None \<Rightarrow>
                    (case std_Unmarshal J (sqs_Body record) of
                       (_, Some e) \<Rightarrow> (Some (Wrap ''parse message body'' e), cache, s1)
                     | (p, None) \<Rightarrow>
                         (case Run L (clk_run clk) (att_ClientID attrs) (att_ClientIP attrs) cc (lh_DataStore h) p s1 of
                            (res, s2) \<Rightarrow>
                              (case lambda_switch J (lh_Publisher h) (SNSArn (Target (Trigger cc))) p res s2 of
                                 (err, s3) \<Rightarrow> (err, cache, s3)))))))"

text \<open>
  The loop over the records, each with the clock it is processed at; the result lists the identifiers of
  the failed ones.  The error result of the handler is always nil.
\<close>

fun HandleSQSEvent ::
    "Libs \<Rightarrow> StdJson \<Rightarrow> 's LambdaHandler \<Rightarrow> (req_clock \<times> SQSMessage) list \<Rightarrow> cfg_cache \<times> 's \<Rightarrow>
       string list \<times> cfg_cache \<times> 's" where
  "HandleSQSEvent L J h [] st = ([], st)"
| "HandleSQSEvent L J h ((clk, record) # records) st =
     (case processMessage L J clk h record st of
        (err, st1) \<Rightarrow>
          (case HandleSQSEvent L J h records st1 of
             (batchItemFailures, st2) \<Rightarrow>
               (if err \<noteq> None then MessageId record # batchItemFailures else batchItemFailures, st2)))"

section \<open>Batches\<close>

lemma HandleSQSEvent_append:
  "HandleSQSEvent L J h (xs @ ys) st =
     (case HandleSQSEvent L J h xs st of
        (f1, st1) \<Rightarrow> (case HandleSQSEvent L J h ys st1 of (f2, st2) \<Rightarrow> (f1 @ f2, st2)))"
  by (induction xs arbitrary: st) (auto split: prod.splits)

section \<open>The same pipeline as the HTTP handler\<close>

lemma sent_type_WriteHeader: "status w = None \<Longrightarrow> sent_type (WriteHeader code w) = content_type w"
  by (simp add: WriteHeader_def)

lemma sent_type_Write: "sent_type (snd (Write b (WriteHeader code w))) = sent_type (WriteHeader code w)"
  by (auto simp: Write_def WriteHeader_def Let_def)

lemma sent_type_http_Error:
  "sent_type (http_Error msg code w) = (if status w = None then ''text/plain; charset=utf-8'' else sent_type w)"
  unfolding http_Error_def sent_type_Write by (simp add: WriteHeader_def)

lemma sent_type_answer:
  assumes "status w = None"
  shows "sent_type (answer L code a w) = ''application/json''"
proof -
  obtain e w1 where w: "writeJSON L code (status_body a) w = (e, w1)" by (cases "writeJSON L code (status_body a) w")
  then have st: "status w1 = Some code" using status_writeJSON [OF assms, of L code "status_body a"] by simp
  have "sent_type (snd (writeJSON L code (status_body a) w)) = ''application/json''"
    using assms by (cases "json_marshal L (status_body a)")
      (simp_all add: writeJSON_def Let_def sent_type_Write sent_type_WriteHeader)
  with w have "sent_type w1 = ''application/json''" by simp
  then show ?thesis using st by (cases e) (simp_all add: answer_def w sent_type_http_Error)
qed

lemma lambda_publish_same:
  assumes "\<forall>v. std_Marshal J v = json_marshal L v" and "status w = None"
    and "publish_and_answer L pub arn p a w s = (w', s')" and "lambda_publish J pub arn p m1 m2 s = (err, s'')"
  shows "s'' = s' \<and> (err = None \<longleftrightarrow> sent_type w' = ''application/json'')"
  using assms by (auto simp: publish_and_answer_def lambda_publish_def sent_type_http_Error sent_type_answer
      split: sum.splits prod.splits option.splits)

lemma lambda_switch_same:
  assumes "\<forall>v. std_Marshal J v = json_marshal L v" and "status w = None"
    and "notify_switch L pub arn p r w s = (w', s')" and "lambda_switch J pub arn p r s = (err, s'')"
  shows "s'' = s' \<and> (err = None \<longleftrightarrow> sent_type w' = ''application/json'')"
proof (cases r)
  case (fields a code g e)
  show ?thesis
  proof (cases "e = None")
    case True
    then show ?thesis
      using assms(2-4)
      by (cases a) (auto simp: notify_switch_def lambda_switch_def fields sent_type_answer
          dest: lambda_publish_same [OF assms(1,2)])
  next
    case False
    then show ?thesis
      using assms(2-4) by (auto simp: notify_switch_def lambda_switch_def fields sent_type_http_Error)
  qed
qed

text \<open>A request and a message that carry the same identity, address and body.\<close>

definition same_input :: "Request \<Rightarrow> SQSMessage \<Rightarrow> bool" where
  "same_input r x \<longleftrightarrow>
     Method r = ''POST'' \<and> request_client r \<noteq> [] \<and> request_key r \<noteq> []
     \<and> string_attr x ClientIDHdrName = request_client r \<and> string_attr x ClientKeyHdrName = request_key r
     \<and> (if string_attr x ''ClientIP'' = [] then ''lambda'' else string_attr x ''ClientIP'') = clientIP r
     \<and> Body r = (sqs_Body x, None) \<and> sqs_Body x \<noteq> [] \<and> length (sqs_Body x) \<le> body_limit"

text \<open>The two JSON packages agree: on every value they print, and on the body.\<close>

definition same_json :: "Libs \<Rightarrow> StdJson \<Rightarrow> string \<Rightarrow> bool" where
  "same_json L J b \<longleftrightarrow>
     (\<forall>v. std_Marshal J v = json_marshal L v)
     \<and> (case (std_Unmarshal J b, json_unmarshal L b) of
          ((p, e), (q, e')) \<Rightarrow> (e = None \<longleftrightarrow> e' = None) \<and> (e = None \<longrightarrow> p = q))"

lemma read_limited_short: "length b \<le> body_limit \<Longrightarrow> read_limited body_limit (b, None) = (b, None)"
  by (simp add: read_limited_def)

lemma process_same_as_notify:
  assumes "same_input r x" and "same_json L J (sqs_Body x)" and "status w = None"
    and n: "handleNotify L clk \<lparr>h_ClientStore = cs, h_DataStore = ds, h_Pub = pub\<rparr> r w st = (w', st')"
    and m: "processMessage L J clk \<lparr>lh_ClientStore = cs, lh_DataStore = ds, lh_Publisher = pub\<rparr> x st = (err, st'')"
  shows "st'' = st' \<and> (err = None \<longleftrightarrow> sent_type w' = ''application/json'')"
proof -
  let ?c = "request_client r" and ?key = "request_key r"
  have at: "extractMessageAttributes x = Inr \<lparr>att_ClientID = ?c, att_ClientKey = ?key, att_ClientIP = clientIP r\<rparr>"
    using assms(1) by (auto simp: extractMessageAttributes_def same_input_def Let_def split: if_splits)
  have post: "Method r = ''POST''" and body: "read_limited body_limit (Body r) = (sqs_Body x, None)" "sqs_Body x \<noteq> []"
    using assms(1) read_limited_short by (auto simp: same_input_def)
  obtain lr c1 s1 where l: "LoadCachedClientConfig (clk_cache clk) cs ?c st = (lr, c1, s1)" by (metis surj_pair)
  obtain p pe q qe where u: "std_Unmarshal J (sqs_Body x) = (p, pe)" "json_unmarshal L (sqs_Body x) = (q, qe)" by (metis surj_pair)
  have uj: "pe = None \<longleftrightarrow> qe = None" "pe = None \<longrightarrow> p = q" "\<forall>v. std_Marshal J v = json_marshal L v"
    using assms(2) u by (auto simp: same_json_def)
  note hn = handleNotify_def request_client_def [symmetric] request_key_def [symmetric] Let_def
  show ?thesis
  proof (cases lr)
    case (Inl e)
    with n m l at post assms(3) show ?thesis by (auto simp: hn processMessage_def sent_type_http_Error)
  next
    case (Inr cc)
    show ?thesis
    proof (cases "Auth cc ?c ?key = None \<and> pe = None")
      case False
      with n m l at post Inr u uj body assms(3) show ?thesis
        by (auto simp: hn processMessage_def notify_body_def sent_type_http_Error split: option.splits)
    next
      case True
      obtain res s2 where run: "Run L (clk_run clk) ?c (clientIP r) cc ds q s1 = (res, s2)" by (metis surj_pair)
      obtain w3 s3 where sw: "notify_switch L pub (SNSArn (Target (Trigger cc))) q res w s2 = (w3, s3)" by (metis surj_pair)
      obtain e3 s4 where lw: "lambda_switch J pub (SNSArn (Target (Trigger cc))) q res s2 = (e3, s4)" by (metis surj_pair)
      have "st' = (c1, s3)" "w' = w3" "st'' = (c1, s4)" "err = e3"
        using n m l at post Inr u uj body True run sw lw by (auto simp: hn processMessage_def notify_body_def)
      then show ?thesis using lambda_switch_same [OF uj(3) assms(3) sw lw] by simp
    qed
  qed
qed

end
