(* ===== verification/Backends_Env.thy ===== *)
theory Backends_Env
  imports Ddb_Clients Redis_Clients Lambda
begin

text \<open>
  \<^verbatim>\<open>internal/backends/helpers.go\<close>, and the \<^verbatim>\<open>main\<close> of the Lambda function: which stores the environment
  selects and with which client options.  The environment is a function from names to values, empty when a
  variable is not set.  The constructors of the client libraries are parameters (\<open>Services\<close>).
\<close>

type_synonym env = "string \<Rightarrow> string"

section \<open>Client options\<close>

text \<open>\<^verbatim>\<open>Credentials\<close> is \<^const>\<open>None\<close> for those of the ambient configuration.\<close>

record AwsOptions =
  BaseEndpoint :: "string option"
  Region :: string
  Credentials :: "(string \<times> string) option"

text \<open>\<^verbatim>\<open>TLSConfig\<close>: nil, or TLS 1.2 with the Amazon root as the only authority.\<close>

record RedisOptions =
  Addr :: string
  Username :: string
  Password :: string
  DB :: int
  TLSConfig :: bool

record 's Services =
  LoadDefaultConfig :: "go_error + AwsOptions"
  dynamodb_NewFromConfig :: "AwsOptions \<Rightarrow> 's DynamoDB"
  sns_NewFromConfig :: "AwsOptions \<Rightarrow> 's SnsClient"
  redis_NewClient :: "RedisOptions \<Rightarrow> 's Redis"
  redis_Ping :: "RedisOptions \<Rightarrow> 's \<Rightarrow> go_error option \<times> 's"
  AppendCertsFromPEM :: bool
  AvCodec_of :: AvCodec
  JsonCodec_of :: JsonCodec

section \<open>helpers.go\<close>

definition BackendRedis :: string where
  "BackendRedis = ''redis''"

text \<open>The names of the variables.\<close>

definition ClientBackendEnvKey :: string where [simp]: "ClientBackendEnvKey = ''CLIENT_BACKEND''"
definition DataBackendEnvKey :: string where [simp]: "DataBackendEnvKey = ''DATA_BACKEND''"
definition DDBEndpointKey :: string where [simp]: "DDBEndpointKey = ''DDB_ENDPOINT''"
definition DDBTableKey :: string where [simp]: "DDBTableKey = ''DDB_TABLE''"
definition RedisHost :: string where [simp]: "RedisHost = ''REDIS_HOST''"
definition RedisPort :: string where [simp]: "RedisPort = ''REDIS_PORT''"
definition RedisUser :: string where [simp]: "RedisUser = ''REDIS_USER''"
definition RedisPass :: string where [simp]: "RedisPass = ''REDIS_PASS''"
definition RedisTLS :: string where [simp]: "RedisTLS = ''REDIS_SSL''"
definition RedisDBNum :: string where [simp]: "RedisDBNum = ''REDIS_DB_NUM''"

definition getenv :: "env \<Rightarrow> string \<Rightarrow> string \<Rightarrow> string" where
  "getenv env key def = (let v = env key in if v = [] then def else v)"

definition parseBoolean :: "string \<Rightarrow> bool" where
  "parseBoolean s = (case ParseBool s of None \<Rightarrow> False | Some b \<Rightarrow> b)"

definition ddbClientFromEnv :: "'s Services \<Rightarrow> env \<Rightarrow> go_error + AwsOptions" where
  "ddbClientFromEnv sv env =
     (let de = env DDBEndpointKey in
      case LoadDefaultConfig sv of
        Inl e \<Rightarrow> Inl e
      | Inr awsCfg \<Rightarrow>
          Inr (if de \<noteq> []
               then awsCfg\<lparr>BaseEndpoint := Some de, Region := getenv env ''AWS_REGION'' ''us-east-1'',
                           Credentials := Some (getenv env ''AWS_ACCESS_KEY_ID'' ''x'', getenv env ''AWS_SECRET_ACCESS_KEY'' ''x'')\<rparr>
               else awsCfg))"

definition redisOptionsFromEnv :: "'s Services \<Rightarrow> env \<Rightarrow> go_error + RedisOptions" where
  "redisOptionsFromEnv sv env =
     (let tlsEnabled = parseBoolean (getenv env RedisTLS ''false'') in
      case Atoi (getenv env RedisDBNum ''0'') of
        Inl e \<Rightarrow> Inl (num_err ''invalid Redis DB number'' e)
      | Inr dbNum \<Rightarrow>
          if tlsEnabled \<and> \<not> AppendCertsFromPEM sv then Inl (ErrMsg ''failed to retrieve CA certificate'')
          else Inr \<lparr>Addr = getenv env RedisHost ''localhost'' @ '':'' @ getenv env RedisPort ''6379'',
                    Username = env RedisUser, Password = env RedisPass, DB = dbNum, TLSConfig = tlsEnabled\<rparr>)"

definition redisClientFromEnv :: "'s Services \<Rightarrow> env \<Rightarrow> 's \<Rightarrow> (go_error + 's Redis) \<times> 's" where
  "redisClientFromEnv sv env s =
     (case redisOptionsFromEnv sv env of
        Inl e \<Rightarrow> (Inl e, s)
      | Inr redisConfig \<Rightarrow>
          (case redis_Ping sv redisConfig s of
             (Some e, s1) \<Rightarrow> (Inl (Wrap ''failed to ping Redis'' e), s1)
           | (None, s1) \<Rightarrow> (Inr (redis_NewClient sv redisConfig), s1)))"

text \<open>
  The DynamoDB stores create their table first; if that fails the process exits (\<^const>\<open>None\<close>).
\<close>

definition ddb_NewClientStore :: "AvCodec \<Rightarrow> 's DynamoDB \<Rightarrow> string \<Rightarrow> 's \<Rightarrow> 's ClientStore option \<times> 's" where
  "ddb_NewClientStore av db table s =
     (case createTableIfNotExists db table s of
        (None, s1) \<Rightarrow> (None, s1)
      | (Some _, s1) \<Rightarrow> (Some (ddb_ClientStore av db table), s1))"

definition ddb_NewDataStore :: "AvCodec \<Rightarrow> 's DynamoDB \<Rightarrow> string \<Rightarrow> 's \<Rightarrow> 's DataStore option \<times> 's" where
  "ddb_NewDataStore av db table s =
     (case createTableIfNotExists db table s of
        (None, s1) \<Rightarrow> (None, s1)
      | (Some _, s1) \<Rightarrow> (Some (ddb_DataStore av db table), s1))"

definition ClientBackendFromEnv ::
    "'s Services \<Rightarrow> env \<Rightarrow> 's \<Rightarrow> (go_error + 's ClientStore) option \<times> 's" where
  "ClientBackendFromEnv sv env s =
     (if env ClientBackendEnvKey = BackendRedis then
        (case redisClientFromEnv sv env s of
           (Inl e, s1) \<Rightarrow> (Some (Inl e), s1)
         | (Inr cli, s1) \<Rightarrow> (Some (Inr (redis_ClientStore (JsonCodec_of sv) cli)), s1))
      else
        (case ddbClientFromEnv sv env of
           Inl e \<Rightarrow> (Some (Inl e), s)
         | Inr opts \<Rightarrow>
             (case ddb_NewClientStore (AvCodec_of sv) (dynamodb_NewFromConfig sv opts) (getenv env DDBTableKey ''notify_guard'') s of
                (None, s1) \<Rightarrow> (None, s1)
              | (Some cs, s1) \<Rightarrow> (Some (Inr cs), s1))))"

definition DataBackendFromEnv ::
    "'s Services \<Rightarrow> env \<Rightarrow> 's \<Rightarrow> (go_error + 's DataStore) option \<times> 's" where
  "DataBackendFromEnv sv env s =
     (if env DataBackendEnvKey = BackendRedis then
        (case redisClientFromEnv sv env s of
           (Inl e, s1) \<Rightarrow> (Some (Inl e), s1)
         | (Inr cli, s1) \<Rightarrow> (Some (Inr (redis_DataStore (JsonCodec_of sv) cli)), s1))
      else
        (case ddbClientFromEnv sv env of
           Inl e \<Rightarrow> (Some (Inl e), s)
         | Inr opts \<Rightarrow>
             (case ddb_NewDataStore (AvCodec_of sv) (dynamodb_NewFromConfig sv opts) (getenv env DDBTableKey ''notify_guard'') s of
                (None, s1) \<Rightarrow> (None, s1)
              | (Some ds, s1) \<Rightarrow> (Some (Inr ds), s1))))"

section \<open>main of the Lambda function\<close>

definition snsOptionsFromEnv :: "env \<Rightarrow> AwsOptions \<Rightarrow> AwsOptions" where
  "snsOptionsFromEnv env o1 =
     (let se = env ''SNS_ENDPOINT'' in
      if se \<noteq> [] then
        o1\<lparr>BaseEndpoint := Some se, Region := (if Region o1 = [] then ''us-east-1'' else Region o1),
            Credentials := Some (''test'', ''test'')\<rparr>
      else o1)"

text \<open>
  \<open>dotenv\<close> is \<^verbatim>\<open>godotenv.Load\<close>: the environment with the variables of a file added (its error is only
  logged).  The result is the handler that is started, or \<^const>\<open>None\<close> when the process exits.
\<close>

definition lambda_main ::
    "'s Services \<Rightarrow> (string \<Rightarrow> env \<Rightarrow> env) \<Rightarrow> env \<Rightarrow> 's \<Rightarrow> 's LambdaHandler option \<times> 's" where
  "lambda_main sv dotenv env0 s =
     (let env = dotenv (getenv env0 ''ENV_FILE'' ''.env'') env0 in
      case LoadDefaultConfig sv of
        Inl _ \<Rightarrow> (None, s)
      | Inr awsCfg \<Rightarrow>
          let publisher = NewSNS (sns_NewFromConfig sv (snsOptionsFromEnv env awsCfg)) in
          (case ClientBackendFromEnv sv env s of
             (None, s1) \<Rightarrow> (None, s1)
           | (Some (Inl _), s1) \<Rightarrow> (None, s1)
           | (Some (Inr clientStore), s1) \<Rightarrow>
               (case DataBackendFromEnv sv env s1 of
                  (None, s2) \<Rightarrow> (None, s2)
                | (Some (Inl _), s2) \<Rightarrow> (None, s2)
                | (Some (Inr dataStore), s2) \<Rightarrow>
                    (Some \<lparr>lh_ClientStore = clientStore, lh_DataStore = dataStore, lh_Publisher = publisher\<rparr>, s2))))"

section \<open>Lemmas\<close>

lemma getenv_set: "env k \<noteq> [] \<Longrightarrow> getenv env k d = env k"
  by (simp add: getenv_def)

text \<open>The only texts for true; anything else, a misspelling included, turns TLS off.\<close>

lemma parseBoolean_iff: "parseBoolean s \<longleftrightarrow> s \<in> {''1'', ''t'', ''T'', ''true'', ''TRUE'', ''True''}"
  by (auto simp: parseBoolean_def ParseBool_def)

text \<open>So the options are built without TLS, and without an error, for a value such as \<^verbatim>\<open>yes\<close>.\<close>

lemma redis_tls_only_if_spelled:
  assumes "Atoi (getenv env ''REDIS_DB_NUM'' ''0'') = Inr n" and "AppendCertsFromPEM sv"
  shows "\<exists>opts. redisOptionsFromEnv sv env = Inr opts \<and> DB opts = n
      \<and> (TLSConfig opts \<longleftrightarrow> env ''REDIS_SSL'' \<in> {''1'', ''t'', ''T'', ''true'', ''TRUE'', ''True''})"
  using assms by (auto simp: redisOptionsFromEnv_def parseBoolean_iff getenv_def Let_def)

end
