(* ===== verification/Deployment.thy ===== *)
theory Deployment
  imports Frames Backends_Env
begin

text \<open>
  The program as it is deployed: stores and publisher are built from the environment.  The locale \<open>deployed\<close> says
  that the services behave as documented and are separate: a call to one changes neither the data of another nor
  the topics.  Under it, whatever backends the environment selects, the collaborators that are built
  form a \<open>notify_system\<close>.
\<close>

section \<open>The state a deployment works on\<close>

abbreviation redis_data :: "env \<Rightarrow> bool" where
  "redis_data env \<equiv> env ''DATA_BACKEND'' = ''redis''"

abbreviation redis_clients :: "env \<Rightarrow> bool" where
  "redis_clients env \<equiv> env ''CLIENT_BACKEND'' = ''redis''"

definition env_table :: "env \<Rightarrow> string" where
  "env_table env = getenv env ''DDB_TABLE'' ''notify_guard''"

definition env_edges :: "'s Services \<Rightarrow> ('s \<Rightarrow> tables) \<Rightarrow> ('s \<Rightarrow> keyspace) \<Rightarrow> env \<Rightarrow> 's \<Rightarrow> edge_map" where
  "env_edges sv table keyspace env s =
     (if redis_data env then redis_edges (JsonCodec_of sv) (keyspace s)
      else ddb_edges (AvCodec_of sv) (table s) (env_table env))"

definition env_granted :: "('s \<Rightarrow> tables) \<Rightarrow> ('s \<Rightarrow> keyspace) \<Rightarrow> env \<Rightarrow> 's \<Rightarrow> string \<times> int \<Rightarrow> int" where
  "env_granted table keyspace env s =
     (if redis_data env then redis_granted (keyspace s) else ddb_granted (table s) (env_table env))"

definition env_inv :: "'s Services \<Rightarrow> ('s \<Rightarrow> tables) \<Rightarrow> ('s \<Rightarrow> keyspace) \<Rightarrow> env \<Rightarrow> 's \<Rightarrow> bool" where
  "env_inv sv table keyspace env s \<longleftrightarrow>
     (if redis_data env then redis_inv (JsonCodec_of sv) (keyspace s)
      else ddb_inv (AvCodec_of sv) (table s) (env_table env))
     \<and> (redis_clients env \<longrightarrow> redis_profiles_ok (JsonCodec_of sv) (keyspace s))"

section \<open>What the environment builds\<close>

lemma DataBackendFromEnv_cases:
  assumes "DataBackendFromEnv sv env s = (Some (Inr ds), s')"
  obtains (redis) opts where "redis_data env" "ds = redis_DataStore (JsonCodec_of sv) (redis_NewClient sv opts)"
    | (ddb) opts where "\<not> redis_data env" "ds = ddb_DataStore (AvCodec_of sv) (dynamodb_NewFromConfig sv opts) (env_table env)"
  using assms by (auto simp: DataBackendFromEnv_def BackendRedis_def redisClientFromEnv_def ddb_NewDataStore_def env_table_def
      split: prod.splits sum.splits option.splits if_splits)

lemma ClientBackendFromEnv_cases:
  assumes "ClientBackendFromEnv sv env s = (Some (Inr cs), s')"
  obtains (redis) opts where "redis_clients env" "cs = redis_ClientStore (JsonCodec_of sv) (redis_NewClient sv opts)"
    | (ddb) opts where "\<not> redis_clients env" "cs = ddb_ClientStore (AvCodec_of sv) (dynamodb_NewFromConfig sv opts) (env_table env)"
  using assms by (auto simp: ClientBackendFromEnv_def BackendRedis_def redisClientFromEnv_def ddb_NewClientStore_def env_table_def
      split: prod.splits sum.splits option.splits if_splits)

section \<open>Redis data and Redis configurations\<close>

context redis_backend
begin

text \<open>The data operations leave the configurations alone.\<close>

lemma data_keeps_profiles:
  assumes "seq_data_store (redis_DataStore js r) edges granted (\<lambda>s. redis_inv js (keyspace s)) up"
  shows "seq_data_store (redis_DataStore js r) edges granted
    (\<lambda>s. redis_inv js (keyspace s) \<and> redis_profiles_ok js (keyspace s)) up"
proof (rule seq_data_store_frame [OF assms], goal_cases)
  case (1 clk scope rate w s ar s')
  show ?case
  proof (cases "0 < rate")
    case True
    obtain ok err where a: "redis_Acquire r clk scope rate w s = ((ok, err), s')"
      using 1(5) by (cases ar) (simp add: redis_DataStore_def)
    from acquire_law [OF 1(1) True 1(3,4) a refl refl] 1(2) show ?thesis by (simp add: redis_profiles_ok_def)
  next
    case False
    then show ?thesis using 1(2,5) by (simp add: redis_DataStore_def redis_Acquire_def)
  qed
next
  case (2 c k s lr s')
  obtain eo v err where l: "redis_Load js r c k s = ((eo, v, err), s')" using 2(4) by (cases lr) (simp add: redis_DataStore_def)
  from load_law [OF 2(1,3) l] 2(2) show ?case by simp
next
  case (3 c k pv e s ur s')
  have "redis_UpsertCAS js r c k pv e s = (ur, s')" using 3(4) by (simp add: redis_DataStore_def)
  from upsert_frame [OF 3(1,3) _ this] 3(2) show ?case by (simp add: redis_profiles_ok_def)
qed

lemma get_frame_redis:
  assumes "redis_profiles_ok js (keyspace s)" and "redis_GetClientConfig js r i s = (gr, s')"
  shows "keyspace s' = keyspace s \<and> (up s \<longrightarrow> up s')"
proof -
  obtain vr s1 where g: "RGet r (getClientKey i) s = (vr, s1)" by (cases "RGet r (getClientKey i) s")
  have "\<forall>h. keyspace s (getClientKey i) \<noteq> Some (RHash h)" using assms(1) by (auto simp: redis_profiles_ok_def)
  from rget [OF g this] show ?thesis using assms(2) g by (auto simp: redis_GetClientConfig_def split: sum.splits)
qed

end

context ddb_backend
begin

lemma get_frame_ddb:
  assumes "ddb_GetClientConfig av db tn i s = (gr, s')"
  shows "table s' = table s \<and> (up s \<longrightarrow> up s')"
proof -
  let ?gi = "\<lparr>gi_TableName = tn, gi_Key = (pkClient i, skProfile), gi_ConsistentRead = True\<rparr>"
  obtain out s1 where g: "GetItem db ?gi s = (out, s1)" by (cases "GetItem db ?gi s")
  have "s' = s1" using assms g by (auto simp: ddb_GetClientConfig_def split: sum.splits option.splits if_splits)
  then show ?thesis using get_item [OF g] by simp
qed

end

section \<open>The services of a deployment\<close>

locale deployed =
  fixes sv :: "'s Services"
    and table :: "'s \<Rightarrow> tables"
    and keyspace :: "'s \<Rightarrow> keyspace"
    and log :: "'s \<Rightarrow> (string \<times> string) list"
    and up :: "'s \<Rightarrow> bool"
  assumes av: "attributevalue (AvCodec_of sv)"
    and js: "redis_json (JsonCodec_of sv)"
    and ddb: "dynamodb (dynamodb_NewFromConfig sv ao) table up"
    and redis: "redis_service (redis_NewClient sv ro) keyspace up"
    and sns: "sns_service (sns_NewFromConfig sv ao) log"
    and ddb_apart: "db_keeps log (dynamodb_NewFromConfig sv ao)" "db_keeps keyspace (dynamodb_NewFromConfig sv ao)"
    and redis_apart: "redis_keeps log (redis_NewClient sv ro)" "redis_keeps table (redis_NewClient sv ro)"
    and sns_apart: "Publish (sns_NewFromConfig sv ao) inp s = (err, s') \<Longrightarrow>
      table s' = table s \<and> keyspace s' = keyspace s \<and> (up s \<longrightarrow> up s' \<and> err = None)"
begin

lemma on_redis: "redis_backend (JsonCodec_of sv) (redis_NewClient sv opts) keyspace up"
  by (rule redis_backend.intro [OF js redis])

lemma on_ddb: "ddb_backend (AvCodec_of sv) (dynamodb_NewFromConfig sv opts) table up"
  by (rule ddb_backend.intro [OF av ddb])

lemma data_backend_log: "DataBackendFromEnv sv env s = (Some (Inr ds), s') \<Longrightarrow> data_keeps log ds"
  by (erule DataBackendFromEnv_cases) (simp_all add: redis_data_keeps ddb_data_keeps ddb_apart redis_apart)

lemma client_backend_log: "ClientBackendFromEnv sv env s = (Some (Inr cs), s') \<Longrightarrow> clients_keep log cs"
  by (erule ClientBackendFromEnv_cases) (simp_all add: redis_clients_keep ddb_clients_keep ddb_apart redis_apart)

text \<open>Reading a configuration changes no data of either service.\<close>

lemma client_backend_get:
  assumes "ClientBackendFromEnv sv env s0 = (Some (Inr cs), s1)" and "env_inv sv table keyspace env s"
    and "GetClientConfig cs i s = (gr, s')"
  shows "table s' = table s \<and> keyspace s' = keyspace s \<and> (up s \<longrightarrow> up s')"
  using assms(1)
proof (cases rule: ClientBackendFromEnv_cases)
  case (redis opts)
  have g: "redis_GetClientConfig (JsonCodec_of sv) (redis_NewClient sv opts) i s = (gr, s')"
    using assms(3) redis by (simp add: redis_ClientStore_def)
  have "table s' = table s"
    using redis_clients_keep [OF redis_apart(2), of "JsonCodec_of sv" opts] g
    by (auto simp: clients_keep_def redis_ClientStore_def dest: keepsD)
  then show ?thesis
    using redis_backend.get_frame_redis [OF on_redis _ g] assms(2) redis by (simp add: env_inv_def)
next
  case (ddb opts)
  have g: "ddb_GetClientConfig (AvCodec_of sv) (dynamodb_NewFromConfig sv opts) (env_table env) i s = (gr, s')"
    using assms(3) ddb by (simp add: ddb_ClientStore_def)
  have "keyspace s' = keyspace s"
    using ddb_clients_keep [OF ddb_apart(2), of "AvCodec_of sv" opts "env_table env"] g
    by (auto simp: clients_keep_def ddb_ClientStore_def dest: keepsD)
  then show ?thesis using ddb_backend.get_frame_ddb [OF on_ddb g] by simp
qed

lemma data_backend_seq:
  assumes "DataBackendFromEnv sv env s = (Some (Inr ds), s')"
  shows "seq_data_store ds (env_edges sv table keyspace env) (env_granted table keyspace env) (env_inv sv table keyspace env) up"
  using assms
proof (cases rule: DataBackendFromEnv_cases)
  case (redis opts)
  note st = redis_backend.store_contract [OF on_redis, of opts]
  show ?thesis
    using redis st redis_backend.data_keeps_profiles [OF on_redis st]
    by (cases "redis_clients env") (simp_all add: env_edges_def [abs_def] env_granted_def [abs_def] env_inv_def [abs_def])
next
  case (ddb opts)
  note st = data_store.axioms(1) [OF ddb_backend.store_contract [OF on_ddb, of opts "env_table env"]]
  show ?thesis
    using ddb seq_data_store_keeps [OF st ddb_data_keeps [OF ddb_apart(2)], of "\<lambda>K. redis_clients env \<longrightarrow> redis_profiles_ok (JsonCodec_of sv) K"]
    by (simp add: env_edges_def [abs_def] env_granted_def [abs_def] env_inv_def [abs_def])
qed

lemma data_backend_cas:
  assumes "DataBackendFromEnv sv env s = (Some (Inr ds), s')" and "\<not> redis_data env"
  shows "data_store ds (env_edges sv table keyspace env) (env_granted table keyspace env) (env_inv sv table keyspace env) up"
  using assms(1)
proof (cases rule: DataBackendFromEnv_cases)
  case (ddb opts)
  note st = ddb_backend.store_contract [OF on_ddb, of opts "env_table env"]
  show ?thesis
    using ddb data_store_keeps [OF st ddb_data_keeps [OF ddb_apart(2)], of "\<lambda>K. redis_clients env \<longrightarrow> redis_profiles_ok (JsonCodec_of sv) K"]
    by (simp add: env_edges_def [abs_def] env_granted_def [abs_def] env_inv_def [abs_def])
qed (use assms(2) in simp)

lemma system:
  assumes "DataBackendFromEnv sv env s0 = (Some (Inr ds), s1)" and "ClientBackendFromEnv sv env t0 = (Some (Inr cs), t1)"
  shows "notify_system ds (env_edges sv table keyspace env) (env_granted table keyspace env) (env_inv sv table keyspace env) up
    cs log (NewSNS (sns_NewFromConfig sv ao))"
proof (intro notify_system.intro notify_stores.intro data_backend_seq [OF assms(1)]
    quiet_storesI [OF data_backend_log [OF assms(1)] client_backend_log [OF assms(2)]] notify_system_axioms.intro)
  show "publisher (NewSNS (sns_NewFromConfig sv ao)) log"
    by (rule sns_service.publisher_contract [OF sns])
next
  fix arn m s err s'
  assume p: "PublishRaw (NewSNS (sns_NewFromConfig sv ao)) arn m s = (err, s')" and i: "env_inv sv table keyspace env s"
  from sns_apart [OF p [unfolded NewSNS_def sns_PublishRaw_def, simplified]] i
  show "env_inv sv table keyspace env s' \<and> env_edges sv table keyspace env s' = env_edges sv table keyspace env s
      \<and> env_granted table keyspace env s' = env_granted table keyspace env s \<and> (up s \<longrightarrow> up s' \<and> err = None)"
    by (simp add: env_inv_def env_edges_def env_granted_def)
next
  fix i s gr s'
  assume "GetClientConfig cs i s = (gr, s')" and inv: "env_inv sv table keyspace env s"
  from client_backend_get [OF assms(2) inv this(1)] inv
  show "env_inv sv table keyspace env s' \<and> env_edges sv table keyspace env s' = env_edges sv table keyspace env s
      \<and> env_granted table keyspace env s' = env_granted table keyspace env s \<and> (up s \<longrightarrow> up s')"
    by (simp add: env_inv_def env_edges_def env_granted_def)
qed

end

end
