(* ===== verification/Notify_Reference.thy ===== *)
theory Notify_Reference
  imports Frames Ddb_Reference Ref_Libs
begin

text \<open>
  The in-memory world as a whole system: the DynamoDB stores and an SNS client that records what it
  accepts.  The interpretation discharges the laws of \<open>notify_system\<close> for them.
\<close>

definition ref_sns :: "world SnsClient" where
  "ref_sns = \<lparr>Publish = (\<lambda>inp s. w_write True (\<lambda>s. s\<lparr>sent := sent s @ [(TopicArn inp, Message inp)]\<rparr>) s)\<rparr>"

lemma next_fault_sent: "next_fault s = (fo, s') \<Longrightarrow> sent s' = sent s"
  by (auto simp: next_fault_def split: list.splits)

lemma w_read_sent: "w_read x s = (r, s') \<Longrightarrow> sent s' = sent s"
  by (auto simp: w_read_def split: prod.splits option.splits dest: next_fault_sent)

lemma w_write_sent: "w_write ok f s = (r, s') \<Longrightarrow> (\<And>s1. sent (f s1) = sent s1) \<Longrightarrow> sent s' = sent s"
  by (auto simp: w_write_def split: prod.splits option.splits if_splits dest: next_fault_sent)

lemma set_world_row_sent [simp]: "sent (set_world_row tn rk it s) = sent s"
  by (simp add: set_world_row_def)

lemma ref_db_keeps: "db_keeps sent ref_db"
  unfolding db_keeps_def keeps_def
  by (simp add: ref_db_def w_read_sent [OF surjective_pairing] w_write_sent [OF surjective_pairing])

lemma ref_publish:
  assumes "Publish ref_sns inp s = (err, s')"
  shows "log_write (err = None) (sent s) (TopicArn inp, Message inp) (sent s')"
    and "w_table s' = w_table s" and "w_up s \<Longrightarrow> w_up s' \<and> err = None"
proof -
  obtain fo s1 where f: "next_fault s = (fo, s1)" by (cases "next_fault s")
  note s1 = next_fault_sent [OF f] next_fault_table [OF f]
  have t: "w_table (s1\<lparr>sent := x\<rparr>) = w_table s1" for x by (rule ext)+ (simp add: w_table_def)
  show "log_write (err = None) (sent s) (TopicArn inp, Message inp) (sent s')" "w_table s' = w_table s"
    using assms f s1 t by (auto simp: ref_sns_def w_write_def log_write_def split: option.splits prod.splits if_splits)
  show "w_up s \<Longrightarrow> w_up s' \<and> err = None"
    using assms by (auto simp: ref_sns_def w_write_def next_fault_up w_up_def)
qed

interpretation ref_topic: sns_service ref_sns sent
  by unfold_locales (rule ref_publish(1))

interpretation refn: notify_system "ddb_DataStore ref_av ref_db ''notify_guard''"
    "\<lambda>s. ddb_edges ref_av (w_table s) ''notify_guard''" "\<lambda>s. ddb_granted (w_table s) ''notify_guard''"
    "\<lambda>s. ddb_inv ref_av (w_table s) ''notify_guard''" w_up
    "ddb_ClientStore ref_av ref_db ''notify_guard''" sent "NewSNS ref_sns"
proof (intro notify_system.intro ref.store.seq_data_store_axioms notify_stores.intro ref_topic.publisher_axioms)
  show "quiet_stores (ddb_DataStore ref_av ref_db ''notify_guard'') (ddb_ClientStore ref_av ref_db ''notify_guard'') sent"
    by (intro quiet_storesI ddb_data_keeps ddb_clients_keep ref_db_keeps)
next
  show "notify_system_axioms (\<lambda>s. ddb_edges ref_av (w_table s) ''notify_guard'') (\<lambda>s. ddb_granted (w_table s) ''notify_guard'')
    (\<lambda>s. ddb_inv ref_av (w_table s) ''notify_guard'') w_up (ddb_ClientStore ref_av ref_db ''notify_guard'') (NewSNS ref_sns)"
  proof (rule notify_system_axioms.intro)
    fix arn m s err s'
    assume "PublishRaw (NewSNS ref_sns) arn m s = (err, s')" "ddb_inv ref_av (w_table s) ''notify_guard''"
    then show "ddb_inv ref_av (w_table s') ''notify_guard'' \<and> ddb_edges ref_av (w_table s') ''notify_guard'' = ddb_edges ref_av (w_table s) ''notify_guard''
        \<and> ddb_granted (w_table s') ''notify_guard'' = ddb_granted (w_table s) ''notify_guard'' \<and> (w_up s \<longrightarrow> w_up s' \<and> err = None)"
      using ref_publish [of _ s err s'] by (auto simp: NewSNS_def sns_PublishRaw_def)
  next
    fix i s gr s'
    assume "GetClientConfig (ddb_ClientStore ref_av ref_db ''notify_guard'') i s = (gr, s')" "ddb_inv ref_av (w_table s) ''notify_guard''"
    moreover from this(1) have "w_table s' = w_table s \<and> (w_up s \<longrightarrow> w_up s')"
      using w_read_law by (fastforce simp: ddb_ClientStore_def ddb_GetClientConfig_def ref_db_def
          split: prod.splits sum.splits option.splits)
    ultimately show "ddb_inv ref_av (w_table s') ''notify_guard'' \<and> ddb_edges ref_av (w_table s') ''notify_guard'' = ddb_edges ref_av (w_table s) ''notify_guard''
        \<and> ddb_granted (w_table s') ''notify_guard'' = ddb_granted (w_table s) ''notify_guard'' \<and> (w_up s \<longrightarrow> w_up s')"
      by simp
  qed
qed

end
