(* ===== verification/Redis_Reference.thy ===== *)
theory Redis_Reference
  imports Redis_Clients "HOL-Library.AList"
begin

text \<open>
  An executable in-memory service with the documented behaviour of the Redis commands the program uses,
  and an injective text encoding that stands in for the JSON package.  It shows that the hypotheses of
  \<open>redis_json\<close> and \<open>redis_service\<close> can hold, and witnesses run on it.
\<close>

datatype cell = CHash "(string \<times> string) list" | CStr string

record rworld =
  cells :: "(string \<times> cell) list"
  rfaults :: "(go_error \<times> bool) option list"

fun cell_val :: "cell \<Rightarrow> redis_value" where
  "cell_val (CHash m) = RHash (map_of m)"
| "cell_val (CStr x) = RStr x"

definition r_keys :: "rworld \<Rightarrow> keyspace" where
  "r_keys s k = map_option cell_val (map_of (cells s) k)"

definition r_up :: "rworld \<Rightarrow> bool" where
  "r_up s \<longleftrightarrow> rfaults s = []"

definition empty_rworld :: rworld where
  "empty_rworld = \<lparr>cells = [], rfaults = []\<rparr>"

definition r_fault :: "rworld \<Rightarrow> (go_error \<times> bool) option \<times> rworld" where
  "r_fault s =
     (case rfaults s of
        [] \<Rightarrow> (None, s)
      | f # fs \<Rightarrow>
          ((case f of Some (e, ap) \<Rightarrow> if e = RedisNil then None else Some (e, ap) | None \<Rightarrow> None), s\<lparr>rfaults := fs\<rparr>))"

definition r_read :: "go_error + 'a \<Rightarrow> rworld \<Rightarrow> (go_error + 'a) \<times> rworld" where
  "r_read x s = (case r_fault s of (None, s1) \<Rightarrow> (x, s1) | (Some (e, _), s1) \<Rightarrow> (Inl e, s1))"

definition r_write :: "(rworld \<Rightarrow> go_error option \<times> rworld) \<Rightarrow> rworld \<Rightarrow> go_error option \<times> rworld" where
  "r_write f s =
     (case r_fault s of
        (None, s1) \<Rightarrow> f s1
      | (Some (e, ap), s1) \<Rightarrow> (Some e, if ap then snd (f s1) else s1))"

definition wrong_type :: go_error where
  "wrong_type = LibErr ''WRONGTYPE''"

definition r_set :: "string \<Rightarrow> cell \<Rightarrow> rworld \<Rightarrow> rworld" where
  "r_set key c s = s\<lparr>cells := AList.update key c (cells s)\<rparr>"

definition r_hash :: "rworld \<Rightarrow> string \<Rightarrow> go_error + (string \<times> string) list" where
  "r_hash s key =
     (case map_of (cells s) key of None \<Rightarrow> Inr [] | Some (CHash m) \<Rightarrow> Inr m | Some (CStr _) \<Rightarrow> Inl wrong_type)"

definition r_update :: "string \<Rightarrow> ((string \<times> string) list \<Rightarrow> go_error + (string \<times> string) list) \<Rightarrow>
    rworld \<Rightarrow> go_error option \<times> rworld" where
  "r_update key f s =
     (case r_hash s key of
        Inl e \<Rightarrow> (Some e, s)
      | Inr m \<Rightarrow> (case f m of Inl e \<Rightarrow> (Some e, s) | Inr m' \<Rightarrow> (None, r_set key (CHash m') s)))"

definition incr_field :: "string \<Rightarrow> int \<Rightarrow> (string \<times> string) list \<Rightarrow> go_error + (string \<times> string) list" where
  "incr_field f d m =
     (case map_of m f of
        None \<Rightarrow> Inr (AList.update f (FormatInt d) m)
      | Some x \<Rightarrow>
          (case ParseInt x of
             Inl _ \<Rightarrow> Inl (LibErr ''hash value is not an integer'')
           | Inr n \<Rightarrow>
               if in_int64 (n + d) then Inr (AList.update f (FormatInt (n + d)) m)
               else Inl (LibErr ''increment or decrement would overflow'')))"

text \<open>Patterns: a final star, or the key itself.\<close>

definition r_match :: "string \<Rightarrow> string \<Rightarrow> bool" where
  "r_match pat k \<longleftrightarrow>
     (if pat \<noteq> [] \<and> last pat = CHR ''*'' then take (length pat - 1) k = butlast pat else k = pat)"

definition ref_redis :: "rworld Redis" where
  "ref_redis =
     \<lparr>HGetAll = (\<lambda>key s. r_read (r_hash s key) s),
      HMSet = (\<lambda>key fs. r_write (r_update key
        (\<lambda>m. Inr (foldl (\<lambda>m (f, a). AList.update f (arg_text a) m) m fs)))),
      HMGet = (\<lambda>key f s. r_read (case r_hash s key of Inl e \<Rightarrow> Inl e | Inr m \<Rightarrow> Inr (map_of m f)) s),
      HGet = (\<lambda>key f s. r_read (case r_hash s key of
                Inl e \<Rightarrow> Inl e
              | Inr m \<Rightarrow> (case map_of m f of None \<Rightarrow> Inl RedisNil | Some x \<Rightarrow> Inr x)) s),
      HIncrBy = (\<lambda>key f d. r_write (r_update key (incr_field f d))),
      RExpire = (\<lambda>key d. r_write (\<lambda>s. (None, s))),
      RKeys = (\<lambda>pat s. r_read (Inr (filter (r_match pat) (remdups (map fst (cells s))))) s),
      RGet = (\<lambda>key s. r_read (case map_of (cells s) key of
                None \<Rightarrow> Inl RedisNil | Some (CStr x) \<Rightarrow> Inr x | Some (CHash _) \<Rightarrow> Inl wrong_type) s),
      RSet = (\<lambda>key x d. r_write (\<lambda>s. (None, r_set key (CStr x) s))),
      RDel = (\<lambda>ks. r_write (\<lambda>s. (None, s\<lparr>cells := filter (\<lambda>c. fst c \<notin> set ks) (cells s)\<rparr>)))\<rparr>"

section \<open>The codec\<close>

text \<open>A list of strings as one string: each character is marked, each string is closed by a full stop.\<close>

definition enc_strs :: "string list \<Rightarrow> string" where
  "enc_strs xs = concat (map (\<lambda>x. concat (map (\<lambda>c. [CHR ''c'', c]) x) @ ''.'') xs)"

fun dec_strs :: "string \<Rightarrow> string list" where
  "dec_strs [] = []"
| "dec_strs [c] = [[]]"
| "dec_strs (m # c # r) =
     (if m = CHR ''c'' then (case dec_strs r of [] \<Rightarrow> [[c]] | x # xs \<Rightarrow> (c # x) # xs) else [] # dec_strs (c # r))"

definition dec_int :: "string \<Rightarrow> int" where
  "dec_int x = (case ParseInt x of Inl _ \<Rightarrow> 0 | Inr i \<Rightarrow> i)"

fun flip_strs :: "Flip list \<Rightarrow> string list" where
  "flip_strs [] = []"
| "flip_strs (f # fs) = FormatInt (At f) # From f # To f # Payload f # flip_strs fs"

fun strs_flip :: "string list \<Rightarrow> Flip list" where
  "strs_flip (a # b # c # d # r) = \<lparr>At = dec_int a, From = b, To = c, Payload = d\<rparr> # strs_flip r"
| "strs_flip _ = []"

definition flap_strs :: "FlapConfig option \<Rightarrow> string list" where
  "flap_strs fo = (case fo of None \<Rightarrow> [[], [], [], [], []]
     | Some f \<Rightarrow> map FormatInt [WindowSeconds f, SuppressBelow f, AggregateAt f, AggregateMaxItems f, AggregateCooldownSeconds f])"

definition config_strs :: "ClientConfig \<Rightarrow> string list" where
  "config_strs c =
     [ClientID c, ClientName c, ClientKey c, FormatInt (IPRPM c), FormatInt (ClientRPM c), PassFieldExpr (Passthrough c),
      if Negate (Passthrough c) then ''t'' else [], FieldExpr (Trigger c), SNSArn (Target (Trigger c)),
      FormatInt (SNSRPM (Target (Trigger c)))] @ flap_strs (Flapping (Trigger c)) @ ScopeFields (Trigger c)"

fun strs_config :: "string list \<Rightarrow> go_error + ClientConfig" where
  "strs_config (a # b # c # d # e # f # g # h # i # j # w # sb # ag # mx # cd # sf) =
     Inr \<lparr>ClientID = a, ClientName = b, ClientKey = c, IPRPM = dec_int d, ClientRPM = dec_int e,
          Passthrough = \<lparr>PassFieldExpr = f, Negate = (g \<noteq> [])\<rparr>,
          Trigger = \<lparr>FieldExpr = h, ScopeFields = sf, Target = \<lparr>SNSArn = i, SNSRPM = dec_int j\<rparr>,
                     Flapping = (if w = [] then None else
                       Some \<lparr>WindowSeconds = dec_int w, SuppressBelow = dec_int sb, AggregateAt = dec_int ag,
                             AggregateMaxItems = dec_int mx, AggregateCooldownSeconds = dec_int cd\<rparr>)\<rparr>\<rparr>"
| "strs_config _ = Inl (LibErr ''syntax error'')"

definition ref_json :: JsonCodec where
  "ref_json =
     \<lparr>flips_Marshal = (\<lambda>fs. Inr (enc_strs (flip_strs fs))), flips_Unmarshal = (\<lambda>b. Inr (strs_flip (dec_strs b))),
      config_Marshal = (\<lambda>c. Inr (enc_strs (config_strs c))), config_Unmarshal = (\<lambda>b. strs_config (dec_strs b))\<rparr>"

section \<open>The laws hold of it\<close>

lemma dec_enc_str: "dec_strs (concat (map (\<lambda>c. [CHR ''c'', c]) x) @ CHR ''.'' # r) = x # dec_strs r"
proof (induction x)
  case Nil
  then show ?case by (cases r) simp_all
next
  case (Cons c x)
  then show ?case by simp
qed

lemma dec_enc_strs: "dec_strs (enc_strs xs) = xs"
  by (induction xs) (simp_all add: enc_strs_def dec_enc_str)

lemma dec_int_FormatInt [simp]: "in_int64 i \<Longrightarrow> dec_int (FormatInt i) = i"
  by (simp add: dec_int_def ParseInt_FormatInt)

lemma strs_flip_flip_strs: "\<forall>f \<in> set fs. flip_range f \<Longrightarrow> strs_flip (flip_strs fs) = fs"
  by (induction fs) (simp_all add: flip_range_def)

lemma strs_config_config_strs: "config_range c \<Longrightarrow> strs_config (config_strs c) = Inr c"
  by (cases "Flapping (Trigger c)")
    (simp_all add: config_strs_def flap_strs_def config_range_def flap_range_def)

lemma ref_redis_json: "redis_json ref_json"
  by unfold_locales (simp_all add: ref_json_def dec_enc_strs strs_flip_flip_strs strs_config_config_strs)

lemma r_fault_keys: "r_fault s = (fo, s') \<Longrightarrow> cells s' = cells s"
  by (auto simp: r_fault_def split: list.splits)

lemma r_fault_up: "r_up s \<Longrightarrow> r_fault s = (None, s)"
  by (simp add: r_up_def r_fault_def)

lemma r_fault_not_nil: "r_fault s = (Some (e, ap), s1) \<Longrightarrow> e \<noteq> RedisNil"
  by (auto simp: r_fault_def split: list.splits option.splits if_splits)

lemma r_keys_cells: "cells s' = cells s \<Longrightarrow> r_keys s' = r_keys s"
  by (rule ext) (simp add: r_keys_def)

lemma r_read_law:
  assumes "r_read x s = (res, s')"
  shows "r_keys s' = r_keys s" and "r_up s \<Longrightarrow> r_up s' \<and> res = x" and "res = x \<or> (\<exists>e. res = Inl e \<and> e \<noteq> RedisNil)"
proof -
  obtain fo s1 where f: "r_fault s = (fo, s1)" by (cases "r_fault s")
  show "r_keys s' = r_keys s" using assms f r_keys_cells [OF r_fault_keys [OF f]]
    by (auto simp: r_read_def split: option.splits)
  show "r_up s \<Longrightarrow> r_up s' \<and> res = x" using assms by (simp add: r_read_def r_fault_up)
  show "res = x \<or> (\<exists>e. res = Inl e \<and> e \<noteq> RedisNil)"
    using assms f r_fault_not_nil by (auto simp: r_read_def split: option.splits)
qed

lemma r_write_law:
  assumes "r_write f s = (err, s')"
    and "\<And>s1. cells s1 = cells s \<Longrightarrow> r_keys s1 = r_keys s \<Longrightarrow> fst (f s1) = None \<and> r_keys (snd (f s1)) = new"
    and "\<And>s1. r_up s1 \<Longrightarrow> r_up (snd (f s1))"
  shows "redis_write (r_keys s) new err (r_keys s') \<and> (r_up s \<longrightarrow> r_up s' \<and> err = None)"
proof -
  obtain fo s1 where f: "r_fault s = (fo, s1)" by (cases "r_fault s")
  note c = r_fault_keys [OF f]
  show ?thesis
    using assms(1) f assms(2) [OF c r_keys_cells [OF c]] assms(3) [of s1] r_keys_cells [OF c] r_fault_up [of s]
    by (auto simp: r_write_def redis_write_def prod_eq_iff split: option.splits if_splits)
qed

lemma r_keys_set [simp]: "r_keys (r_set key c s) = (r_keys s)(key \<mapsto> cell_val c)"
  by (rule ext) (simp add: r_keys_def r_set_def update_conv')

lemma r_up_set [simp]: "r_up (r_set key c s) = r_up s" "r_up (s\<lparr>cells := cs\<rparr>) = r_up s"
  by (simp_all add: r_up_def r_set_def)

lemma r_hash_at: "hash_at (r_keys s) key = Some h \<Longrightarrow> \<exists>m. r_hash s key = Inr m \<and> map_of m = h"
  by (auto simp: hash_at_def r_keys_def r_hash_def split: option.splits redis_value.splits cell.splits)

lemma foldl_update: "map_of (foldl (\<lambda>m (f, a). AList.update f (arg_text a) m) m fs) = set_fields (map_of m) fs"
  by (induction fs arbitrary: m) (auto simp: set_fields_def update_conv')

lemma r_update_law:
  assumes "r_write (r_update key f) s = (err, s')" and "hash_at (r_keys s) key = Some h"
    and "\<And>m. map_of m = h \<Longrightarrow> \<exists>m'. f m = Inr m' \<and> map_of m' = h'"
  shows "redis_write (r_keys s) ((r_keys s)(key \<mapsto> RHash h')) err (r_keys s') \<and> (r_up s \<longrightarrow> r_up s' \<and> err = None)"
proof (rule r_write_law [OF assms(1)])
  fix s1 :: rworld
  assume c: "cells s1 = cells s"
  obtain m m' where "r_hash s key = Inr m" "map_of m = h" "f m = Inr m'" "map_of m' = h'"
    using r_hash_at [OF assms(2)] assms(3) by blast
  moreover have "r_hash s1 key = r_hash s key" using c by (simp add: r_hash_def)
  ultimately show "fst (r_update key f s1) = None \<and> r_keys (snd (r_update key f s1)) = (r_keys s)(key \<mapsto> RHash h')"
    using r_keys_cells [OF c] by (simp add: r_update_def)
next
  fix s1 :: rworld
  assume "r_up s1"
  then show "r_up (snd (r_update key f s1))" by (auto simp: r_update_def split: sum.splits)
qed

lemma incr_field_law:
  assumes "h f = None \<and> n = 0 \<or> h f = Some (FormatInt n)" and "in_int64 n" "in_int64 (n + d)" "map_of m = h"
  shows "\<exists>m'. incr_field f d m = Inr m' \<and> map_of m' = h(f \<mapsto> FormatInt (n + d))"
  using assms by (auto simp: incr_field_def ParseInt_FormatInt update_conv')

lemma r_keys_dom: "r_keys s k \<noteq> None \<longleftrightarrow> k \<in> set (map fst (cells s))"
  by (auto simp: r_keys_def map_of_eq_None_iff)

lemma r_match_star: "r_match (p @ ''*'') k \<longleftrightarrow> take (length p) k = p"
  by (simp add: r_match_def)

lemma r_match_plain: "plain_pattern pat \<Longrightarrow> r_match pat k \<longleftrightarrow> k = pat"
  by (cases pat rule: rev_cases) (auto simp: r_match_def plain_pattern_def)

lemma map_of_filter_keys: "map_of (filter (\<lambda>c. fst c \<notin> A) xs) k = (if k \<in> A then None else map_of xs k)"
  by (induction xs) auto

lemma r_keys_del: "cells s1 = cells s \<Longrightarrow> r_keys (s1\<lparr>cells := filter (\<lambda>c. fst c \<notin> set ks) (cells s)\<rparr>) = (\<lambda>k. if k \<in> set ks then None else r_keys s k)"
  by (rule ext) (simp add: r_keys_def map_of_filter_keys)

lemma ref_redis_service: "redis_service ref_redis r_keys r_up"
proof (unfold_locales, goal_cases)
  case (1 key s gr s' h)
  then show ?case using r_read_law [of "r_hash s key" s gr s'] r_hash_at [of s key h] by (auto simp: ref_redis_def)
next
  case (2 key fs s err s' h)
  show ?case
    by (rule r_update_law [of key "\<lambda>m. Inr (foldl (\<lambda>m (f, a). AList.update f (arg_text a) m) m fs)", OF _ 2(2)])
      (use 2(1) in \<open>simp_all add: ref_redis_def foldl_update\<close>)
next
  case (3 key f s mr s' h)
  obtain m where "r_hash s key = Inr m" "map_of m = h" using r_hash_at [OF 3(2)] by blast
  with 3(1) r_read_law [of "Inr (map_of m f)" s mr s'] show ?case by (auto simp: ref_redis_def)
next
  case (4 key f s fr s' h)
  obtain m where "r_hash s key = Inr m" "map_of m = h" using r_hash_at [OF 4(2)] by blast
  with 4(1) r_read_law [of "case h f of None \<Rightarrow> Inl RedisNil | Some x \<Rightarrow> Inr x" s fr s'] show ?case
    by (auto simp: ref_redis_def split: option.splits)
next
  case (5 key f d s err s' h n)
  show ?case
    by (rule r_update_law [of key "incr_field f d", OF _ 5(2)])
      (use 5(1) incr_field_law [of h f n d, OF 5(3-5)] in \<open>simp_all add: ref_redis_def\<close>)
next
  case (6 key d s err s')
  then show ?case
    using r_write_law [of "\<lambda>s. (None, s)" s err s' "r_keys s"]
    by (auto simp: ref_redis_def redis_write_def split: if_splits)
next
  case (7 pat s kr s')
  let ?ks = "filter (r_match pat) (remdups (map fst (cells s)))"
  have r: "r_read (Inr ?ks) s = (kr, s')" using 7 by (simp add: ref_redis_def)
  have "set ?ks = {k. r_match pat k \<and> r_keys s k \<noteq> None}" unfolding r_keys_dom by auto
  with r_read_law [OF r] r_match_plain [of pat] r_match_star show ?case by auto
next
  case (8 key s vr s')
  then show ?case
    using r_read_law [of "case map_of (cells s) key of None \<Rightarrow> Inl RedisNil | Some (CStr x) \<Rightarrow> Inr x
        | Some (CHash _) \<Rightarrow> Inl wrong_type" s vr s']
    by (auto simp: ref_redis_def r_keys_def wrong_type_def split: option.splits cell.splits)
next
  case (9 key x s err s')
  then show ?case
    using r_write_law [of "\<lambda>s. (None, r_set key (CStr x) s)" s err s' "(r_keys s)(key \<mapsto> RStr x)"]
    by (simp add: ref_redis_def)
next
  case (10 ks s err s')
  then show ?case
    using r_write_law [of "\<lambda>s. (None, s\<lparr>cells := filter (\<lambda>c. fst c \<notin> set ks) (cells s)\<rparr>)" s err s'
        "\<lambda>k. if k \<in> set ks then None else r_keys s k"] r_keys_del [of _ s ks]
    by (simp add: ref_redis_def)
qed

interpretation rref: redis_backend ref_json ref_redis r_keys r_up
  by (intro redis_backend.intro ref_redis_json ref_redis_service)

end
