(* ===== verification/Deployment_Reference.thy ===== *)
theory Deployment_Reference
  imports Deployment Notify_Reference Redis_Reference
begin

text \<open>
  Both in-memory services side by side.  The interpretation discharges the laws of \<open>deployed\<close> for them.
\<close>

section \<open>Two services in one state\<close>

type_synonym both = "world \<times> rworld"

definition on_fst :: "('a \<Rightarrow> 'r \<times> 'a) \<Rightarrow> 'a \<times> 'b \<Rightarrow> 'r \<times> 'a \<times> 'b" where
  "on_fst op s = (fst (op (fst s)), snd (op (fst s)), snd s)"

definition on_snd :: "('b \<Rightarrow> 'r \<times> 'b) \<Rightarrow> 'a \<times> 'b \<Rightarrow> 'r \<times> 'a \<times> 'b" where
  "on_snd op s = (fst (op (snd s)), fst s, snd (op (snd s)))"

lemma on_fst_iff: "on_fst op s = (r, s') \<longleftrightarrow> op (fst s) = (r, fst s') \<and> snd s' = snd s"
  by (cases s') (auto simp: on_fst_def prod_eq_iff)

lemma on_snd_iff: "on_snd op s = (r, s') \<longleftrightarrow> op (snd s) = (r, snd s') \<and> fst s' = fst s"
  by (cases s') (auto simp: on_snd_def prod_eq_iff)

definition both_db :: "both DynamoDB" where
  "both_db =
     \<lparr>GetItem = (\<lambda>x. on_fst (GetItem ref_db x)), PutItem = (\<lambda>x. on_fst (PutItem ref_db x)),
      UpdateItem = (\<lambda>x. on_fst (UpdateItem ref_db x)), DeleteItem = (\<lambda>x. on_fst (DeleteItem ref_db x)),
      Query = (\<lambda>x. on_fst (Query ref_db x)), CreateTable = (\<lambda>x. on_fst (CreateTable ref_db x)),
      DeleteTable = (\<lambda>x. on_fst (DeleteTable ref_db x)), WaitTableNotExists = (\<lambda>x d. on_fst (WaitTableNotExists ref_db x d))\<rparr>"

definition both_redis :: "both Redis" where
  "both_redis =
     \<lparr>HGetAll = (\<lambda>k. on_snd (HGetAll ref_redis k)), HMSet = (\<lambda>k x. on_snd (HMSet ref_redis k x)),
      HMGet = (\<lambda>k x. on_snd (HMGet ref_redis k x)), HGet = (\<lambda>k x. on_snd (HGet ref_redis k x)),
      HIncrBy = (\<lambda>k x n. on_snd (HIncrBy ref_redis k x n)), RExpire = (\<lambda>k d. on_snd (RExpire ref_redis k d)),
      RKeys = (\<lambda>p. on_snd (RKeys ref_redis p)), RGet = (\<lambda>k. on_snd (RGet ref_redis k)),
      RSet = (\<lambda>k x d. on_snd (RSet ref_redis k x d)), RDel = (\<lambda>ks. on_snd (RDel ref_redis ks))\<rparr>"

definition both_sns :: "both SnsClient" where
  "both_sns = \<lparr>Publish = (\<lambda>x. on_fst (Publish ref_sns x))\<rparr>"

definition both_table :: "both \<Rightarrow> tables" where
  "both_table s = w_table (fst s)"

definition both_keys :: "both \<Rightarrow> keyspace" where
  "both_keys s = r_keys (snd s)"

definition both_sent :: "both \<Rightarrow> (string \<times> string) list" where
  "both_sent s = sent (fst s)"

definition both_up :: "both \<Rightarrow> bool" where
  "both_up s \<longleftrightarrow> w_up (fst s) \<and> r_up (snd s)"

definition both_services :: "both Services" where
  "both_services =
     \<lparr>LoadDefaultConfig = Inr \<lparr>BaseEndpoint = None, Region = ''us-east-1'', Credentials = None\<rparr>,
      dynamodb_NewFromConfig = (\<lambda>_. both_db), sns_NewFromConfig = (\<lambda>_. both_sns), redis_NewClient = (\<lambda>_. both_redis),
      redis_Ping = (\<lambda>_ s. (None, s)), AppendCertsFromPEM = True, AvCodec_of = ref_av, JsonCodec_of = ref_json\<rparr>"

lemmas both_defs = both_table_def both_keys_def both_sent_def both_up_def

section \<open>The laws\<close>

lemma both_dynamodb: "dynamodb both_db both_table both_up"
proof (unfold_locales, goal_cases)
  case (1 gi s gr s')
  then show ?case using dynamodb.get_item [OF ref_dynamodb, of gi "fst s" gr "fst s'"] by (simp add: both_db_def on_fst_iff both_defs)
next
  case (2 pin s err s' pk sk old)
  then show ?case using dynamodb.put_item [OF ref_dynamodb, of pin "fst s" err "fst s'" pk sk old]
    by (simp add: both_db_def on_fst_iff both_defs)
next
  case (3 u s err s' old)
  then show ?case using dynamodb.update_item [OF ref_dynamodb, of u "fst s" err "fst s'" old]
    by (simp add: both_db_def on_fst_iff both_defs)
next
  case (4 d s err s')
  then show ?case using dynamodb.delete_item [OF ref_dynamodb, of d "fst s" err "fst s'"]
    by (simp add: both_db_def on_fst_iff both_defs)
next
  case (5 q s qr s')
  then show ?case using dynamodb.query [OF ref_dynamodb, of q "fst s" qr "fst s'"]
    by (simp add: both_db_def on_fst_iff both_defs)
qed

lemma both_redis_service: "redis_service both_redis both_keys both_up"
proof (unfold_locales, goal_cases)
  case (1 key s gr s' h)
  then show ?case using redis_service.hgetall [OF ref_redis_service, of key "snd s" gr "snd s'" h]
    by (simp add: both_redis_def on_snd_iff both_defs)
next
  case (2 key fs s err s' h)
  then show ?case using redis_service.hmset [OF ref_redis_service, of key fs "snd s" err "snd s'" h]
    by (simp add: both_redis_def on_snd_iff both_defs)
next
  case (3 key f s mr s' h)
  then show ?case using redis_service.hmget [OF ref_redis_service, of key f "snd s" mr "snd s'" h]
    by (simp add: both_redis_def on_snd_iff both_defs)
next
  case (4 key f s fr s' h)
  then show ?case using redis_service.hget [OF ref_redis_service, of key f "snd s" fr "snd s'" h]
    by (simp add: both_redis_def on_snd_iff both_defs)
next
  case (5 key f d s err s' h n)
  then show ?case using redis_service.hincrby [OF ref_redis_service, of key f d "snd s" err "snd s'" h n]
    by (simp add: both_redis_def on_snd_iff both_defs)
next
  case (6 key d s err s')
  then show ?case using redis_service.expire [OF ref_redis_service, of key d "snd s" err "snd s'"]
    by (simp add: both_redis_def on_snd_iff both_defs)
next
  case (7 pat s kr s')
  then show ?case using redis_service.keys [OF ref_redis_service, of pat "snd s" kr "snd s'"]
    by (simp add: both_redis_def on_snd_iff both_defs)
next
  case (8 key s vr s')
  then show ?case using redis_service.rget [OF ref_redis_service, of key "snd s" vr "snd s'"]
    by (simp add: both_redis_def on_snd_iff both_defs)
next
  case (9 key x s err s')
  then show ?case using redis_service.rset [OF ref_redis_service, of key x "snd s" err "snd s'"]
    by (simp add: both_redis_def on_snd_iff both_defs)
next
  case (10 ks s err s')
  then show ?case using redis_service.rdel [OF ref_redis_service, of ks "snd s" err "snd s'"]
    by (simp add: both_redis_def on_snd_iff both_defs cong: if_cong)
qed

lemma both_apart:
  "db_keeps both_sent both_db" "db_keeps both_keys both_db" "redis_keeps both_sent both_redis" "redis_keeps both_table both_redis"
  using ref_db_keeps
  by (simp_all add: db_keeps_def redis_keeps_def keeps_def both_db_def both_redis_def both_defs on_fst_def on_snd_def)

interpretation both: deployed both_services both_table both_keys both_sent both_up
proof (rule deployed.intro)
  show "sns_service (sns_NewFromConfig both_services ao) both_sent" for ao
    by unfold_locales (auto simp: both_services_def both_sns_def both_defs on_fst_iff dest: ref_publish(1))
  show "both_table s' = both_table s \<and> both_keys s' = both_keys s \<and> (both_up s \<longrightarrow> both_up s' \<and> err = None)"
    if "Publish (sns_NewFromConfig both_services ao) inp s = (err, s')" for ao inp s err s'
    using that ref_publish(2,3) [of inp "fst s" err "fst s'"]
    by (simp add: both_services_def both_sns_def both_defs on_fst_iff)
qed (simp_all add: both_services_def ref_attributevalue ref_redis_json both_dynamodb both_redis_service both_apart)

definition empty_both :: both where
  "empty_both = (empty_world, empty_rworld)"

end
