(* ===== verification/Server.thy ===== *)
theory Server
  imports Prelude
begin

text \<open>
  \<^verbatim>\<open>internal/api/app.go\<close>: \<^verbatim>\<open>RunServerInterruptible\<close> as a step relation.  Two goroutines share an
  \<^verbatim>\<open>http.Server\<close>: one serves and reports the outcome on the channel \<^verbatim>\<open>doneCh\<close> (capacity 1), the other waits for
  \<^verbatim>\<open>stopCh\<close> and then shuts the server down.  The steps of \<^verbatim>\<open>http.Server\<close> are the documented ones: after
  \<^verbatim>\<open>Shutdown\<close> is called, serving returns \<^verbatim>\<open>ErrServerClosed\<close> at once, while \<^verbatim>\<open>Shutdown\<close> itself waits for the
  requests in flight or for its deadline.
\<close>

definition ErrServerClosed :: go_error where
  "ErrServerClosed = ErrMsg ''http: Server closed''"

text \<open>Where the serving goroutine is; \<open>Serve_returned\<close> holds the error of \<^verbatim>\<open>ListenAndServe\<close>, which is never nil.\<close>

datatype serve_pc = Serve_start | Serve_listening | Serve_returned go_error | Serve_exited

datatype stop_pc = Stop_waiting | Stop_signalled | Stop_shutting_down | Stop_exited

record server =
  serve_at :: serve_pc
  stop_at :: stop_pc
  doneCh :: "go_error option list"
  received :: "go_error option list"
  shutdown :: bool
  in_flight :: nat

definition doneCap :: nat where
  "doneCap = 1"

definition server_init :: server where
  "server_init =
     \<lparr>serve_at = Serve_start, stop_at = Stop_waiting, doneCh = [], received = [], shutdown = False, in_flight = 0\<rparr>"

text \<open>What the serving goroutine sends for the error of \<^verbatim>\<open>ListenAndServe\<close>.\<close>

definition done_value :: "go_error \<Rightarrow> go_error option" where
  "done_value e = (if \<not> errors_Is e ErrServerClosed then Some e else None)"

inductive server_step :: "server \<Rightarrow> server \<Rightarrow> bool" where
  listen:
    "serve_at s = Serve_start \<Longrightarrow> \<not> shutdown s \<Longrightarrow> server_step s (s\<lparr>serve_at := Serve_listening\<rparr>)"
| listen_error:
    "serve_at s = Serve_start \<Longrightarrow> \<not> shutdown s \<Longrightarrow> \<not> errors_Is e ErrServerClosed \<Longrightarrow>
       server_step s (s\<lparr>serve_at := Serve_returned e\<rparr>)"
| accept:
    "serve_at s = Serve_listening \<Longrightarrow> \<not> shutdown s \<Longrightarrow> server_step s (s\<lparr>in_flight := Suc (in_flight s)\<rparr>)"
| accept_error:
    "serve_at s = Serve_listening \<Longrightarrow> \<not> shutdown s \<Longrightarrow> \<not> errors_Is e ErrServerClosed \<Longrightarrow>
       server_step s (s\<lparr>serve_at := Serve_returned e\<rparr>)"
| closed:
    "serve_at s \<in> {Serve_start, Serve_listening} \<Longrightarrow> shutdown s \<Longrightarrow>
       server_step s (s\<lparr>serve_at := Serve_returned ErrServerClosed\<rparr>)"
| request_ends:
    "0 < in_flight s \<Longrightarrow> server_step s (s\<lparr>in_flight := in_flight s - 1\<rparr>)"
| send_done:
    "serve_at s = Serve_returned e \<Longrightarrow> length (doneCh s) < doneCap \<Longrightarrow>
       server_step s (s\<lparr>serve_at := Serve_exited, doneCh := doneCh s @ [done_value e]\<rparr>)"
| receive_done:
    "doneCh s = v # vs \<Longrightarrow> server_step s (s\<lparr>doneCh := vs, received := received s @ [v]\<rparr>)"
| receive_stop:
    "stop_at s = Stop_waiting \<Longrightarrow> server_step s (s\<lparr>stop_at := Stop_signalled\<rparr>)"
| call_shutdown:
    "stop_at s = Stop_signalled \<Longrightarrow> server_step s (s\<lparr>stop_at := Stop_shutting_down, shutdown := True\<rparr>)"
| shutdown_returns:
    "stop_at s = Stop_shutting_down \<Longrightarrow> in_flight s = 0 \<Longrightarrow> server_step s (s\<lparr>stop_at := Stop_exited\<rparr>)"
| shutdown_deadline:
    "stop_at s = Stop_shutting_down \<Longrightarrow> server_step s (s\<lparr>stop_at := Stop_exited\<rparr>)"

inductive_cases server_stepE: "server_step s s'"

definition reachable :: "server \<Rightarrow> bool" where
  "reachable s \<longleftrightarrow> server_step\<^sup>*\<^sup>* server_init s"

section \<open>The invariant\<close>

lemma Is_closed [simp]: "errors_Is ErrServerClosed ErrServerClosed"
  by (simp add: errors_Is_def ErrServerClosed_def)

text \<open>All values that were ever sent on \<^verbatim>\<open>doneCh\<close>.\<close>

definition sent_values :: "server \<Rightarrow> go_error option list" where
  "sent_values s = received s @ doneCh s"

definition server_inv :: "server \<Rightarrow> bool" where
  "server_inv s \<longleftrightarrow>
     (if serve_at s = Serve_exited then length (sent_values s) = 1 else sent_values s = [])
     \<and> (shutdown s \<longleftrightarrow> stop_at s \<in> {Stop_shutting_down, Stop_exited})
     \<and> (\<forall>e. serve_at s = Serve_returned e \<and> errors_Is e ErrServerClosed \<longrightarrow> shutdown s)
     \<and> (None \<in> set (sent_values s) \<longrightarrow> shutdown s)
     \<and> (Some ErrServerClosed \<notin> set (sent_values s))"

lemma server_inv_init: "server_inv server_init"
  by (simp add: server_inv_def server_init_def sent_values_def)

lemma server_inv_step: "server_step s s' \<Longrightarrow> server_inv s \<Longrightarrow> server_inv s'"
  by (induction rule: server_step.induct) (auto simp: server_inv_def sent_values_def done_value_def split: if_splits)

lemma reachable_inv: "reachable s \<Longrightarrow> server_inv s"
  unfolding reachable_def by (induction rule: rtranclp_induct) (auto simp: server_inv_init intro: server_inv_step)

lemma step_star: "server_step a b \<Longrightarrow> server_step\<^sup>*\<^sup>* b c \<Longrightarrow> server_step\<^sup>*\<^sup>* a c"
  by (rule converse_rtranclp_into_rtranclp)

text \<open>The serving goroutine can always send: the buffer is empty when it wants to.\<close>

lemma returned_can_send:
  assumes "reachable s" and "serve_at s = Serve_returned e"
  shows "server_step s (s\<lparr>serve_at := Serve_exited, doneCh := [done_value e]\<rparr>)"
proof -
  have "doneCh s = []" using reachable_inv [OF assms(1)] assms(2) by (simp add: server_inv_def sent_values_def)
  then show ?thesis using send_done [of s e, OF assms(2)] by (simp add: doneCap_def)
qed

text \<open>Once \<^verbatim>\<open>Shutdown\<close> was called it finishes in at most two steps of its own.\<close>

lemma shutdown_reports:
  assumes "reachable s" and "shutdown s" and "serve_at s \<noteq> Serve_exited"
  shows "\<exists>s'. server_step\<^sup>*\<^sup>* s s' \<and> serve_at s' = Serve_exited \<and> in_flight s' = in_flight s \<and> stop_at s' = stop_at s"
proof -
  have rep: "\<exists>s'. server_step\<^sup>*\<^sup>* u s' \<and> serve_at s' = Serve_exited \<and> in_flight s' = in_flight u \<and> stop_at s' = stop_at u"
    if "reachable u" "serve_at u = Serve_returned e" for u e
    using returned_can_send [OF that]
    by (intro exI [of _ "u\<lparr>serve_at := Serve_exited, doneCh := [done_value e]\<rparr>"]) simp
  show ?thesis
  proof (cases "serve_at s \<in> {Serve_start, Serve_listening}")
    case True
    let ?u = "s\<lparr>serve_at := Serve_returned ErrServerClosed\<rparr>"
    have st: "server_step s ?u" by (rule closed [OF True assms(2)])
    then have "reachable ?u" using assms(1) by (auto simp: reachable_def intro: rtranclp.rtrancl_into_rtrancl)
    from rep [OF this] show ?thesis using step_star [OF st] by fastforce
  next
    case False
    then obtain e where "serve_at s = Serve_returned e" using assms(3) by (cases "serve_at s") auto
    from rep [OF assms(1) this] show ?thesis .
  qed
qed

text \<open>A run in which the caller is told that the server is done while a request is still being served.\<close>

definition early_done :: server where
  "early_done =
     \<lparr>serve_at = Serve_exited, stop_at = Stop_shutting_down, doneCh = [], received = [None], shutdown = True, in_flight = 1\<rparr>"

lemma early_done_reachable: "reachable early_done"
proof -
  define s1 where "s1 = server_init\<lparr>serve_at := Serve_listening\<rparr>"
  define s2 where "s2 = s1\<lparr>in_flight := 1\<rparr>"
  define s3 where "s3 = s2\<lparr>stop_at := Stop_signalled\<rparr>"
  define s4 where "s4 = s3\<lparr>stop_at := Stop_shutting_down, shutdown := True\<rparr>"
  define s5 where "s5 = s4\<lparr>serve_at := Serve_returned ErrServerClosed\<rparr>"
  define s6 where "s6 = s5\<lparr>serve_at := Serve_exited, doneCh := [None]\<rparr>"
  note defs = s1_def s2_def s3_def s4_def s5_def s6_def server_init_def early_done_def done_value_def doneCap_def
  have "server_step server_init s1" using listen [of server_init] by (simp add: defs)
  moreover have "server_step s1 s2" using accept [of s1] by (simp add: defs)
  moreover have "server_step s2 s3" using receive_stop [of s2] by (simp add: defs)
  moreover have "server_step s3 s4" using call_shutdown [of s3] by (simp add: defs)
  moreover have "server_step s4 s5" using closed [of s4] by (simp add: defs)
  moreover have "server_step s5 s6" using send_done [of s5 ErrServerClosed] by (simp add: defs)
  moreover have "server_step s6 early_done" using receive_done [of s6 None "[]"] by (simp add: defs)
  ultimately show ?thesis unfolding reachable_def by (meson step_star rtranclp.rtrancl_refl)
qed

end
