(* ===== verification/Store_Properties.thy ===== *)
theory Store_Properties
  imports Ddb_Reference Redis_Reference Ref_Libs
begin

text \<open>
  What the two backends promise.  The DynamoDB store keeps the whole \<open>data_store\<close> contract; the Redis store
  keeps its sequential part only: \<open>redis_create_overwrites\<close>, \<open>redis_lost_update\<close> and \<open>redis_over_grant\<close> show what
  it does not keep.
\<close>

section \<open>Shared facts\<close>

definition sample_edge :: Edge where
  "sample_edge = \<lparr>ScopeKey = ''k'', LastValue = ''a'', LastChangeTS = 1, WindowStart = 1, FlipCount = 0, Recent = [],
                  AggUntilTS = 0, Version = 0\<rparr>"

definition profile_world :: world where
  "profile_world = empty_world\<lparr>rows := [((''t'', (pkClient ''c'', skProfile)), ref_marshal_config (pkClient ''c'') skProfile sample_config)]\<rparr>"

definition profile_rworld :: rworld where
  "profile_rworld = empty_rworld\<lparr>cells := [(getClientKey ''c'', CStr (enc_strs (config_strs sample_config)))]\<rparr>"

lemma profile_world_simps:
  "w_up profile_world" "ddb_configs ref_av (w_table profile_world) ''t'' ''c'' \<noteq> None"
  "program_rows (w_table profile_world) ''t''"
  by (auto simp: w_up_def profile_world_def empty_world_def ddb_configs_def w_table_def ref_av_def program_rows_def
      split: if_splits)

lemma profile_rworld_simps:
  "r_up profile_rworld" "redis_configs ref_json (r_keys profile_rworld) ''c'' = Some sample_config"
  "r_keys profile_rworld (getClientKey i) \<noteq> None \<longleftrightarrow> i = ''c''"
  by (simp_all add: r_up_def profile_rworld_def empty_rworld_def redis_configs_def r_keys_def ref_json_def dec_enc_strs
      strs_config_config_strs sample_config_range)

lemma sample_edge_range: "edge_range sample_edge"
  by (simp add: sample_edge_def edge_range_def in_int64_def min_int64_def max_int64_def ValidString_one)

lemma r_empty: "redis_inv ref_json (r_keys empty_rworld)" "r_up empty_rworld" "r_keys empty_rworld k = None"
  by (simp_all add: redis_inv_def r_keys_def r_up_def empty_rworld_def)

text \<open>What every store with the \<open>client_store\<close> contract does with one configuration.\<close>

context client_store
begin

lemma put_get_delete:
  assumes "inv s" and "up s" and "config_range cc" and "Validate cc = None"
  shows "\<exists>s1 s2 s3 s4. PutClientConfig cs i cc s = (None, s1) \<and> GetClientConfig cs i s1 = (Inr cc, s2)
     \<and> DeleteClientConfig cs i s2 = (None, s3) \<and> GetClientConfig cs i s3 = (Inl missing, s4)
     \<and> (\<forall>j. j \<noteq> i \<longrightarrow> configs s4 j = configs s j)"
proof -
  obtain r1 s1 where p: "PutClientConfig cs i cc s = (r1, s1)" by (cases "PutClientConfig cs i cc s")
  note p' = put_valid [OF assms p]
  obtain r2 s2 where g: "GetClientConfig cs i s1 = (r2, s2)" by (cases "GetClientConfig cs i s1")
  have g': "inv s2" "up s2" "configs s2 = configs s1" "r2 = Inr cc" using get [OF _ _ g] p' by auto
  obtain r3 s3 where d: "DeleteClientConfig cs i s2 = (r3, s3)" by (cases "DeleteClientConfig cs i s2")
  note d' = delete [OF g'(1,2) d]
  obtain r4 s4 where h: "GetClientConfig cs i s3 = (r4, s4)" by (cases "GetClientConfig cs i s3")
  have h': "configs s4 = configs s3" "r4 = Inl missing" using get [OF _ _ h] d' by auto
  have "\<forall>j. j \<noteq> i \<longrightarrow> configs s4 j = configs s j" using h' d' g' p' by simp
  with p g d h p' g' d' h' show ?thesis by auto
qed

end

lemma ddb_backendI: "attributevalue av \<Longrightarrow> dynamodb db table up \<Longrightarrow> ddb_backend av db table up"
  by (intro ddb_backend.intro)

lemma redis_backendI: "redis_json js \<Longrightarrow> redis_service r keyspace up \<Longrightarrow> redis_backend js r keyspace up"
  by (intro redis_backend.intro)

section \<open>The data stores\<close>

text \<open>
  C5: over DynamoDB, with a service and a codec that behave as documented, the data store keeps the whole
  contract: a load returns the row, an upsert with the current version stores the edge under the next version,
  an upsert with a stale version changes nothing, at most the given rate is granted per scope and minute, and
  after an I/O error a write has either happened or not.
\<close>

theorem ddb_keeps_contract:
  assumes "attributevalue av" and "dynamodb db table up"
  shows "data_store (ddb_DataStore av db tn) (\<lambda>s. ddb_edges av (table s) tn) (\<lambda>s. ddb_granted (table s) tn)
           (\<lambda>s. ddb_inv av (table s) tn) up"
  by (rule ddb_backend.store_contract [OF ddb_backendI [OF assms]])

theorem ddb_keeps_contract_witness:
  "data_store (ddb_DataStore ref_av ref_db ''notify_guard'') (\<lambda>s. ddb_edges ref_av (w_table s) ''notify_guard'')
     (\<lambda>s. ddb_granted (w_table s) ''notify_guard'') (\<lambda>s. ddb_inv ref_av (w_table s) ''notify_guard'') w_up"
  by (rule ddb_keeps_contract [OF ref_attributevalue ref_dynamodb])

text \<open>
  C17: over Redis, with a service and a codec that behave as documented, the data store keeps the sequential
  contract: everything of the contract above except the rejection of stale versions.
\<close>

theorem redis_keeps_sequential_contract:
  assumes "redis_json js" and "redis_service r keyspace up"
  shows "seq_data_store (redis_DataStore js r) (\<lambda>s. redis_edges js (keyspace s)) (\<lambda>s. redis_granted (keyspace s))
           (\<lambda>s. redis_inv js (keyspace s)) up"
  by (rule redis_backend.store_contract [OF redis_backendI [OF assms]])

theorem redis_keeps_sequential_contract_witness:
  "seq_data_store (redis_DataStore ref_json ref_redis) (\<lambda>s. redis_edges ref_json (r_keys s)) (\<lambda>s. redis_granted (r_keys s))
     (\<lambda>s. redis_inv ref_json (r_keys s)) r_up"
  by (rule redis_keeps_sequential_contract [OF ref_redis_json ref_redis_service])

text \<open>
  C25: the Redis store accepts a create over an existing row.  Whatever edge and version a scope has, an upsert
  with the previous version 0 reports success, replaces the edge and resets the version to 1: two requests that
  both found no row are both told that they created it.
\<close>

theorem redis_create_overwrites:
  assumes "redis_json js" and "redis_service r keyspace up" and "redis_inv js (keyspace s)" and "up s"
    and "scope_ok k" and "edge_range e"
  shows "\<exists>s'. redis_UpsertCAS js r c k 0 e s = ((True, None), s') \<and> redis_inv js (keyspace s') \<and> up s' \<and>
           redis_edges js (keyspace s') = (redis_edges js (keyspace s))((c, k) \<mapsto> (stored k e, 1))"
  using redis_backend.create_anyway [OF redis_backendI [OF assms(1,2)] assms(3-6), of c] by blast

theorem redis_create_overwrites_witness:
  "\<exists>s1 s2. redis_UpsertCAS ref_json ref_redis ''c'' ''k'' 0 sample_edge empty_rworld = ((True, None), s1)
     \<and> redis_UpsertCAS ref_json ref_redis ''c'' ''k'' 0 (sample_edge\<lparr>LastValue := ''b''\<rparr>) s1 = ((True, None), s2)
     \<and> redis_edges ref_json (r_keys s2) (''c'', ''k'') = Some (sample_edge\<lparr>LastValue := ''b''\<rparr>, 1)"
proof -
  have ok: "edge_range (sample_edge\<lparr>LastValue := ''b''\<rparr>)" "scope_ok ''k''"
    using sample_edge_range by (simp_all add: edge_range_def scope_ok_def ValidString_one)
  note once = redis_create_overwrites [OF ref_redis_json ref_redis_service, of _ "''k''" _ "''c''"]
  obtain s1 where s1: "redis_UpsertCAS ref_json ref_redis ''c'' ''k'' 0 sample_edge empty_rworld = ((True, None), s1)"
      "redis_inv ref_json (r_keys s1)" "r_up s1"
    using once [of empty_rworld sample_edge] r_empty ok sample_edge_range by blast
  obtain s2 where "redis_UpsertCAS ref_json ref_redis ''c'' ''k'' 0 (sample_edge\<lparr>LastValue := ''b''\<rparr>) s1 = ((True, None), s2)"
      "redis_edges ref_json (r_keys s2) =
         (redis_edges ref_json (r_keys s1))((''c'', ''k'') \<mapsto> (stored ''k'' (sample_edge\<lparr>LastValue := ''b''\<rparr>), 1))"
    using once [OF s1(2,3) ok(2,1)] by blast
  with s1 show ?thesis by (simp add: stored_def sample_edge_def)
qed

text \<open>
  C23: the Redis store loses updates.  When the version tests of two updates come before their writes, both
  report success for the same previous version, and the second overwrites the first under the same version.
\<close>

theorem redis_lost_update:
  assumes "redis_json js" and "redis_service r keyspace up" and "redis_inv js (keyspace s)" and "up s" and "scope_ok k"
    and "edge_range e1" and "edge_range e2" and "redis_edges js (keyspace s) (c, k) = Some (e, v)" and "v < max_int64"
  shows "\<exists>s1 s2 s3 s4. redis_check r c k v s = (Inr v, s1) \<and> redis_check r c k v s1 = (Inr v, s2)
     \<and> redis_update js r c k v (e1\<lparr>ScopeKey := k\<rparr>) s2 = ((True, None), s3)
     \<and> redis_update js r c k v (e2\<lparr>ScopeKey := k\<rparr>) s3 = ((True, None), s4)
     \<and> redis_edges js (keyspace s4) = (redis_edges js (keyspace s))((c, k) \<mapsto> (stored k e2, v + 1))"
  by (rule redis_backend.update_race [OF redis_backendI [OF assms(1,2)] assms(3-9)])

theorem redis_lost_update_witness:
  "\<exists>s s1 s2 s3 s4. redis_check ref_redis ''c'' ''k'' 1 s = (Inr 1, s1) \<and> redis_check ref_redis ''c'' ''k'' 1 s1 = (Inr 1, s2)
     \<and> redis_update ref_json ref_redis ''c'' ''k'' 1 (sample_edge\<lparr>ScopeKey := ''k''\<rparr>) s2 = ((True, None), s3)
     \<and> redis_update ref_json ref_redis ''c'' ''k'' 1 (sample_edge\<lparr>ScopeKey := ''k''\<rparr>) s3 = ((True, None), s4)"
proof -
  have k: "scope_ok ''k''" by (simp add: scope_ok_def)
  obtain s where s: "redis_inv ref_json (r_keys s)" "r_up s"
      "redis_edges ref_json (r_keys s) (''c'', ''k'') = Some (stored ''k'' sample_edge, 1)"
    using rref.create_anyway [OF r_empty(1,2) k sample_edge_range, of "''c''"] by auto
  from redis_lost_update [OF ref_redis_json ref_redis_service s(1,2) k sample_edge_range sample_edge_range s(3)]
  show ?thesis by (fastforce simp: max_int64_def)
qed

text \<open>
  C24: the Redis store grants more than the rate.  When the reads of two acquisitions of the last free slot come
  before their increments, both are granted and the window has one grant too many.
\<close>

theorem redis_over_grant:
  assumes "redis_json js" and "redis_service r keyspace up" and "redis_inv js (keyspace s)" and "up s"
    and "redis_granted (keyspace s) (a, m) = rate - 1" and "rate < max_int64" and "0 < w"
  shows "\<exists>n1 n2 s1 s2 s3 s4. redis_count r (getWindowKeyName a m) rate s = (Inr n1, s1)
     \<and> redis_count r (getWindowKeyName a m) rate s1 = (Inr n2, s2)
     \<and> redis_hit r n1 (getWindowKeyName a m) w s2 = ((True, None), s3)
     \<and> redis_hit r n2 (getWindowKeyName a m) w s3 = ((True, None), s4)
     \<and> redis_granted (keyspace s4) (a, m) = rate + 1"
  by (rule redis_backend.acquire_race [OF redis_backendI [OF assms(1,2)] assms(3-7)])

theorem redis_over_grant_witness:
  "\<exists>n1 n2 s1 s2 s3 s4. redis_count ref_redis (getWindowKeyName ''a'' 0) 1 empty_rworld = (Inr n1, s1)
     \<and> redis_count ref_redis (getWindowKeyName ''a'' 0) 1 s1 = (Inr n2, s2)
     \<and> redis_hit ref_redis n1 (getWindowKeyName ''a'' 0) 60 s2 = ((True, None), s3)
     \<and> redis_hit ref_redis n2 (getWindowKeyName ''a'' 0) 60 s3 = ((True, None), s4)
     \<and> redis_granted (r_keys s4) (''a'', 0) = 2"
  using redis_over_grant [OF ref_redis_json ref_redis_service r_empty(1,2), of "''a''" 0 1 60]
  by (simp add: redis_granted_def r_empty(3) max_int64_def)

text \<open>
  C35: \<^verbatim>\<open>Suppress\<close> and its window.  The first notification with a hash is reported as new, and this touches neither edges
  nor rate windows.  Let the service then delete, up to some time \<open>t\<close>, any rows whose time to live has passed (or none).  A
  notification with the same hash at a time \<open>t\<close> not after the end of the window is reported as a duplicate and changes
  nothing.  In general the answer is whether the row is still there: the code does not look at the time in it, so that after
  the window a duplicate is still reported for as long as the service leaves the row.
\<close>

theorem suppress_window:
  assumes "attributevalue av" and "dynamodb db table up" and "up s" and "table s tn (pkClient c, skDedup h) = None"
    and "in_int64 (unix (now + w))" and "ddb_Suppress av db tn now c h w s = (r1, s1)"
    and "expires t (table s1) (table s2)" and "up s2" and "ddb_Suppress av db tn t c h w' s2 = (r2, s3)"
  shows "r1 = (False, None) \<and> ddb_edges av (table s1) tn = ddb_edges av (table s) tn
    \<and> ddb_granted (table s1) tn = ddb_granted (table s) tn
    \<and> (unix t \<le> unix (now + w) \<longrightarrow> r2 = (True, None) \<and> table s3 = table s2)
    \<and> r2 = (table s2 tn (pkClient c, skDedup h) \<noteq> None, None)"
proof -
  let ?rk = "(pkClient c, skDedup h)"
  note law = ddb_backend.suppress_law [OF ddb_backendI [OF assms(1,2)]]
  obtain d1 e1 where r1: "r1 = (d1, e1)" by (cases r1)
  have "it ''PK'' \<noteq> None \<and> it ''SK'' \<noteq> None" if "table s tn ?rk = Some it" for it using that assms(4) by simp
  note l = law [OF assms(6) [unfolded r1] assms(3) refl this]
  have l1: "d1 = False" "e1 = None" using l assms(4) by simp_all
  from l [unfolded l1(1) if_False] obtain it where
    it: "it ''PK'' \<noteq> None" "it ''SK'' \<noteq> None" "it ''ttl'' = Some (AvN (FormatInt (unix (now + w))))"
    and s1: "table s1 = set_row (table s) tn ?rk (Some it)" by blast
  have s2: "table s2 tn ?rk = Some it \<or> table s2 tn ?rk = None \<and> expired t it"
    using assms(7) unfolding expires_def s1 by (metis option.inject set_row_simps(1))
  obtain d2 e2 where r2: "r2 = (d2, e2)" by (cases r2)
  have "x ''PK'' \<noteq> None \<and> x ''SK'' \<noteq> None" if "table s2 tn ?rk = Some x" for x using that s2 it(1,2) by auto
  note l2 = law [OF assms(9) [unfolded r2] assms(8) refl this]
  have "table s2 tn ?rk \<noteq> None" if "unix t \<le> unix (now + w)"
    using s2 that it(3) assms(5) by (auto simp: expired_def)
  moreover have "ddb_edges av (table s1) tn = ddb_edges av (table s) tn" "ddb_granted (table s1) tn = ddb_granted (table s) tn"
    by (rule ext; simp add: s1 ddb_edges_def ddb_granted_def set_row_def)+
  ultimately show ?thesis using l1 l2 by (auto simp: r1 r2)
qed

theorem suppress_window_witness:
  "\<exists>s1 s2. ddb_Suppress ref_av ref_db ''t'' 0 ''c'' ''h'' (60 * second) empty_world = ((False, None), s1)
     \<and> ddb_Suppress ref_av ref_db ''t'' (50 * second) ''c'' ''h'' (60 * second) s1 = ((True, None), s2)"
proof -
  obtain r1 s1 where p: "ddb_Suppress ref_av ref_db ''t'' 0 ''c'' ''h'' (60 * second) empty_world = (r1, s1)" by (metis surj_pair)
  obtain r2 s2 where q: "ddb_Suppress ref_av ref_db ''t'' (50 * second) ''c'' ''h'' (60 * second) s1 = (r2, s2)" by (metis surj_pair)
  have up: "w_up s1"
    using ddb_backend.suppress_law [OF ddb_backendI [OF ref_attributevalue ref_dynamodb], of "''t''" 0 "''c''" "''h''"
        "60 * second" empty_world "fst r1" "snd r1" s1, OF _ _ refl] p
    by (simp add: w_up_def empty_world_def w_table_def)
  have "r1 = (False, None)" "r2 = (True, None)"
    using suppress_window [OF ref_attributevalue ref_dynamodb _ _ _ p _ up q]
    by (simp_all add: w_up_def empty_world_def w_table_def expires_def unix_def second_def in_int64_def min_int64_def max_int64_def)
  with p q show ?thesis by blast
qed

section \<open>The client stores\<close>

text \<open>
  C31: over DynamoDB a valid configuration that was put is what a get returns, until it is deleted; then the
  get reports \<^verbatim>\<open>ErrNotFound\<close>.  The configurations of the other clients stay as they were.
\<close>

theorem ddb_config_roundtrip:
  assumes "attributevalue av" and "dynamodb db table up" and "ddb_profiles_ok av (table s) tn" and "up s"
    and "config_range cc" and "Validate cc = None"
  shows "\<exists>s1 s2 s3 s4. ddb_PutClientConfig av db tn i cc s = (None, s1) \<and> ddb_GetClientConfig av db tn i s1 = (Inr cc, s2)
     \<and> ddb_DeleteClientConfig db tn i s2 = (None, s3) \<and> ddb_GetClientConfig av db tn i s3 = (Inl ErrNotFound, s4)
     \<and> (\<forall>j. j \<noteq> i \<longrightarrow> ddb_configs av (table s4) tn j = ddb_configs av (table s) tn j)"
  using client_store.put_get_delete [OF ddb_backend.clients_contract [OF ddb_backendI [OF assms(1,2)]], OF assms(3-6), of i]
  by (simp add: ddb_ClientStore_def)

theorem ddb_config_roundtrip_witness:
  "\<exists>s1 s2. ddb_PutClientConfig ref_av ref_db ''t'' ''c'' sample_config empty_world = (None, s1)
     \<and> ddb_GetClientConfig ref_av ref_db ''t'' ''c'' s1 = (Inr sample_config, s2)"
  using ddb_config_roundtrip [OF ref_attributevalue ref_dynamodb, OF _ _ sample_config_range sample_config_valid,
      of empty_world "''t''" "''c''"]
  by (auto simp: w_up_def empty_world_def w_table_def ddb_profiles_ok_def)

text \<open>
  C32: over Redis a valid configuration that was put is what a get returns, until it is deleted; then the get
  reports \<^verbatim>\<open>redis.Nil\<close>, not the \<^verbatim>\<open>ErrNotFound\<close> of the interface.  The other clients stay as they were.
\<close>

theorem redis_config_roundtrip:
  assumes "redis_json js" and "redis_service r keyspace up" and "redis_profiles_ok js (keyspace s)" and "up s"
    and "config_range cc" and "Validate cc = None"
  shows "\<exists>s1 s2 s3 s4. redis_PutClientConfig js r i cc s = (None, s1) \<and> redis_GetClientConfig js r i s1 = (Inr cc, s2)
     \<and> redis_DeleteClientConfig r i s2 = (None, s3) \<and> redis_GetClientConfig js r i s3 = (Inl RedisNil, s4)
     \<and> (\<forall>j. j \<noteq> i \<longrightarrow> redis_configs js (keyspace s4) j = redis_configs js (keyspace s) j)"
  using client_store.put_get_delete [OF redis_backend.clients_contract [OF redis_backendI [OF assms(1,2)]], OF assms(3-6), of i]
  by (simp add: redis_ClientStore_def)

theorem redis_config_roundtrip_witness:
  "\<exists>s1 s2. redis_PutClientConfig ref_json ref_redis ''c'' sample_config empty_rworld = (None, s1)
     \<and> redis_GetClientConfig ref_json ref_redis ''c'' s1 = (Inr sample_config, s2)"
  using redis_config_roundtrip [OF ref_redis_json ref_redis_service, OF _ _ sample_config_range sample_config_valid,
      of empty_rworld "''c''"]
  by (auto simp: r_empty redis_profiles_ok_def)

text \<open>
  C40: \<^verbatim>\<open>ListClients\<close> never lists a client, over either backend and however many profiles there are.  Over DynamoDB it
  asks for a partition no profile is in, on any table that holds only rows with the keys of this program; over Redis for
  the keys that match the bare prefix, which has no star.
\<close>

theorem clients_never_listed:
  assumes "attributevalue av" and "dynamodb db table up" and "program_rows (table s) tn" and "up s"
    and "redis_json js" and "redis_service r keyspace rup" and "rup s1"
  shows "(\<exists>s'. ddb_ListClients av db tn s = (Inr [], s') \<and> table s' = table s)
    \<and> (\<exists>s1'. redis_ListClients r s1 = (Inr [], s1') \<and> keyspace s1' = keyspace s1)"
  using ddb_backend.list_clients_law [OF ddb_backendI [OF assms(1,2)], OF assms(3)] assms(4)
    redis_backend.list_clients_law [OF redis_backendI [OF assms(5,6)], of s1] assms(7)
  by (cases "ddb_ListClients av db tn s"; cases "redis_ListClients r s1") auto

theorem clients_never_listed_witness:
  "(\<exists>s'. ddb_ListClients ref_av ref_db ''t'' profile_world = (Inr [], s') \<and> ddb_configs ref_av (w_table s') ''t'' ''c'' \<noteq> None)
     \<and> (\<exists>s'. redis_ListClients ref_redis profile_rworld = (Inr [], s') \<and> redis_configs ref_json (r_keys s') ''c'' \<noteq> None)"
  using clients_never_listed [OF ref_attributevalue ref_dynamodb profile_world_simps(3,1)
      ref_redis_json ref_redis_service profile_rworld_simps(1)] profile_world_simps(2) profile_rworld_simps(2)
  by fastforce

text \<open>
  C36: over Redis \<^verbatim>\<open>ClearAll\<close> removes every configuration and every data key of a configured client and
  nothing else; in particular the rate windows stay.  The client ids must be free of the glob characters of
  the \<^verbatim>\<open>KEYS\<close> command.
\<close>

theorem redis_clear_all:
  assumes "redis_json js" and "redis_service r keyspace up" and "up s"
    and "\<forall>i. keyspace s (getClientKey i) \<noteq> None \<longrightarrow> plain_pattern i"
  shows "\<exists>s'. redis_ClearAll r s = (Some None, s')
           \<and> (\<forall>i. keyspace s' (getClientKey i) = None)
           \<and> (\<forall>i k. keyspace s (getClientKey i) \<noteq> None \<longrightarrow> keyspace s' (getDataKeyName i k) = None)
           \<and> (\<forall>x m. keyspace s' (getWindowKeyName x m) = keyspace s (getWindowKeyName x m))"
proof -
  from redis_backend.clear_all_law [OF redis_backendI [OF assms(1,2)], OF assms(3,4)] obtain s' where
    s': "redis_ClearAll r s = (Some None, s')" "\<forall>k. keyspace s' k = (if cleared (keyspace s) k then None else keyspace s k)"
    by blast
  have "cleared (keyspace s) (getClientKey i)" for i by (auto simp: cleared_def)
  moreover have "cleared (keyspace s) (getDataKeyName i k)" if "keyspace s (getClientKey i) \<noteq> None" for i k
    using that by (auto simp: cleared_def)
  moreover have "\<not> cleared (keyspace s) (getWindowKeyName x m)" for x m by (simp add: cleared_def)
  ultimately show ?thesis using s' by auto
qed

theorem redis_clear_all_witness:
  "\<exists>s'. redis_ClearAll ref_redis profile_rworld = (Some None, s') \<and> r_keys s' (getClientKey ''c'') = None"
  using redis_clear_all [OF ref_redis_json ref_redis_service profile_rworld_simps(1)]
  unfolding profile_rworld_simps(3) by (auto simp: plain_pattern_def)

end
