(* ===== verification/Batches.thy ===== *)
theory Batches
  imports Lambda
begin

text \<open>
  Batches of queue messages: what \<^verbatim>\<open>HandleSQSEvent\<close> does over collaborators that keep their contracts and answer, as a fold
  of \<open>spec_run\<close> over the records, and messages in the form the README of the function documents.
\<close>

section \<open>What a batch means\<close>

text \<open>
  The identity, address, configuration and payload of a message that reaches the pipeline; the configuration is the one
  in the cache.
\<close>

definition accepted_message ::
    "StdJson \<Rightarrow> cfg_cache \<Rightarrow> req_clock \<Rightarrow> SQSMessage \<Rightarrow> (string \<times> string \<times> ClientConfig \<times> payload) option" where
  "accepted_message J cache clk x =
     (let c = string_attr x ClientIDHdrName; key = string_attr x ClientKeyHdrName; ip = string_attr x ''ClientIP'' in
      case (TTL_Get cache c (clk_cache clk 0), std_Unmarshal J (sqs_Body x)) of
        (Some cc, (p, None)) \<Rightarrow>
          if c \<noteq> [] \<and> key \<noteq> [] \<and> Auth cc c key = None then Some (c, if ip = [] then ''lambda'' else ip, cc, p) else None
      | _ \<Rightarrow> None)"

text \<open>Whether a result counts as processed, and what is published for it.\<close>

definition queue_result :: "StdJson \<Rightarrow> ClientConfig \<Rightarrow> payload \<Rightarrow> run_result \<Rightarrow> bool \<times> (string \<times> string) list" where
  "queue_result J cc p res =
     (if snd (snd (snd res)) \<noteq> None then (False, [])
      else case to_publish p res of
             None \<Rightarrow> (True, [])
           | Some q \<Rightarrow>
               (case std_Marshal J (AnyMap q) of Inl _ \<Rightarrow> (False, []) | Inr b \<Rightarrow> (True, [(SNSArn (Target (Trigger cc)), b)])))"

definition spec_message ::
    "Libs \<Rightarrow> StdJson \<Rightarrow> cfg_cache \<Rightarrow> req_clock \<Rightarrow> SQSMessage \<Rightarrow> store_view \<Rightarrow> (bool \<times> (string \<times> string) list) \<times> store_view" where
  "spec_message L J cache clk x V =
     (case accepted_message J cache clk x of
        None \<Rightarrow> ((False, []), V)
      | Some (c, ip, cc, p) \<Rightarrow>
          (case spec_run L (clk_run clk) c ip cc p V of (res, V1) \<Rightarrow> (queue_result J cc p res, V1)))"

fun spec_batch ::
    "Libs \<Rightarrow> StdJson \<Rightarrow> cfg_cache \<Rightarrow> (req_clock \<times> SQSMessage) list \<Rightarrow> store_view \<Rightarrow>
       (string list \<times> (string \<times> string) list) \<times> store_view" where
  "spec_batch L J cache [] V = (([], []), V)"
| "spec_batch L J cache ((clk, x) # xs) V =
     (case spec_message L J cache clk x V of
        ((ok, ms), V1) \<Rightarrow>
          (case spec_batch L J cache xs V1 of
             ((fs, ns), V2) \<Rightarrow> ((if ok then fs else MessageId x # fs, ms @ ns), V2)))"

text \<open>A message that names a client finds its configuration in the cache, and the values it brings are in range.\<close>

definition message_ok :: "Libs \<Rightarrow> StdJson \<Rightarrow> cfg_cache \<Rightarrow> req_clock \<Rightarrow> SQSMessage \<Rightarrow> bool" where
  "message_ok L J cache clk x \<longleftrightarrow>
     (string_attr x ClientIDHdrName \<noteq> [] \<longrightarrow> TTL_Get cache (string_attr x ClientIDHdrName) (clk_cache clk 0) \<noteq> None)
     \<and> in_int64 (unix (clk_edge (clk_run clk)))
     \<and> (\<forall>c ip cc p. accepted_message J cache clk x = Some (c, ip, cc, p) \<longrightarrow> config_range cc \<and> trigger_ok L cc p)"

lemma spec_run_versions:
  "spec_run L clk c ip cc p (E, G) = (res, E', G') \<Longrightarrow> version_at (E' x) \<le> version_at (E x) + 1"
  by (auto simp: spec_run_def spec_trigger_def Let_def split: prod.splits if_splits sum.splits option.splits)

lemma spec_message_versions:
  assumes "spec_message L J cache clk x (E, G) = (r, E', G')"
  shows "version_at (E' y) \<le> version_at (E y) + 1"
  using assms by (auto simp: spec_message_def split: option.splits prod.splits dest: spec_run_versions)

lemma spec_batch_versions:
  "spec_batch L J cache xs (E, G) = (r, E', G') \<Longrightarrow> version_at (E' y) \<le> version_at (E y) + int (length xs)"
proof (induction xs arbitrary: E G r E' G')
  case (Cons a xs)
  obtain clk x where a: "a = (clk, x)" by (cases a)
  obtain r1 E1 G1 where sp: "spec_message L J cache clk x (E, G) = (r1, E1, G1)" by (metis surj_pair)
  obtain r2 E2 G2 where rest: "spec_batch L J cache xs (E1, G1) = (r2, E2, G2)" by (metis surj_pair)
  have "E' = E2" using Cons.prems sp rest by (auto simp: a split: prod.splits)
  then show ?case using Cons.IH [OF rest] spec_message_versions [OF sp, of y] by simp
qed simp

lemma cached_load:
  "TTL_Get cache i (clk 0) = Some cc \<Longrightarrow> LoadCachedClientConfig clk cs i (cache, s) = (Inr cc, cache, s)"
  by (simp add: LoadCachedClientConfig_def)

context notify_system
begin

lemma queue_publish_refines:
  assumes "lambda_publish J pub arn q m1 m2 s = (err, s')" and "inv s" and "up s"
  shows "inv s' \<and> up s' \<and> edges s' = edges s \<and> granted s' = granted s
    \<and> (case std_Marshal J (AnyMap q) of Inl _ \<Rightarrow> err \<noteq> None \<and> log s' = log s | Inr b \<Rightarrow> err = None \<and> log s' = log s @ [(arn, b)])"
proof (cases "std_Marshal J (AnyMap q)")
  case (Inl x)
  then show ?thesis using assms by (auto simp: lambda_publish_def)
next
  case (Inr b)
  obtain pe s1 where q: "PublishRaw pub arn b s = (pe, s1)" by (cases "PublishRaw pub arn b s")
  show ?thesis
    using publish_frame [OF q assms(2)] publish [OF q] assms q Inr by (auto simp: lambda_publish_def log_write_def)
qed

lemma queue_switch_refines:
  assumes "lambda_switch J pub (SNSArn (Target (Trigger cc))) p res s = (err, s')" and "inv s" and "up s"
  shows "inv s' \<and> up s' \<and> edges s' = edges s \<and> granted s' = granted s
    \<and> (err = None \<longleftrightarrow> fst (queue_result J cc p res)) \<and> log s' = log s @ snd (queue_result J cc p res)"
proof -
  obtain a code g e where res: "res = (a, code, g, e)" by (cases res)
  show ?thesis
    using assms by (cases e; cases a)
      (auto simp: lambda_switch_def queue_result_def to_publish_def res split: sum.splits dest: queue_publish_refines)
qed

lemma process_refines:
  assumes s: "inv s" "up s" and ok: "message_ok L J cache clk x" and ver: "\<And>y. version_at (edges s y) < max_int64"
    and spec: "spec_message L J cache clk x (edges s, granted s) = ((fine, ms), V)"
  shows "\<exists>err s'. processMessage L J clk \<lparr>lh_ClientStore = cs, lh_DataStore = ds, lh_Publisher = pub\<rparr> x (cache, s) = (err, cache, s')
    \<and> (err = None \<longleftrightarrow> fine) \<and> inv s' \<and> up s' \<and> (edges s', granted s') = V \<and> log s' = log s @ ms"
proof (cases "accepted_message J cache clk x")
  case None
  have V: "\<not> fine" "ms = []" "V = (edges s, granted s)" using spec None by (auto simp: spec_message_def)
  have "\<exists>e. processMessage L J clk \<lparr>lh_ClientStore = cs, lh_DataStore = ds, lh_Publisher = pub\<rparr> x (cache, s) = (Some e, cache, s)"
    using None ok
    by (auto simp: accepted_message_def message_ok_def processMessage_def extractMessageAttributes_def Let_def cached_load
        split: if_splits option.splits prod.splits)
  then show ?thesis using V s by auto
next
  case (Some y)
  obtain c ip cc p where y: "y = (c, ip, cc, p)" by (cases y)
  note acc = Some [unfolded y]
  obtain res V1 where run: "spec_run L (clk_run clk) c ip cc p (edges s, granted s) = (res, V1)" by (metis surj_pair)
  have V: "(fine, ms) = queue_result J cc p res" "V = V1" using spec acc run by (auto simp: spec_message_def)
  have "config_range cc" "trigger_ok L cc p" "in_int64 (unix (clk_edge (clk_run clk)))"
    using ok acc by (auto simp: message_ok_def)
  then obtain s2 where r: "Run L (clk_run clk) c ip cc ds p s = (res, s2)" "inv s2" "up s2" "(edges s2, granted s2) = V"
    using run_refines [OF s _ _ _ ver run] V(2) by blast
  obtain err s' where sw: "lambda_switch J pub (SNSArn (Target (Trigger cc))) p res s2 = (err, s')" by (metis surj_pair)
  have "processMessage L J clk \<lparr>lh_ClientStore = cs, lh_DataStore = ds, lh_Publisher = pub\<rparr> x (cache, s) = (err, cache, s')"
    using acc r(1) sw
    by (auto simp: accepted_message_def processMessage_def extractMessageAttributes_def Let_def cached_load
        split: if_splits option.splits prod.splits)
  then show ?thesis using queue_switch_refines [OF sw r(2,3)] r(4) V(1) [symmetric] run_quiet [OF r(1)] by auto
qed

lemma batch_refines:
  assumes "inv s" and "up s" and "\<forall>(clk, x) \<in> set xs. message_ok L J cache clk x"
    and "\<forall>y. version_at (edges s y) + int (length xs) \<le> max_int64"
    and "spec_batch L J cache xs (edges s, granted s) = ((fs, ms), V)"
  shows "\<exists>s'. HandleSQSEvent L J \<lparr>lh_ClientStore = cs, lh_DataStore = ds, lh_Publisher = pub\<rparr> xs (cache, s) = (fs, cache, s')
    \<and> inv s' \<and> up s' \<and> (edges s', granted s') = V \<and> log s' = log s @ ms"
  using assms
proof (induction xs arbitrary: s fs ms)
  case Nil
  then show ?case by simp
next
  case (Cons a xs)
  obtain clk x where a: "a = (clk, x)" by (cases a)
  obtain fine ms1 E1 G1 where sp: "spec_message L J cache clk x (edges s, granted s) = ((fine, ms1), E1, G1)" by (metis surj_pair)
  obtain fs2 ms2 V2 where rest: "spec_batch L J cache xs (E1, G1) = ((fs2, ms2), V2)" by (metis surj_pair)
  have V: "V = V2" "ms = ms1 @ ms2" "fs = (if fine then fs2 else MessageId x # fs2)" using Cons.prems(5) sp rest by (auto simp: a)
  have ver: "version_at (edges s y) < max_int64" for y using spec [OF Cons.prems(4), of y] by simp
  obtain err s1 where p: "processMessage L J clk \<lparr>lh_ClientStore = cs, lh_DataStore = ds, lh_Publisher = pub\<rparr> x (cache, s) = (err, cache, s1)"
    and s1: "err = None \<longleftrightarrow> fine" "inv s1" "up s1" "edges s1 = E1" "granted s1 = G1" "log s1 = log s @ ms1"
    using process_refines [OF Cons.prems(1,2) _ ver sp] Cons.prems(3) by (auto simp: a)
  have "version_at (E1 y) \<le> version_at (edges s y) + 1" for y
    by (rule spec_message_versions [OF sp])
  then have "\<forall>y. version_at (edges s1 y) + int (length xs) \<le> max_int64" using Cons.prems(4) s1(4) by (smt (verit) length_Cons of_nat_Suc)
  then obtain s2 where "HandleSQSEvent L J \<lparr>lh_ClientStore = cs, lh_DataStore = ds, lh_Publisher = pub\<rparr> xs (cache, s1) = (fs2, cache, s2)"
    "inv s2" "up s2" "(edges s2, granted s2) = V2" "log s2 = log s1 @ ms2"
    using Cons.IH [OF s1(2,3), of fs2 ms2] Cons.prems(3) rest s1 V(1) by auto
  then show ?case using p s1 V by (auto simp: a)
qed

end

section \<open>Messages as the README has them\<close>

text \<open>
  \<^verbatim>\<open>cmd/lambda-sqs/README.md\<close> tells how a request is turned into a message: the headers become attributes of the same
  names, and the address the attribute \<^verbatim>\<open>ClientIP\<close>.
\<close>

definition documented_message :: "string \<Rightarrow> Request \<Rightarrow> SQSMessage" where
  "documented_message i r =
     \<lparr>MessageId = i, sqs_Body = fst (Body r),
      sqs_Attributes = [''X-Client-ID'' \<mapsto> Some (Header_Get (Header r) ''X-Client-ID''),
                        ''X-Client-Key'' \<mapsto> Some (Header_Get (Header r) ''X-Client-Key''),
                        ''ClientIP'' \<mapsto> Some (clientIP r)]\<rparr>"

lemma documented_message_refused:
  "processMessage L J clk h (documented_message i r) st =
     (Some (Wrap ''extract attributes'' (ErrMsg ''missing required attribute: x-client-id'')), st)"
  by (simp add: processMessage_def extractMessageAttributes_def documented_message_def string_attr_def ClientIDHdrName_def Let_def)

lemma MessageId_documented [simp]: "MessageId (documented_message i r) = i"
  by (simp add: documented_message_def)

lemma documented_batch_refused:
  "HandleSQSEvent L J h (map (\<lambda>(clk, i, r). (clk, documented_message i r)) xs) st = (map (\<lambda>(clk, i, r). i) xs, st)"
  by (induction xs) (auto simp: documented_message_refused)

end
