(* ===== verification/Notify_Properties.thy ===== *)
theory Notify_Properties
  imports Notify_Reference Flow_Properties Batches
begin

text \<open>
  What a notification does from end to end, over HTTP and over the queue.
\<close>

section \<open>Concrete requests\<close>

definition ref_request :: Request where
  "ref_request =
     \<lparr>Method = ''POST'', Path = ''/notify'',
      Header = (\<lambda>k. if k = ''X-Client-Id'' then [''c''] else if k = ''X-Client-Key'' then [''secret-key''] else []),
      RemoteAddr = ''1.2.3.4:5555'', Body = (''{a}'', None)\<rparr>"

definition ref_writer :: ResponseWriter where
  "ref_writer = \<lparr>status = None, sent_type = [], content_type = [], written = [], open_conn = True\<rparr>"

definition ref_req_clock :: "int \<Rightarrow> req_clock" where
  "ref_req_clock t = \<lparr>clk_cache = (\<lambda>_. t * second), clk_run = ref_clock t\<rparr>"

abbreviation ref_handler :: "world Handler" where
  "ref_handler \<equiv> \<lparr>h_ClientStore = ref_clients, h_DataStore = ref_store, h_Pub = NewSNS ref_sns\<rparr>"

lemma ref_request_simps:
  "request_client ref_request = ''c''" "request_key ref_request = ''secret-key''" "clientIP ref_request = ''1.2.3.4''"
  "Method ref_request = ''POST''" "Body ref_request = (''{a}'', None)"
  "Path ref_request = ''/notify''"
  by code_simp+

lemma ref_body: "read_limited body_limit (Body ref_request) = (''{a}'', None)"
  unfolding ref_request_simps by (rule read_limited_short) (simp add: body_limit_def)

lemma ref_unmarshal: "json_unmarshal ref_libs ''{a}'' = (ref_payload ''a'', None)"
  by (simp add: ref_libs_def ref_unmarshal_json_def ref_payload_def)

lemma ref_load_config:
  "LoadCachedClientConfig (clk_cache (ref_req_clock t)) ref_clients ''c'' (NewTTL, client_world)
     = (Inr sample_config, TTL_Set NewTTL ''c'' sample_config (300 * second) (t * second), client_world)"
  by (simp add: LoadCachedClientConfig_def client_world_get ref_req_clock_def)

lemma ref_auth: "Auth sample_config ''c'' ''secret-key'' = None"
  by (simp add: Auth_def sample_config_def)

lemma client_world_ok: "ref_inv client_world" "w_up client_world" "ref_edges client_world x = None" "ref_granted client_world b = 0"
  "sent client_world = []"
  by (simp_all add: ddb_inv_def client_world_def w_table_def empty_world_def w_up_def ddb_edges_def ddb_granted_def)

lemma ref_writer_fresh: "fresh ref_writer" "status ref_writer = None"
  by (simp_all add: fresh_def ref_writer_def)

section \<open>HTTP\<close>

text \<open>
  C10: whatever the request and whatever fails, a call of the HTTP handler publishes at most one message, and
  only for a POST request whose client was found and whose key is right; the message goes to the topic of that
  client.  The answer has one of six statuses, and 202 or 500 when something was published.
\<close>

theorem notify_publishes_at_most_once:
  assumes "quiet_stores ds cs log" and "publisher pub log"
    and "handleNotify L clk \<lparr>h_ClientStore = cs, h_DataStore = ds, h_Pub = pub\<rparr> r w (cache, s) = (w', cache', s')"
    and "status w = None"
  shows "status w' \<in> Some ` {202, 400, 401, 405, 429, 500}
    \<and> (log s' = log s \<or>
        (\<exists>cc m s1. Method r = ''POST'' \<and> LoadCachedClientConfig (clk_cache clk) cs (request_client r) (cache, s) = (Inr cc, cache', s1)
           \<and> Auth cc (request_client r) (request_key r) = None
           \<and> log s' = log s @ [(SNSArn (Target (Trigger cc)), m)] \<and> status w' \<in> {Some 202, Some 500}))"
  by (rule notify_stores.handle_notify_log [OF notify_stores.intro [OF assms(1,2)] assms(3,4)])

theorem notify_publishes_at_most_once_witness:
  "\<exists>w' cache' s'. handleNotify ref_libs (ref_req_clock 1) ref_handler (ref_request\<lparr>Method := ''GET''\<rparr>) ref_writer (NewTTL, client_world)
       = (w', cache', s') \<and> sent s' = []"
proof -
  obtain w' cache' s' where n: "handleNotify ref_libs (ref_req_clock 1) ref_handler (ref_request\<lparr>Method := ''GET''\<rparr>) ref_writer
      (NewTTL, client_world) = (w', cache', s')" by (metis surj_pair)
  from notify_publishes_at_most_once [OF refn.quiet_stores_axioms ref_topic.publisher_axioms n ref_writer_fresh(2)]
  have "sent s' = sent client_world" by simp
  with n client_world_ok(5) show ?thesis by auto
qed

text \<open>
  C1: over collaborators that keep their contracts and answer, the HTTP handler does exactly what \<open>spec_run\<close> says
  for the parsed body: the edges and the grants afterwards are those of \<open>spec_run\<close>, the topic has received the
  message its result stands for and nothing else, and status and text of the answer are those of the result.
\<close>

theorem notify_end_to_end:
  assumes "notify_system ds edges granted Inv up cs log pub" and "Inv s" and "up s" and "fresh w" and "Method r = ''POST''"
    and "LoadCachedClientConfig (clk_cache clk) cs (request_client r) (cache, s) = (Inr cc, cache', s1)"
    and "Auth cc (request_client r) (request_key r) = None"
    and "read_limited body_limit (Body r) = (body, None)" and "body \<noteq> []" and "json_unmarshal L body = (p, None)"
    and "config_range cc" and "in_int64 (unix (clk_edge (clk_run clk)))" and "trigger_ok L cc p"
    and "version_at (edges s (request_client r, ComputeKey (FieldExpr (Trigger cc)))) < max_int64"
    and "spec_run L (clk_run clk) (request_client r) (clientIP r) cc p (edges s, granted s) = (res, V)"
    and "marshals L p res"
  shows "\<exists>w' s'. handleNotify L clk \<lparr>h_ClientStore = cs, h_DataStore = ds, h_Pub = pub\<rparr> r w (cache, s) = (w', cache', s')
    \<and> Inv s' \<and> up s' \<and> (edges s', granted s') = V \<and> log s' = log s @ messages L cc p res
    \<and> status w' = Some (result_status res) \<and> written w' = reply_text L res"
  by (rule notify_system.notify_refines [OF assms])

lemma ref_spec_run:
  "\<exists>V. spec_run ref_libs (ref_clock 1) ''c'' ''1.2.3.4'' sample_config (ref_payload ''a'')
        (ref_edges client_world, ref_granted client_world) = ((EdgeTriggeredForward, 202, None, None), V)
     \<and> (\<forall>x. version_at (fst V x) \<le> 1)"
  using ref_eval [of "''a''"]
  by (simp add: spec_run_def spec_gate_def spec_acquire_def spec_trigger_def spec_target_def sample_config_def
      CheckPassthrough_def edge_step_def publishes_def client_world_ok target_scope_def Let_def)

theorem notify_end_to_end_witness:
  "\<exists>w' cache' s'. handleNotify ref_libs (ref_req_clock 1) ref_handler ref_request ref_writer (NewTTL, client_world)
       = (w', cache', s') \<and> status w' = Some 202 \<and> sent s' = [(''arn'', ''{a}'')]"
proof -
  obtain V where spec: "spec_run ref_libs (ref_clock 1) ''c'' ''1.2.3.4'' sample_config (ref_payload ''a'')
        (ref_edges client_world, ref_granted client_world) = ((EdgeTriggeredForward, 202, None, None), V)"
    using ref_spec_run by blast
  have m: "marshals ref_libs (ref_payload ''a'') (EdgeTriggeredForward, 202, None, None)"
    by (simp add: marshals_def to_publish_def status_body_def ref_libs_def ref_marshal_json_def ref_payload_def)
  have msg: "messages ref_libs sample_config (ref_payload ''a'') (EdgeTriggeredForward, 202, None, None) = [(''arn'', ''{a}'')]"
    by (simp add: messages_def to_publish_def ref_libs_def ref_marshal_json_def ref_payload_def sample_config_def)
  note thm1 = notify_end_to_end [OF refn.notify_system_axioms, of client_world ref_writer ref_request "ref_req_clock 1" NewTTL
      sample_config _ _ "''{a}''" ref_libs "ref_payload ''a''", unfolded ref_request_simps(1-3),
      OF client_world_ok(1,2) ref_writer_fresh(1) ref_request_simps(4) ref_load_config ref_auth ref_body]
  from thm1 [OF _ ref_unmarshal sample_config_range _ ref_trigger_ok _ _ m, of V] spec client_world_ok(3) show ?thesis
    by (simp add: ref_req_clock_def ref_clock_def unix_def second_def in_int64_def min_int64_def max_int64_def
        ValidString_one client_world_ok(5) msg result_status_def) blast
qed

text \<open>
  C21: an edge that was committed is not published again.  After a \<^verbatim>\<open>Run\<close> that asked for a publication,
  running the same payload again asks for none, as long as the edges are what the first run left: a client
  that retries because the publication failed gets its notification suppressed.
\<close>

theorem committed_edge_not_republished:
  assumes "seq_data_store ds edges granted Inv up" and "Inv s" and "up s" and "config_range cc" and "trigger_ok L cc p"
    and "k = ComputeKey (FieldExpr (Trigger cc))"
    and "in_int64 (unix (clk_edge clk))" and "in_int64 (unix (clk_edge clk'))"
    and "version_at (edges s (c, k)) < max_int64" and "version_at (edges s2 (c, k)) < max_int64"
    and "Run L clk c ip cc ds p s = (r, s1)" and "publishes (fst r)"
    and "Inv s2" and "up s2" and "edges s2 = edges s1" and "Run L clk' c ip' cc ds p s2 = (r', s3)"
  shows "to_publish p r' = None \<and> edges s3 = edges s2"
  by (rule seq_data_store.retry_publishes_nothing [OF assms])

definition retried_world :: world where
  "retried_world = snd (Run ref_libs (ref_clock 1) ''c'' ''1.2.3.4'' sample_config ref_store (ref_payload ''a'') client_world)"

lemma first_run:
  "Run ref_libs (ref_clock 1) ''c'' ''1.2.3.4'' sample_config ref_store (ref_payload ''a'') client_world
     = ((EdgeTriggeredForward, 202, None, None), retried_world)"
  "ref_inv retried_world" "w_up retried_world" "version_at (ref_edges retried_world x) < max_int64"
proof -
  obtain V where spec: "spec_run ref_libs (ref_clock 1) ''c'' ''1.2.3.4'' sample_config (ref_payload ''a'')
        (ref_edges client_world, ref_granted client_world) = ((EdgeTriggeredForward, 202, None, None), V)"
    and ver: "version_at (fst V x) \<le> 1"
    using ref_spec_run by blast
  obtain s' where s': "Run ref_libs (ref_clock 1) ''c'' ''1.2.3.4'' sample_config ref_store (ref_payload ''a'') client_world
      = ((EdgeTriggeredForward, 202, None, None), s')" "ref_inv s'" "w_up s'" "(ref_edges s', ref_granted s') = V"
    using seq_data_store.run_refines [OF ref.store.seq_data_store_axioms, OF client_world_ok(1,2) sample_config_range _ _ _ spec] client_world_ok(3)
    by (auto simp: ref_clock_def unix_def second_def in_int64_def min_int64_def max_int64_def ref_trigger_ok ValidString_one)
  then have eq: "retried_world = s'" by (simp add: retried_world_def)
  show "Run ref_libs (ref_clock 1) ''c'' ''1.2.3.4'' sample_config ref_store (ref_payload ''a'') client_world
     = ((EdgeTriggeredForward, 202, None, None), retried_world)" "ref_inv retried_world" "w_up retried_world"
    using s' by (simp_all add: eq)
  have "ref_edges s' = fst V" using s'(4) by (metis fst_conv)
  then show "version_at (ref_edges retried_world x) < max_int64" using ver by (simp add: eq max_int64_def)
qed

theorem committed_edge_not_republished_witness:
  "\<exists>r s3. Run ref_libs (ref_clock 2) ''c'' ''1.2.3.4'' sample_config ref_store (ref_payload ''a'') retried_world = (r, s3)
     \<and> to_publish (ref_payload ''a'') r = None"
proof -
  obtain r s3 where r: "Run ref_libs (ref_clock 2) ''c'' ''1.2.3.4'' sample_config ref_store (ref_payload ''a'') retried_world = (r, s3)"
    by (metis surj_pair)
  have "to_publish (ref_payload ''a'') r = None \<and> ref_edges s3 = ref_edges retried_world"
    by (rule committed_edge_not_republished [OF ref.store.seq_data_store_axioms, OF client_world_ok(1,2) sample_config_range
          ref_trigger_ok refl _ _ _ first_run(4,1) _ first_run(2,3) refl r])
      (simp_all add: ref_clock_def unix_def second_def in_int64_def min_int64_def max_int64_def ValidString_one
        client_world_ok publishes_def)
  with r show ?thesis by blast
qed

section \<open>The queue\<close>

text \<open>
  C11: a queue message and an HTTP request with the same client, key, address and body are processed alike: cache,
  stores and topics end up the same, and the message fails exactly when the HTTP answer is not a JSON text.  The client
  and the key of a message are what it carries under the attribute names that the code reads, \<^verbatim>\<open>x-client-id\<close> and
  \<^verbatim>\<open>x-client-key\<close> in lower case; a message with the names of the README is another matter (see below).  The two JSON
  packages must agree on the values involved.
\<close>

theorem lambda_agrees_with_http:
  assumes "same_input r x" and "same_json L J (sqs_Body x)" and "status w = None"
    and "handleNotify L clk \<lparr>h_ClientStore = cs, h_DataStore = ds, h_Pub = pub\<rparr> r w st = (w', st')"
    and "processMessage L J clk \<lparr>lh_ClientStore = cs, lh_DataStore = ds, lh_Publisher = pub\<rparr> x st = (err, st'')"
  shows "st'' = st' \<and> (err = None \<longleftrightarrow> sent_type w' = ''application/json'')"
  by (rule process_same_as_notify [OF assms])

definition ref_std :: StdJson where
  "ref_std = \<lparr>std_Marshal = json_marshal ref_libs, std_Unmarshal = json_unmarshal ref_libs\<rparr>"

definition ref_message :: SQSMessage where
  "ref_message = \<lparr>MessageId = ''m1'', sqs_Body = ''{a}'',
     sqs_Attributes = [''x-client-id'' \<mapsto> Some ''c'', ''x-client-key'' \<mapsto> Some ''secret-key'', ''ClientIP'' \<mapsto> Some ''1.2.3.4'']\<rparr>"

abbreviation ref_lambda :: "world LambdaHandler" where
  "ref_lambda \<equiv> \<lparr>lh_ClientStore = ref_clients, lh_DataStore = ref_store, lh_Publisher = NewSNS ref_sns\<rparr>"

lemma ref_same_input: "same_input ref_request ref_message"
  by (simp add: same_input_def ref_request_simps ref_message_def string_attr_def ClientIDHdrName_def ClientKeyHdrName_def
      body_limit_def)

lemma ref_same_json: "same_json ref_libs ref_std b"
  by (auto simp: same_json_def ref_std_def split: prod.splits)

theorem lambda_agrees_with_http_witness:
  "snd (processMessage ref_libs ref_std (ref_req_clock 1) ref_lambda ref_message (NewTTL, client_world))
     = snd (handleNotify ref_libs (ref_req_clock 1) ref_handler ref_request ref_writer (NewTTL, client_world))"
proof -
  obtain w' st' where n: "handleNotify ref_libs (ref_req_clock 1) ref_handler ref_request ref_writer (NewTTL, client_world) = (w', st')"
    by (metis surj_pair)
  obtain e st'' where p: "processMessage ref_libs ref_std (ref_req_clock 1) ref_lambda ref_message (NewTTL, client_world) = (e, st'')"
    by (metis surj_pair)
  show ?thesis
    using lambda_agrees_with_http [OF ref_same_input ref_same_json ref_writer_fresh(2) n p] n p by simp
qed

text \<open>
  C27: messages in the form that the README documents are never processed.  It maps the headers \<^verbatim>\<open>X-Client-ID\<close> and
  \<^verbatim>\<open>X-Client-Key\<close>, which are those that the HTTP handler reads, to attributes of these names; the attributes are looked up
  by lower-case names, and attribute names are case-sensitive.  Whatever the requests, the handler and the state, every
  record of a batch of such messages is reported as failed, and nothing is read, written or published.
\<close>

theorem documented_messages_refused:
  "HandleSQSEvent L J h (map (\<lambda>(clk, i, r). (clk, documented_message i r)) xs) st = (map (\<lambda>(clk, i, r). i) xs, st)
   \<and> request_client r = Header_Get (Header r) ''X-Client-ID'' \<and> request_key r = Header_Get (Header r) ''X-Client-Key''"
proof -
  have "CanonicalMIMEHeaderKey ClientIDHdrName = CanonicalMIMEHeaderKey ''X-Client-ID''"
    "CanonicalMIMEHeaderKey ClientKeyHdrName = CanonicalMIMEHeaderKey ''X-Client-Key''" by code_simp+
  then show ?thesis by (simp add: documented_batch_refused request_client_def request_key_def Header_Get_def)
qed

text \<open>
  C12: a batch of the queue does what \<open>spec_batch\<close> says: over collaborators that keep their contracts and answer, with the
  configurations of the clients in the cache, the records are run through \<open>spec_run\<close> one after the other, each on the edges
  and grants its predecessor left; the topics receive the messages of the results in this order and nothing else; and the
  identifiers reported as failed are those of the records that were not accepted (attributes, key or body), that the
  pipeline answered with an error, or whose message could not be encoded.
\<close>

theorem batch_end_to_end:
  assumes "notify_system ds edges granted Inv up cs log pub" and "Inv s" and "up s"
    and "\<forall>(clk, x) \<in> set xs. message_ok L J cache clk x"
    and "\<forall>y. version_at (edges s y) + int (length xs) \<le> max_int64"
    and "spec_batch L J cache xs (edges s, granted s) = ((failed, ms), V)"
  shows "\<exists>s'. HandleSQSEvent L J \<lparr>lh_ClientStore = cs, lh_DataStore = ds, lh_Publisher = pub\<rparr> xs (cache, s) = (failed, cache, s')
    \<and> Inv s' \<and> up s' \<and> (edges s', granted s') = V \<and> log s' = log s @ ms"
  by (rule notify_system.batch_refines [OF assms])

text \<open>A client with a limit of one notification per address, and messages of it from two addresses.\<close>

definition queue_config :: ClientConfig where
  "queue_config = sample_config\<lparr>IPRPM := 1, ClientRPM := 0,
     Trigger := (Trigger sample_config)\<lparr>Target := \<lparr>SNSArn = ''arn'', SNSRPM = 0\<rparr>\<rparr>\<rparr>"

definition queue_cache :: cfg_cache where
  "queue_cache = TTL_Set NewTTL ''c'' queue_config (300 * second) 0"

definition queue_message :: "string \<Rightarrow> char \<Rightarrow> string \<Rightarrow> SQSMessage" where
  "queue_message i v ip = \<lparr>MessageId = i, sqs_Body = [CHR ''{'', v, CHR ''}''],
     sqs_Attributes = [''x-client-id'' \<mapsto> Some ''c'', ''x-client-key'' \<mapsto> Some ''secret-key'', ''ClientIP'' \<mapsto> Some ip]\<rparr>"

lemma MessageId_queue [simp]: "MessageId (queue_message i v ip) = i"
  by (simp add: queue_message_def)

abbreviation "queue_scope \<equiv> (''c'', ComputeKey ''v'')"

lemma queue_accepted:
  "t \<le> 300 \<Longrightarrow> ip \<noteq> [] \<Longrightarrow>
     accepted_message ref_std queue_cache (ref_req_clock t) (queue_message i v ip) = Some (''c'', ip, queue_config, ref_payload [v])"
  by (simp add: accepted_message_def queue_message_def string_attr_def ClientIDHdrName_def ClientKeyHdrName_def queue_cache_def
      TTL_Get_Set_same ref_req_clock_def ref_std_def ref_libs_def ref_unmarshal_json_def ref_payload_def Auth_def queue_config_def
      sample_config_def second_def Let_def)

lemma queue_eval: "EvalString ref_libs (FieldExpr (Trigger queue_config)) (ref_payload x) = Inr (Some x)"
  using ref_eval [of x] by (simp add: queue_config_def)

lemma queue_message_ok:
  assumes "0 \<le> t" and "t \<le> 300" and "ip \<noteq> []" and "(of_char v :: nat) < 128"
  shows "message_ok ref_libs ref_std queue_cache (ref_req_clock t) (queue_message i v ip)"
proof -
  have "TTL_Get queue_cache (string_attr (queue_message i v ip) ClientIDHdrName) (clk_cache (ref_req_clock t) 0) \<noteq> None"
    using assms(2) by (simp add: queue_message_def string_attr_def ClientIDHdrName_def queue_cache_def TTL_Get_Set_same
        ref_req_clock_def second_def)
  moreover have "in_int64 (unix (clk_edge (clk_run (ref_req_clock t))))"
    using assms(1,2) by (simp add: ref_req_clock_def ref_clock_def unix_def second_def in_int64_def min_int64_def max_int64_def)
  moreover have "config_range queue_config"
    using sample_config_range by (simp add: queue_config_def config_range_def sample_config_def in_int64_def min_int64_def max_int64_def)
  moreover have "trigger_ok ref_libs queue_config (ref_payload [v])"
    using ref_trigger_ok [OF ValidString_one [OF assms(4)]] by (simp add: trigger_ok_def queue_config_def)
  ultimately show ?thesis unfolding message_ok_def queue_accepted [OF assms(2,3)] by simp
qed

lemma queue_refused:
  assumes "t \<le> 300" and "ip \<noteq> []" and "1 \<le> G (''IP:'' @ ip, epoch_minute (t * second))"
  shows "spec_message ref_libs ref_std queue_cache (ref_req_clock t) (queue_message i v ip) (E, G) = ((False, []), E, G)"
  using assms(3) unfolding spec_message_def queue_accepted [OF assms(1,2)]
  by (simp add: spec_run_def spec_gate_def spec_acquire_def ref_req_clock_def ref_clock_def queue_config_def queue_result_def)

lemma queue_step:
  assumes "t \<le> 300" and "ip \<noteq> []" and "G (''IP:'' @ ip, epoch_minute (t * second)) < 1"
    and "\<forall>e n. E queue_scope = Some (e, n) \<longrightarrow> LastValue e \<noteq> [v]"
  shows "\<exists>e n. spec_message ref_libs ref_std queue_cache (ref_req_clock t) (queue_message i v ip) (E, G) =
      ((True, [(''arn'', [CHR ''{'', v, CHR ''}''])]), E(queue_scope \<mapsto> (e, n)),
       G((''IP:'' @ ip, epoch_minute (t * second)) := G (''IP:'' @ ip, epoch_minute (t * second)) + 1)) \<and> LastValue e = [v]"
proof -
  let ?b = "(''IP:'' @ ip, epoch_minute (t * second))"
  have "\<exists>e. edge_step ref_libs None (unix (t * second)) [v] (enc_of ref_libs (ref_payload [v])) (map_option fst (E queue_scope))
      = (EdgeTriggeredForward, None, Some e) \<and> LastValue e = [v]"
    using assms(4) by (cases "E queue_scope") (auto simp: edge_step_def flip_step_def)
  then obtain e where e: "edge_step ref_libs None (unix (t * second)) [v] (enc_of ref_libs (ref_payload [v])) (map_option fst (E queue_scope))
      = (EdgeTriggeredForward, None, Some e)" "LastValue e = [v]" by blast
  have cfg: "IPRPM queue_config = 1" "ClientRPM queue_config = 0" "FieldExpr (Trigger queue_config) = ''v''"
    "Flapping (Trigger queue_config) = None" "SNSArn (Target (Trigger queue_config)) = ''arn''"
    "SNSRPM (Target (Trigger queue_config)) = 0" "\<not> CheckPassthrough ref_libs (Passthrough queue_config) (ref_payload [v])"
    by (simp_all add: queue_config_def sample_config_def CheckPassthrough_def)
  have "spec_run ref_libs (ref_clock t) ''c'' ip queue_config (ref_payload [v]) (E, G) =
      ((EdgeTriggeredForward, 202, None, None),
       E(queue_scope \<mapsto> (stored (ComputeKey ''v'') e, version_at (E queue_scope) + 1)), G(?b := G ?b + 1))"
    using assms(3) e(1) queue_eval [of "[v]"]
    by (simp add: spec_run_def spec_gate_def spec_acquire_def spec_trigger_def spec_target_def cfg ref_clock_def Let_def)
  then show ?thesis
    using e(2) unfolding spec_message_def queue_accepted [OF assms(1,2)]
    by (intro exI [of _ "stored (ComputeKey ''v'') e"] exI [of _ "version_at (E queue_scope) + 1"])
      (simp add: ref_req_clock_def queue_result_def to_publish_def cfg ref_std_def ref_libs_def ref_marshal_json_def
        ref_payload_def stored_def)
qed

text \<open>
  Three messages in the order of the queue, the second of which is over the limit of its address, and then the
  second alone, a minute later.
\<close>

definition queue_first :: "(req_clock \<times> SQSMessage) list" where
  "queue_first = [(ref_req_clock 1, queue_message ''m1'' CHR ''a'' ''1.1.1.1''), (ref_req_clock 1, queue_message ''m2'' CHR ''b'' ''1.1.1.1''),
     (ref_req_clock 1, queue_message ''m3'' CHR ''d'' ''2.2.2.2'')]"

definition queue_again :: "(req_clock \<times> SQSMessage) list" where
  "queue_again = [(ref_req_clock 61, queue_message ''m2'' CHR ''b'' ''1.1.1.1'')]"

lemma queue_minutes: "epoch_minute (1 * second) = 0" "epoch_minute (61 * second) = 1"
  by code_simp+

lemma queue_spec:
  "\<exists>E G. spec_batch ref_libs ref_std queue_cache queue_first (ref_edges client_world, ref_granted client_world)
       = (([''m2''], [(''arn'', ''{a}''), (''arn'', ''{d}'')]), E, G)
     \<and> (\<forall>b. snd b = 1 \<longrightarrow> G b = 0) \<and> (\<exists>e n. E queue_scope = Some (e, n) \<and> LastValue e = ''d'')"
proof -
  let ?E = "ref_edges client_world" and ?G = "ref_granted client_world"
  let ?G1 = "?G((''IP:1.1.1.1'', 0) := 1)"
  obtain e1 n1 where m1: "spec_message ref_libs ref_std queue_cache (ref_req_clock 1) (queue_message ''m1'' CHR ''a'' ''1.1.1.1'') (?E, ?G)
      = ((True, [(''arn'', ''{a}'')]), ?E(queue_scope \<mapsto> (e1, n1)), ?G1)" and e1: "LastValue e1 = ''a''"
    using queue_step [of 1 "''1.1.1.1''" ?G ?E "CHR ''a''" "''m1''", unfolded queue_minutes] by (auto simp: client_world_ok(3,4))
  have m2: "spec_message ref_libs ref_std queue_cache (ref_req_clock 1) (queue_message ''m2'' CHR ''b'' ''1.1.1.1'') (?E(queue_scope \<mapsto> (e1, n1)), ?G1)
      = ((False, []), ?E(queue_scope \<mapsto> (e1, n1)), ?G1)"
    by (rule queue_refused) (simp_all add: queue_minutes [simplified])
  obtain e3 n3 where m3: "spec_message ref_libs ref_std queue_cache (ref_req_clock 1) (queue_message ''m3'' CHR ''d'' ''2.2.2.2'') (?E(queue_scope \<mapsto> (e1, n1)), ?G1)
      = ((True, [(''arn'', ''{d}'')]), ?E(queue_scope \<mapsto> (e3, n3)), (?G1)((''IP:2.2.2.2'', 0) := 1))"
    and e3: "LastValue e3 = ''d''"
    using queue_step [of 1 "''2.2.2.2''" ?G1 "?E(queue_scope \<mapsto> (e1, n1))" "CHR ''d''" "''m3''", unfolded queue_minutes] e1
    by (auto simp: client_world_ok(4))
  show ?thesis using e3 by (simp add: queue_first_def m1 m2 m3 client_world_ok(4))
qed

lemma queue_ok:
  "\<forall>(clk, x) \<in> set queue_first. message_ok ref_libs ref_std queue_cache clk x"
  "\<forall>(clk, x) \<in> set queue_again. message_ok ref_libs ref_std queue_cache clk x"
  by (auto simp: queue_first_def queue_again_def intro!: queue_message_ok)

theorem batch_end_to_end_witness:
  "\<exists>s. HandleSQSEvent ref_libs ref_std ref_lambda queue_first (queue_cache, client_world) = ([''m2''], queue_cache, s)
     \<and> sent s = [(''arn'', ''{a}''), (''arn'', ''{d}'')]"
proof -
  obtain E G where sp: "spec_batch ref_libs ref_std queue_cache queue_first (ref_edges client_world, ref_granted client_world)
       = (([''m2''], [(''arn'', ''{a}''), (''arn'', ''{d}'')]), E, G)" using queue_spec by blast
  have "\<forall>y. version_at (ref_edges client_world y) + int (length queue_first) \<le> max_int64"
    by (simp add: client_world_ok(3) queue_first_def max_int64_def)
  from batch_end_to_end [OF refn.notify_system_axioms, OF client_world_ok(1,2) queue_ok(1) this sp]
  show ?thesis using client_world_ok(5) by auto
qed

text \<open>
  C26: a failed record is overtaken.  There are three messages of one client, in the order of the queue and of one batch, such
  that the second is reported as failed (its address is over the limit) and the third is published all the same; when the
  queue delivers the second again it is published after the third, and the edge ends at the value of the second although the
  third is the later one.
\<close>

theorem failed_record_overtaken:
  "\<exists>s1 s2. HandleSQSEvent ref_libs ref_std ref_lambda queue_first (queue_cache, client_world) = ([''m2''], queue_cache, s1)
     \<and> HandleSQSEvent ref_libs ref_std ref_lambda queue_again (queue_cache, s1) = ([], queue_cache, s2)
     \<and> sent s2 = [(''arn'', ''{a}''), (''arn'', ''{d}''), (''arn'', ''{b}'')]
     \<and> (\<exists>e n. ref_edges s2 queue_scope = Some (e, n) \<and> LastValue e = ''b'')"
proof -
  obtain E G where sp: "spec_batch ref_libs ref_std queue_cache queue_first (ref_edges client_world, ref_granted client_world)
       = (([''m2''], [(''arn'', ''{a}''), (''arn'', ''{d}'')]), E, G)"
    and G: "\<forall>b. snd b = 1 \<longrightarrow> G b = 0" and E: "\<exists>e n. E queue_scope = Some (e, n) \<and> LastValue e = ''d''"
    using queue_spec by blast
  have "\<forall>y. version_at (ref_edges client_world y) + int (length queue_first) \<le> max_int64"
    by (simp add: client_world_ok(3) queue_first_def max_int64_def)
  then obtain s1 where s1: "HandleSQSEvent ref_libs ref_std ref_lambda queue_first (queue_cache, client_world) = ([''m2''], queue_cache, s1)"
    "ref_inv s1" "w_up s1" "(ref_edges s1, ref_granted s1) = (E, G)" "sent s1 = [(''arn'', ''{a}''), (''arn'', ''{d}'')]"
    using notify_system.batch_refines [OF refn.notify_system_axioms, OF client_world_ok(1,2) queue_ok(1) _ sp] client_world_ok(5) by auto
  obtain e n where m: "spec_message ref_libs ref_std queue_cache (ref_req_clock 61) (queue_message ''m2'' CHR ''b'' ''1.1.1.1'') (E, G) =
      ((True, [(''arn'', ''{b}'')]), E(queue_scope \<mapsto> (e, n)), G((''IP:1.1.1.1'', 1) := 1))" "LastValue e = ''b''"
    using queue_step [of 61 "''1.1.1.1''" G E "CHR ''b''" "''m2''", unfolded queue_minutes] G E by auto
  then have "spec_batch ref_libs ref_std queue_cache queue_again (ref_edges s1, ref_granted s1)
      = (([], [(''arn'', ''{b}'')]), E(queue_scope \<mapsto> (e, n)), G((''IP:1.1.1.1'', 1) := 1))"
    using s1(4) by (simp add: queue_again_def)
  moreover have "version_at (ref_edges s1 y) + int (length queue_again) \<le> max_int64" for y
    using spec_batch_versions [OF sp, of y] s1(4) client_world_ok(3) by (simp add: queue_again_def queue_first_def max_int64_def)
  ultimately obtain s2 where "HandleSQSEvent ref_libs ref_std ref_lambda queue_again (queue_cache, s1) = ([], queue_cache, s2)"
    "(ref_edges s2, ref_granted s2) = (E(queue_scope \<mapsto> (e, n)), G((''IP:1.1.1.1'', 1) := 1))" "sent s2 = sent s1 @ [(''arn'', ''{b}'')]"
    using notify_system.batch_refines [OF refn.notify_system_axioms, OF s1(2,3) queue_ok(2)] by blast
  then show ?thesis using s1 m(2) by auto
qed

end
