(* ===== verification/Api_Properties.thy ===== *)
theory Api_Properties
  imports Deployment_Reference Server Store_Properties Notify_Properties
begin

text \<open>
  The edges of the program: what is validated and encoded, where a request comes from, which backend the
  environment selects, and how the server stops.
\<close>

section \<open>Encoding and validation\<close>

text \<open>
  A payload survives its way into an edge: what \<^verbatim>\<open>EncodePayload\<close> stores is valid text, and
  \<^verbatim>\<open>DecodePayload\<close> gives back the JSON text of the payload, for any compressor that decompresses what it
  compressed.
\<close>

lemma payload_roundtrip:
  assumes "json_marshal L (AnyMap p) = Inr b" and "zstd_decode L (zstd_encode L b) = Inr b"
  shows "\<exists>enc. EncodePayload L p = Inr enc \<and> ValidString enc \<and> DecodePayload L enc = Inr b"
  using assms by (simp add: EncodePayload_def DecodePayload_def)

lemma payload_roundtrip_witness:
  "\<exists>enc. EncodePayload ref_libs (ref_payload ''a'') = Inr enc \<and> DecodePayload ref_libs enc = Inr ''{a}''"
  using payload_roundtrip [of ref_libs "ref_payload ''a''" "''{a}''"]
  by (auto simp: ref_libs_def ref_marshal_json_def ref_payload_def)

text \<open>
  C33: only valid configurations are stored.  A configuration without an id, a name or a key of eight bytes, with a
  negative limit, or with a window under ten seconds or a suppression outside the window is refused by both client
  stores, with the same error and without any access to the service.
\<close>

theorem invalid_config_refused:
  assumes "\<not> (ClientID cc \<noteq> [] \<and> ClientName cc \<noteq> [] \<and> 8 \<le> length (ClientKey cc) \<and> 0 \<le> IPRPM cc \<and> 0 \<le> ClientRPM cc
      \<and> (\<forall>f. Flapping (Trigger cc) = Some f \<longrightarrow>
            10 \<le> WindowSeconds f \<and> 0 \<le> SuppressBelow f \<and> SuppressBelow f \<le> WindowSeconds f))"
  shows "\<exists>e. Validate cc = Some e \<and> ddb_PutClientConfig av db tn i cc s = (Some e, s)
      \<and> redis_PutClientConfig js r i cc s' = (Some e, s')"
proof -
  have "\<not> valid_config cc" using assms by (auto simp: valid_config_def valid_flapping_def split: option.splits)
  then obtain e where "Validate cc = Some e" using Validate_None [of cc] by (cases "Validate cc") auto
  then show ?thesis by (simp add: ddb_PutClientConfig_def redis_PutClientConfig_def)
qed

theorem invalid_config_refused_witness:
  "\<exists>e. Validate (sample_config\<lparr>ClientKey := ''short''\<rparr>) = Some e
     \<and> ddb_PutClientConfig ref_av ref_db ''t'' ''c'' (sample_config\<lparr>ClientKey := ''short''\<rparr>) empty_world = (Some e, empty_world)"
  using invalid_config_refused [of "sample_config\<lparr>ClientKey := ''short''\<rparr>" ref_av ref_db "''t''" "''c''" empty_world
      ref_json ref_redis empty_rworld]
  by (simp add: sample_config_def) blast

section \<open>The address of a client\<close>

text \<open>
  The address that is rate limited.  A request with an \<^verbatim>\<open>X-Forwarded-For\<close> header counts for the first element of
  that header, which the client chooses; without it, for the host of the connection, also an IPv6 host in brackets.
\<close>

lemma clientIP_source:
  assumes "\<forall>c \<in> {CHR ''['', CHR '']''}. c \<notin> set host \<and> c \<notin> set port" and "CHR '':'' \<notin> set port" and "host \<noteq> []"
    and "RemoteAddr r = ''['' @ host @ '']:'' @ port \<or> RemoteAddr r = host @ '':'' @ port \<and> CHR '':'' \<notin> set host"
    and "xff = Header_Get (Header r) ''X-Forwarded-For''"
  shows "clientIP r = (if xff = [] then host else TrimSpace (takeWhile (\<lambda>c. c \<noteq> CHR '','') xff))"
  using assms SplitHostPort_plain [of host port] SplitHostPort_bracket [of host port]
  by (auto simp: clientIP_def Let_def split_first_def)

lemma clientIP_source_witness:
  "clientIP (ref_request\<lparr>RemoteAddr := ''[::1]:80'', Header := (\<lambda>k. [])\<rparr>) = ''::1''"
  using clientIP_source [of "''::1''" "''80''" "ref_request\<lparr>RemoteAddr := ''[::1]:80'', Header := (\<lambda>k. [])\<rparr>" "[]"]
  by (simp add: Header_Get_def)

section \<open>The deployed program\<close>

text \<open>
  C18: the function that is started from the environment meets the hypotheses of the end-to-end results.  Over services
  that behave as documented and are separate, and whichever of the four combinations of backends is selected, its stores
  and its publisher form a \<open>notify_system\<close>, for the edges and grants that the selected backend holds; with the data in
  DynamoDB the store also refuses stale versions.
\<close>

theorem deployed_function_keeps_contracts:
  assumes "deployed sv table keyspace log up" and "env = dotenv (getenv env0 ''ENV_FILE'' ''.env'') env0"
    and "lambda_main sv dotenv env0 s = (Some h, s')"
  shows "notify_system (lh_DataStore h) (env_edges sv table keyspace env) (env_granted table keyspace env)
      (env_inv sv table keyspace env) up (lh_ClientStore h) log (lh_Publisher h)
    \<and> (env ''DATA_BACKEND'' \<noteq> ''redis'' \<longrightarrow>
         data_store (lh_DataStore h) (env_edges sv table keyspace env) (env_granted table keyspace env)
           (env_inv sv table keyspace env) up)"
proof -
  obtain awsCfg cs s1 ds s2 where b: "ClientBackendFromEnv sv env s = (Some (Inr cs), s1)"
      "DataBackendFromEnv sv env s1 = (Some (Inr ds), s2)"
    and h: "h = \<lparr>lh_ClientStore = cs, lh_DataStore = ds, lh_Publisher = NewSNS (sns_NewFromConfig sv (snsOptionsFromEnv env awsCfg))\<rparr>"
    using assms(3) unfolding lambda_main_def Let_def assms(2) [symmetric]
    by (auto split: sum.splits prod.splits option.splits)
  show ?thesis
    using deployed.system [OF assms(1) b(2,1)] deployed.data_backend_cas [OF assms(1) b(2)] unfolding h by simp
qed

definition mixed_env :: env where
  "mixed_env = (\<lambda>_. [])(''CLIENT_BACKEND'' := ''redis'')"

lemma mixed_start: "\<exists>h s'. lambda_main both_services (\<lambda>_ e. e) mixed_env empty_both = (Some h, s')"
proof -
  have "FormatInt 0 = ''0''" by (simp add: FormatInt_def format_nat.simps [of 0] digit_char_def char_of_def bit_0)
  then have "Atoi ''0'' = Inr 0" using Atoi_FormatInt [of 0] by (simp add: in_int64_def min_int64_def max_int64_def)
  moreover have "w_write True id empty_world = (None, empty_world)"
    by (simp add: w_write_def next_fault_def empty_world_def)
  ultimately show ?thesis
    by (simp add: lambda_main_def ClientBackendFromEnv_def DataBackendFromEnv_def redisClientFromEnv_def redisOptionsFromEnv_def
        ddbClientFromEnv_def ddb_NewDataStore_def createTableIfNotExists_def mixed_env_def getenv_def BackendRedis_def
        parseBoolean_iff both_services_def both_db_def on_fst_def ref_db_def empty_both_def Let_def)
qed

lemma mixed_inv: "env_inv both_services both_table both_keys mixed_env empty_both \<and> both_up empty_both"
  using r_empty ref_inv_empty ref_up_empty
  by (simp add: env_inv_def env_table_def getenv_def mixed_env_def both_services_def both_defs empty_both_def redis_profiles_ok_def
      r_keys_def empty_rworld_def)

theorem deployed_function_keeps_contracts_witness:
  "env_inv both_services both_table both_keys mixed_env empty_both \<and> both_up empty_both \<and>
   (\<exists>h s'. lambda_main both_services (\<lambda>_ e. e) mixed_env empty_both = (Some h, s')
     \<and> notify_system (lh_DataStore h) (env_edges both_services both_table both_keys mixed_env)
         (env_granted both_table both_keys mixed_env) (env_inv both_services both_table both_keys mixed_env) both_up
         (lh_ClientStore h) both_sent (lh_Publisher h))"
proof -
  obtain h s' where m: "lambda_main both_services (\<lambda>_ e. e) mixed_env empty_both = (Some h, s')" using mixed_start by blast
  note law = deployed_function_keeps_contracts [OF both.deployed_axioms, of mixed_env "\<lambda>_ e. e" mixed_env, OF refl m]
  show ?thesis using m law [THEN conjunct1] mixed_inv by blast
qed

section \<open>Stopping the server\<close>

text \<open>
  C28: the outcome of the server is reported once.  In every reachable state at most one value was ever sent on the
  done channel, none before the serving goroutine ended; \<^verbatim>\<open>http.ErrServerClosed\<close> is never reported, and nil only after a
  shutdown was requested.  The goroutine is never blocked by the send.
\<close>

theorem done_sent_once:
  assumes "reachable s"
  shows "length (sent_values s) = (if serve_at s = Serve_exited then 1 else 0)
     \<and> Some ErrServerClosed \<notin> set (sent_values s)
     \<and> (None \<in> set (sent_values s) \<longrightarrow> stop_at s \<in> {Stop_shutting_down, Stop_exited})
     \<and> (\<forall>e. serve_at s = Serve_returned e \<longrightarrow>
          server_step s (s\<lparr>serve_at := Serve_exited, doneCh := [done_value e]\<rparr>))"
  using reachable_inv [OF assms] returned_can_send [OF assms] by (auto simp: server_inv_def)

theorem done_sent_once_witness:
  "length (sent_values early_done) = 1 \<and> Some ErrServerClosed \<notin> set (sent_values early_done)"
  using done_sent_once [OF early_done_reachable] by (simp add: early_done_def)

text \<open>
  A shutdown is always reported.  From every reachable state in which \<^verbatim>\<open>Shutdown\<close> was called, the serving goroutine
  reaches its end, and a value is on the channel or was received, without any request having to finish and without
  \<^verbatim>\<open>Shutdown\<close> having to return.
\<close>

lemma shutdown_always_reports:
  assumes "reachable s" and "shutdown s"
  shows "\<exists>s'. server_step\<^sup>*\<^sup>* s s' \<and> length (sent_values s') = 1 \<and> in_flight s' = in_flight s \<and> stop_at s' = stop_at s"
proof -
  obtain s' where s': "server_step\<^sup>*\<^sup>* s s'" "serve_at s' = Serve_exited" "in_flight s' = in_flight s" "stop_at s' = stop_at s"
    using shutdown_reports [OF assms] by (cases "serve_at s = Serve_exited") auto
  have "reachable s'" using assms(1) s'(1) by (auto simp: reachable_def)
  from reachable_inv [OF this] s' show ?thesis by (auto simp: server_inv_def)
qed

lemma shutdown_always_reports_witness:
  "\<exists>s'. server_step\<^sup>*\<^sup>* early_done s' \<and> length (sent_values s') = 1 \<and> in_flight s' = 1"
  using shutdown_always_reports [OF early_done_reachable] by (auto simp: early_done_def)

text \<open>
  C30: the grace period can be cut short.  There is a run in which the caller receives nil from the done channel while a
  request is still in flight and \<^verbatim>\<open>Shutdown\<close>, which would wait for it, has not returned: a process that exits on the done
  channel cuts that request off.
\<close>

theorem done_before_requests_finish:
  "\<exists>s. reachable s \<and> received s = [None] \<and> 0 < in_flight s \<and> stop_at s = Stop_shutting_down"
  by (intro exI [of _ early_done] conjI early_done_reachable) (simp_all add: early_done_def)

end
