(* ===== verification/Calls.thy ===== *)
theory Calls
  imports Notify
begin

text \<open>
  A request as the sequence of its calls.  Requests run concurrently, each in its own goroutine, and share the
  configuration cache, the stores and the topics; what can come between two requests are their calls to these.  The
  handler is therefore given once more as a resumption: either it has finished, or it waits for the reply to a call and
  continues with it.  \<open>exec\<close> runs a resumption alone; the handler so run is the handler of \<open>Http_Api\<close>.
\<close>

section \<open>Resumptions\<close>

text \<open>The cache is guarded by a mutex, so its two operations are calls like the others.\<close>

datatype 'r calls =
    Ret 'r
  | CacheGet string time "ClientConfig option \<Rightarrow> 'r calls"
  | CacheSet string ClientConfig duration time "unit \<Rightarrow> 'r calls"
  | CallGet string "go_error + ClientConfig \<Rightarrow> 'r calls"
  | CallAcquire clock string int duration "bool \<times> go_error option \<Rightarrow> 'r calls"
  | CallLoad string string "Edge option \<times> int \<times> go_error option \<Rightarrow> 'r calls"
  | CallUpsert string string int Edge "bool \<times> go_error option \<Rightarrow> 'r calls"
  | CallPublish string string "go_error option \<Rightarrow> 'r calls"

primrec and_then :: "'a calls \<Rightarrow> ('a \<Rightarrow> 'b calls) \<Rightarrow> 'b calls" where
  "and_then (Ret x) f = f x"
| "and_then (CacheGet i t k) f = CacheGet i t (\<lambda>r. and_then (k r) f)"
| "and_then (CacheSet i cc d t k) f = CacheSet i cc d t (\<lambda>r. and_then (k r) f)"
| "and_then (CallGet i k) f = CallGet i (\<lambda>r. and_then (k r) f)"
| "and_then (CallAcquire clk sc n w k) f = CallAcquire clk sc n w (\<lambda>r. and_then (k r) f)"
| "and_then (CallLoad c sk k) f = CallLoad c sk (\<lambda>r. and_then (k r) f)"
| "and_then (CallUpsert c sk pv e k) f = CallUpsert c sk pv e (\<lambda>r. and_then (k r) f)"
| "and_then (CallPublish arn m k) f = CallPublish arn m (\<lambda>r. and_then (k r) f)"

text \<open>A call together with its reply.\<close>

datatype event =
    EvCacheGet string time "ClientConfig option"
  | EvCacheSet string ClientConfig duration time
  | EvGet string "go_error + ClientConfig"
  | EvAcquire clock string int duration "bool \<times> go_error option"
  | EvLoad string string "Edge option \<times> int \<times> go_error option"
  | EvUpsert string string int Edge "bool \<times> go_error option"
  | EvPublish string string "go_error option"

text \<open>One call, made on the cache and the collaborators of a handler.\<close>

fun do_call :: "'s Handler \<Rightarrow> 'r calls \<Rightarrow> cfg_cache \<times> 's \<Rightarrow> (event \<times> 'r calls \<times> cfg_cache \<times> 's) option" where
  "do_call h (Ret x) st = None"
| "do_call h (CacheGet i t k) (d, s) = (let r = TTL_Get d i t in Some (EvCacheGet i t r, k r, d, s))"
| "do_call h (CacheSet i cc dur t k) (d, s) = Some (EvCacheSet i cc dur t, k (), TTL_Set d i cc dur t, s)"
| "do_call h (CallGet i k) (d, s) =
     (case GetClientConfig (h_ClientStore h) i s of (r, s1) \<Rightarrow> Some (EvGet i r, k r, d, s1))"
| "do_call h (CallAcquire clk sc n w k) (d, s) =
     (case Acquire (h_DataStore h) clk sc n w s of (r, s1) \<Rightarrow> Some (EvAcquire clk sc n w r, k r, d, s1))"
| "do_call h (CallLoad c sk k) (d, s) =
     (case Load (h_DataStore h) c sk s of (r, s1) \<Rightarrow> Some (EvLoad c sk r, k r, d, s1))"
| "do_call h (CallUpsert c sk pv e k) (d, s) =
     (case UpsertCAS (h_DataStore h) c sk pv e s of (r, s1) \<Rightarrow> Some (EvUpsert c sk pv e r, k r, d, s1))"
| "do_call h (CallPublish arn m k) (d, s) =
     (case PublishRaw (h_Pub h) arn m s of (r, s1) \<Rightarrow> Some (EvPublish arn m r, k r, d, s1))"

text \<open>A resumption run to its end, with nobody else calling.\<close>

primrec exec :: "'s Handler \<Rightarrow> 'r calls \<Rightarrow> cfg_cache \<times> 's \<Rightarrow> 'r \<times> cfg_cache \<times> 's" where
  "exec h (Ret x) st = (x, st)"
| "exec h (CacheGet i t k) st = exec h (k (TTL_Get (fst st) i t)) st"
| "exec h (CacheSet i cc dur t k) st = exec h (k ()) (TTL_Set (fst st) i cc dur t, snd st)"
| "exec h (CallGet i k) st =
     (case GetClientConfig (h_ClientStore h) i (snd st) of (r, s1) \<Rightarrow> exec h (k r) (fst st, s1))"
| "exec h (CallAcquire clk sc n w k) st =
     (case Acquire (h_DataStore h) clk sc n w (snd st) of (r, s1) \<Rightarrow> exec h (k r) (fst st, s1))"
| "exec h (CallLoad c sk k) st =
     (case Load (h_DataStore h) c sk (snd st) of (r, s1) \<Rightarrow> exec h (k r) (fst st, s1))"
| "exec h (CallUpsert c sk pv e k) st =
     (case UpsertCAS (h_DataStore h) c sk pv e (snd st) of (r, s1) \<Rightarrow> exec h (k r) (fst st, s1))"
| "exec h (CallPublish arn m k) st =
     (case PublishRaw (h_Pub h) arn m (snd st) of (r, s1) \<Rightarrow> exec h (k r) (fst st, s1))"

section \<open>The handler as a resumption\<close>

definition gate_calls :: "clock \<Rightarrow> string \<Rightarrow> int \<Rightarrow> string \<Rightarrow> go_error option calls" where
  "gate_calls clk scope rpm msg =
     (if rpm > 0 then
        CallAcquire clk scope rpm minute (\<lambda>(ok, acquireErr).
          Ret (if acquireErr \<noteq> None then Some (ErrMsg ''rate limit check failed'')
               else if \<not> ok then Some (ErrMsg msg) else None))
      else Ret None)"

definition target_calls :: "clock \<Rightarrow> string \<Rightarrow> ClientConfig \<Rightarrow> Action \<Rightarrow> payload \<Rightarrow> run_result calls" where
  "target_calls clk clientID cc action newPayload =
     (if (action = EdgeTriggeredForward \<or> action = AggregateSent) \<and> SNSRPM (Target (Trigger cc)) > 0 then
        CallAcquire clk (''TARGET:'' @ clientID @ '':'' @ SNSArn (Target (Trigger cc))) (SNSRPM (Target (Trigger cc))) minute
          (\<lambda>(ok, acquireErr).
             Ret (if acquireErr \<noteq> None
                  then (action, StatusInternalServerError, newPayload, Some (ErrMsg ''rate limit check failed''))
                  else if \<not> ok then (NoOp, StatusTooManyRequests, newPayload, None)
                  else (action, StatusAccepted, newPayload, None)))
      else Ret (action, StatusAccepted, newPayload, None))"

definition flip_calls ::
    "Libs \<Rightarrow> int \<Rightarrow> string \<Rightarrow> string \<Rightarrow> FlapConfig option \<Rightarrow> int \<Rightarrow> Edge \<Rightarrow> (Action \<times> payload \<times> go_error option) calls" where
  "flip_calls L now clientID scopeKey flap ver e =
     (let forward = (\<lambda>e. CallUpsert clientID scopeKey ver e (\<lambda>(ok, err).
            Ret (case err of Some x \<Rightarrow> (NoOp, None, Some x)
                 | None \<Rightarrow> if ok then (EdgeTriggeredForward, None, None) else (NoOp, None, None)))) in
      case flap of
        None \<Rightarrow> forward e
      | Some f \<Rightarrow>
          (case roll_window f now e of
             (e1, newWindow) \<Rightarrow>
               if FlipCount e1 \<le> SuppressBelow f then
                 CallUpsert clientID scopeKey ver e1 (\<lambda>_. Ret (SuppressFlapping, None, None))
               else if AggregateAt f > 0 \<and> \<not> newWindow then
                 (case try_aggregate L f now e1 of
                    (e2, action, agg) \<Rightarrow>
                      CallUpsert clientID scopeKey ver e2 (\<lambda>(ok, err).
                        Ret (case err of Some x \<Rightarrow> (SuppressFlapping, None, Some x)
                             | None \<Rightarrow> if ok then (action, agg, None) else (NoOp, None, None))))
               else forward e1))"

definition loaded_calls ::
    "Libs \<Rightarrow> int \<Rightarrow> string \<Rightarrow> string \<Rightarrow> string \<Rightarrow> FlapConfig option \<Rightarrow> payload \<Rightarrow>
       Edge option \<times> int \<times> go_error option \<Rightarrow> (Action \<times> payload \<times> go_error option) calls" where
  "loaded_calls L now clientID scopeKey newVal flap p loaded =
     (case loaded of
        (edgeInfo, ver, err) \<Rightarrow>
          (case err of
             Some x \<Rightarrow> Ret (NoOp, None, Some x)
           | None \<Rightarrow>
               (case edgeInfo of
                  None \<Rightarrow>
                    CallUpsert clientID scopeKey 0 (initial_edge now newVal) (\<lambda>(ok, err2).
                      Ret (case err2 of Some x \<Rightarrow> (NoOp, None, Some x)
                           | None \<Rightarrow> if ok then (EdgeTriggeredForward, None, None) else (SuppressFlapping, None, None)))
                | Some e \<Rightarrow>
                    if LastValue e = newVal then Ret (NoOp, None, None)
                    else (case EncodePayload L p of
                            Inl x \<Rightarrow> Ret (NoOp, None, Some x)
                          | Inr encoded \<Rightarrow>
                              flip_calls L now clientID scopeKey flap ver (observe_flip now newVal encoded e)))))"

definition edge_calls ::
    "Libs \<Rightarrow> run_clock \<Rightarrow> string \<Rightarrow> ClientConfig \<Rightarrow> payload \<Rightarrow> string \<Rightarrow> string \<Rightarrow>
       Edge option \<times> int \<times> go_error option \<Rightarrow> run_result calls" where
  "edge_calls L clk clientID cc p scopeKey newVal loaded =
     and_then (loaded_calls L (EpochTime (clk_edge clk)) clientID scopeKey newVal (Flapping (Trigger cc)) p loaded)
       (\<lambda>(action, newPayload, err).
          if err \<noteq> None
          then Ret (action, StatusInternalServerError, newPayload, Some (ErrMsg ''edge evaluation error''))
          else target_calls (clk_target clk) clientID cc action newPayload)"

definition trigger_calls ::
    "Libs \<Rightarrow> run_clock \<Rightarrow> string \<Rightarrow> ClientConfig \<Rightarrow> payload \<Rightarrow> run_result calls" where
  "trigger_calls L clk clientID cc p =
     (case EvalString L (FieldExpr (Trigger cc)) p of
        Inl _ \<Rightarrow> Ret (NoOp, StatusBadRequest, p, Some (ErrMsg ''trigger field eval error''))
      | Inr None \<Rightarrow> target_calls (clk_target clk) clientID cc NoOp p
      | Inr (Some newVal) \<Rightarrow>
          (let scopeKey = ComputeKey (FieldExpr (Trigger cc)) in
           CallLoad clientID scopeKey (edge_calls L clk clientID cc p scopeKey newVal)))"

definition run_calls ::
    "Libs \<Rightarrow> run_clock \<Rightarrow> string \<Rightarrow> string \<Rightarrow> ClientConfig \<Rightarrow> payload \<Rightarrow> run_result calls" where
  "run_calls L clk clientID ip cc p =
     and_then (gate_calls (clk_ip clk) (''IP:'' @ ip) (IPRPM cc) ''rate limit (ip)'') (\<lambda>e1.
       case e1 of
         Some e \<Rightarrow> Ret (NoOp, StatusAccepted, p, Some e)
       | None \<Rightarrow>
           and_then (gate_calls (clk_client clk) (''CLIENT:'' @ clientID) (ClientRPM cc) ''rate limit (client)'') (\<lambda>e2.
             case e2 of
               Some e \<Rightarrow> Ret (NoOp, StatusAccepted, p, Some e)
             | None \<Rightarrow>
                 if CheckPassthrough L (Passthrough cc) p then Ret (ForwardedAsIs, StatusAccepted, p, None)
                 else if FieldExpr (Trigger cc) = [] then Ret (ForwardedAsIs, StatusAccepted, p, None)
                 else trigger_calls L clk clientID cc p))"

definition config_calls :: "clock \<Rightarrow> string \<Rightarrow> (go_error + ClientConfig) calls" where
  "config_calls clk i =
     CacheGet i (clk 0) (\<lambda>hit.
       case hit of
         Some v \<Rightarrow> Ret (Inr v)
       | None \<Rightarrow> CallGet i (\<lambda>r.
           case r of
             Inl err \<Rightarrow> Ret (Inl err)
           | Inr cc \<Rightarrow> CacheSet i cc (300 * second) (clk 1) (\<lambda>_. Ret (Inr cc))))"

definition publish_calls :: "Libs \<Rightarrow> string \<Rightarrow> payload \<Rightarrow> Action \<Rightarrow> ResponseWriter \<Rightarrow> ResponseWriter calls" where
  "publish_calls L arn p a w =
     (case json_marshal L (AnyMap p) of
        Inl _ \<Rightarrow> Ret (http_Error ''failed to marshal payload'' StatusInternalServerError w)
      | Inr b \<Rightarrow> CallPublish arn b (\<lambda>err.
          Ret (case err of
                 Some _ \<Rightarrow> http_Error ''failed to publish'' StatusInternalServerError w
               | None \<Rightarrow> answer L StatusAccepted a w)))"

definition switch_calls :: "Libs \<Rightarrow> string \<Rightarrow> payload \<Rightarrow> ResponseWriter \<Rightarrow> run_result \<Rightarrow> ResponseWriter calls" where
  "switch_calls L arn p w r =
     (case r of (action, statusCode, newPayload, err) \<Rightarrow>
        (case err of
           Some e \<Rightarrow> Ret (http_Error (error_text e) statusCode w)
         | None \<Rightarrow>
             (case action of
                NoOp \<Rightarrow> Ret (answer L statusCode action w)
              | SuppressFlapping \<Rightarrow> Ret (answer L statusCode action w)
              | SuppressDedup \<Rightarrow> Ret (answer L statusCode action w)
              | AggregateSent \<Rightarrow> publish_calls L arn newPayload action w
              | EdgeTriggeredForward \<Rightarrow> publish_calls L arn p action w
              | ForwardedAsIs \<Rightarrow> publish_calls L arn p action w)))"

definition body_calls ::
    "Libs \<Rightarrow> req_clock \<Rightarrow> string \<Rightarrow> ClientConfig \<Rightarrow> Request \<Rightarrow> ResponseWriter \<Rightarrow> ResponseWriter calls" where
  "body_calls L clk clientID cc r w =
     (case read_limited body_limit (Body r) of
        (_, Some _) \<Rightarrow> Ret (http_Error ''read error'' StatusBadRequest w)
      | (body, None) \<Rightarrow>
          if length body = 0 then Ret (http_Error ''empty body'' StatusBadRequest w)
          else (case json_unmarshal L body of
                  (_, Some _) \<Rightarrow> Ret (http_Error ''invalid json'' StatusBadRequest w)
                | (p, None) \<Rightarrow>
                    and_then (run_calls L (clk_run clk) clientID (clientIP r) cc p)
                      (switch_calls L (SNSArn (Target (Trigger cc))) p w)))"

definition notify_calls :: "Libs \<Rightarrow> req_clock \<Rightarrow> Request \<Rightarrow> ResponseWriter \<Rightarrow> ResponseWriter calls" where
  "notify_calls L clk r w =
     (if Method r \<noteq> ''POST'' then Ret (http_Error ''method not allowed'' StatusMethodNotAllowed w)
      else
        let clientID = Header_Get (Header r) ClientIDHdrName;
            clientKey = Header_Get (Header r) ClientKeyHdrName
        in and_then (config_calls (clk_cache clk) clientID) (\<lambda>loaded.
             case loaded of
               Inl _ \<Rightarrow> Ret (http_Error ''unknown client'' StatusUnauthorized w)
             | Inr cc \<Rightarrow>
                 (case Auth cc clientID clientKey of
                    Some e \<Rightarrow> Ret (http_Error (error_text e) StatusUnauthorized w)
                  | None \<Rightarrow> body_calls L clk clientID cc r w)))"

text \<open>The routes; \<open>mux\<close> is what the multiplexer answers by itself to any other path.\<close>

definition route_calls ::
    "(Request \<Rightarrow> ResponseWriter \<Rightarrow> ResponseWriter) \<Rightarrow> Libs \<Rightarrow> req_clock \<Rightarrow> Request \<Rightarrow> ResponseWriter \<Rightarrow> ResponseWriter calls" where
  "route_calls mux L clk r w =
     (if Path r = ''/notify'' then notify_calls L clk r w
      else if Path r = ''/health'' then Ret (WriteHeader StatusOK w)
      else Ret (mux r w))"

section \<open>Run alone, it is the handler\<close>

lemma exec_and_then: "exec h (and_then p f) st = (case exec h p st of (x, st1) \<Rightarrow> exec h (f x) st1)"
  by (induction p arbitrary: st) (auto split: prod.splits)

lemma exec_gate:
  "exec h (gate_calls clk scope rpm msg) (d, s) = (case gate_limit (h_DataStore h) clk scope rpm msg s of (e, s1) \<Rightarrow> (e, d, s1))"
  by (auto simp: gate_calls_def gate_limit_def split: prod.splits)

lemma exec_target:
  "exec h (target_calls clk c cc a g) (d, s) = (case target_limit (h_DataStore h) clk c cc a g s of (r, s1) \<Rightarrow> (r, d, s1))"
  by (auto simp: target_calls_def target_limit_def Let_def split: prod.splits)

lemma exec_flip:
  "exec h (flip_calls L now c k flap ver e) (d, s) =
     (case evaluate_flip L (h_DataStore h) now c k flap ver e s of (r, s1) \<Rightarrow> (r, d, s1))"
  by (auto simp: flip_calls_def evaluate_flip_def commit_forward_def commit_aggregate_def Let_def split: prod.splits option.splits)

lemma exec_loaded:
  "exec h (loaded_calls L now c k v flap p l) (d, s) =
     (case evaluate_loaded L (h_DataStore h) now c k v flap p l s of (r, s1) \<Rightarrow> (r, d, s1))"
  by (auto simp: loaded_calls_def evaluate_loaded_def exec_flip split: prod.splits option.splits sum.splits)

lemma exec_trigger:
  "exec h (trigger_calls L clk c cc p) (d, s) =
     (case run_trigger L clk c cc (h_DataStore h) p s of (r, s1) \<Rightarrow> (r, d, s1))"
  by (auto simp: trigger_calls_def edge_calls_def run_trigger_def EvaluateEdgeAndFlap_def Let_def exec_and_then exec_loaded exec_target
      split: prod.splits option.splits sum.splits)

lemma exec_run:
  "exec h (run_calls L clk c ip cc p) (d, s) =
     (case Run L clk c ip cc (h_DataStore h) p s of (r, s1) \<Rightarrow> (r, d, s1))"
  by (auto simp: run_calls_def Run_def exec_and_then exec_gate exec_trigger split: prod.splits option.splits)

lemma exec_config:
  "exec h (config_calls clk i) st = LoadCachedClientConfig clk (h_ClientStore h) i st"
  by (cases st) (auto simp: config_calls_def LoadCachedClientConfig_def split: prod.splits option.splits sum.splits)

lemma exec_publish:
  "exec h (publish_calls L arn p a w) (d, s) =
     (case publish_and_answer L (h_Pub h) arn p a w s of (w1, s1) \<Rightarrow> (w1, d, s1))"
  by (auto simp: publish_calls_def publish_and_answer_def split: prod.splits option.splits sum.splits)

lemma exec_switch:
  "exec h (switch_calls L arn p w r) (d, s) =
     (case notify_switch L (h_Pub h) arn p r w s of (w1, s1) \<Rightarrow> (w1, d, s1))"
  by (auto simp: switch_calls_def notify_switch_def exec_publish split: prod.splits option.splits Action.splits)

lemma exec_body:
  "exec h (body_calls L clk c cc r w) (d, s) = (case notify_body L clk h c cc r w s of (w1, s1) \<Rightarrow> (w1, d, s1))"
  by (auto simp: body_calls_def notify_body_def exec_and_then exec_run exec_switch split: prod.splits option.splits)

lemma exec_notify: "exec h (notify_calls L clk r w) st = handleNotify L clk h r w st"
  by (auto simp: notify_calls_def handleNotify_def Let_def exec_and_then exec_config exec_body
      split: prod.splits option.splits sum.splits)

lemma exec_route:
  "exec h (route_calls mux L clk r w) st = (case Router L clk h r w st of Some x \<Rightarrow> x | None \<Rightarrow> (mux r w, st))"
  by (simp add: route_calls_def Router_def exec_notify)

end
