(* ===== verification/Interleaving.thy ===== *)
theory Interleaving
  imports Calls
begin

text \<open>
  Requests that run at the same time: any number of resumptions over one cache and one set of collaborators, whose
  calls come in any order.  A resumption \<open>obeys\<close> a guarantee if each of its calls, in view of the calls it made
  before, satisfies it, provided the replies are as assumed; in a system of such resumptions every call does.
\<close>

section \<open>Interleaved calls\<close>

type_synonym trace = "(nat \<times> event) list"

inductive interleaved ::
    "'s Handler \<Rightarrow> (nat \<Rightarrow> 'r calls) \<times> cfg_cache \<times> 's \<Rightarrow> trace \<Rightarrow> (nat \<Rightarrow> 'r calls) \<times> cfg_cache \<times> 's \<Rightarrow> bool"
  for h x where
  no_call: "interleaved h x [] x"
| one_call: "interleaved h x tr (ps, st) \<Longrightarrow> do_call h (ps i) st = Some (ev, p', st') \<Longrightarrow>
     interleaved h x (tr @ [(i, ev)]) (ps(i := p'), st')"

text \<open>The calls of one request.\<close>

definition own :: "nat \<Rightarrow> trace \<Rightarrow> event list" where
  "own i tr = map snd (filter (\<lambda>x. fst x = i) tr)"

lemma own_simps [simp]: "own i [] = []" "own i (tr @ [(j, ev)]) = (if i = j then own i tr @ [ev] else own i tr)"
  by (simp_all add: own_def)

lemma own_iff: "ev \<in> set (own i tr) \<longleftrightarrow> (i, ev) \<in> set tr"
  by (force simp: own_def)

text \<open>Running one request to its end is one of the interleavings.\<close>

lemma exec_unfold: "do_call h p st = Some (ev, p', st') \<Longrightarrow> exec h p st = exec h p' st'"
  by (cases p; cases st) (auto simp: Let_def split: prod.splits)

lemma do_call_Some: "(\<And>x. p \<noteq> Ret x) \<Longrightarrow> \<exists>ev p' st'. do_call h p st = Some (ev, p', st')"
  by (cases p; cases st) (auto simp: Let_def split: prod.splits)

lemma do_call_induct [case_names Ret call]:
  fixes h :: "'s Handler"
  assumes "\<And>x. P (Ret x)"
    and "\<And>p. (\<And>x. p \<noteq> Ret x) \<Longrightarrow> (\<And>st ev p' st'. do_call h p st = Some (ev, p', st') \<Longrightarrow> P p') \<Longrightarrow> P p"
  shows "P p"
proof (induction p)
  case (Ret x)
  show ?case by (rule assms(1))
qed (rule assms(2), simp, force simp: Let_def split: prod.splits)+

lemma interleaved_exec_from:
  assumes "interleaved h x tr (ps, st)" and "ps i = p" and "exec h p st = (r, st')"
  shows "\<exists>evs. interleaved h x (tr @ map (Pair i) evs) (ps(i := Ret r), st')"
  using assms
proof (induction p arbitrary: ps st tr rule: do_call_induct [where h = h])
  case (Ret y)
  then show ?case by (intro exI [of _ "[]"]) (simp add: fun_upd_idem)
next
  case (call p)
  obtain ev p' st1 where d: "do_call h p st = Some (ev, p', st1)" using do_call_Some [OF call(1)] by metis
  have "exec h p' st1 = (r, st')" using exec_unfold [OF d] call.prems(3) by simp
  from call.IH [OF d one_call [OF call.prems(1) d [folded call.prems(2)]] fun_upd_same this]
  obtain evs where "interleaved h x ((tr @ [(i, ev)]) @ map (Pair i) evs) (ps(i := Ret r), st')" unfolding fun_upd_upd by blast
  then have "interleaved h x (tr @ map (Pair i) (ev # evs)) (ps(i := Ret r), st')" by simp
  then show ?case by blast
qed

lemmas interleaved_exec = interleaved_exec_from [OF _ refl]

section \<open>How many calls\<close>

primrec calls_le :: "'r calls \<Rightarrow> nat \<Rightarrow> bool" where
  "calls_le (Ret x) n = True"
| "calls_le (CacheGet i t k) n = (0 < n \<and> (\<forall>r. calls_le (k r) (n - 1)))"
| "calls_le (CacheSet i cc dur t k) n = (0 < n \<and> (\<forall>r. calls_le (k r) (n - 1)))"
| "calls_le (CallGet i k) n = (0 < n \<and> (\<forall>r. calls_le (k r) (n - 1)))"
| "calls_le (CallAcquire clk sc m w k) n = (0 < n \<and> (\<forall>r. calls_le (k r) (n - 1)))"
| "calls_le (CallLoad c sk k) n = (0 < n \<and> (\<forall>r. calls_le (k r) (n - 1)))"
| "calls_le (CallUpsert c sk pv e k) n = (0 < n \<and> (\<forall>r. calls_le (k r) (n - 1)))"
| "calls_le (CallPublish arn m k) n = (0 < n \<and> (\<forall>r. calls_le (k r) (n - 1)))"

lemma calls_le_mono: "calls_le p m \<Longrightarrow> m \<le> n \<Longrightarrow> calls_le p n"
proof (induction p arbitrary: m n)
  case (Ret x)
  then show ?case by simp
qed (simp_all, (meson UNIV_I diff_le_mono order_less_le_trans rangeI)+)

lemma calls_le_and_then: "calls_le p m \<Longrightarrow> (\<And>x. calls_le (f x) n) \<Longrightarrow> calls_le (and_then p f) (m + n)"
proof (induction p arbitrary: m)
  case (Ret x)
  then show ?case by (simp add: calls_le_mono [of _ n])
qed (auto simp: gr0_conv_Suc)

lemma calls_le_do_call: "calls_le p n \<Longrightarrow> do_call h p st = Some (ev, p', st') \<Longrightarrow> 0 < n \<and> calls_le p' (n - 1)"
  by (cases p; cases st) (auto simp: Let_def split: prod.splits)

lemma interleaved_calls_le:
  assumes "interleaved h (ps, st) tr (ps', st')" and "calls_le (ps i) n"
  shows "length (own i tr) \<le> n \<and> calls_le (ps' i) (n - length (own i tr))"
  using assms(1)
proof (induction tr "(ps', st')" arbitrary: ps' st' rule: interleaved.induct)
  case no_call
  then show ?case using assms(2) by simp
next
  case (one_call tr ps1 st1 j ev p' st2)
  then show ?case using calls_le_do_call [OF _ one_call.hyps(3), of "n - length (own i tr)"] by auto
qed

lemma request_finishes:
  assumes run: "interleaved h (ps, st) tr (ps', st')" and le: "calls_le (ps i) n"
  shows "length (own i tr) \<le> n
    \<and> (\<exists>evs w st''. interleaved h (ps, st) (tr @ map (Pair i) evs) (ps'(i := Ret w), st'') \<and> length (own i tr) + length evs \<le> n)"
proof -
  obtain w st'' where "exec h (ps' i) st' = (w, st'')" by (metis surj_pair)
  with interleaved_exec [OF run] obtain evs where e: "interleaved h (ps, st) (tr @ map (Pair i) evs) (ps'(i := Ret w), st'')" by blast
  have "length (own i (tr @ map (Pair i) evs)) \<le> n" using interleaved_calls_le [OF e le] by blast
  moreover have "own i (tr @ map (Pair i) evs) = own i tr @ evs" by (simp add: own_def filter_map o_def)
  ultimately have "length (own i tr) + length evs \<le> n" by simp
  then show ?thesis using e by (meson le_add1 order_trans)
qed

lemma notify_calls_le: "calls_le (notify_calls L clk r w) 9"
proof -
  have flip: "calls_le (flip_calls L now c k flap ver e) 1" for now c k flap ver e
    by (auto simp: flip_calls_def Let_def split: option.splits prod.splits)
  have loaded: "calls_le (loaded_calls L now c k v flap p l) 1" for now c k v flap p l
    by (auto simp: loaded_calls_def flip [simplified] split: prod.splits option.splits sum.splits)
  have target: "calls_le (target_calls clk c cc a g) 1" for clk c cc a g by (auto simp: target_calls_def)
  have "calls_le (trigger_calls L clk c cc p) (1 + (1 + 1))" for clk c cc p
    unfolding trigger_calls_def edge_calls_def Let_def
    by (auto split: sum.splits option.splits intro: calls_le_mono [OF target] intro!: calls_le_and_then [OF loaded, of _ 1, simplified] target [simplified])
  then have trigger: "calls_le (trigger_calls L clk c cc p) 3" for clk c cc p by (simp add: numeral_eq_Suc)
  have gate: "calls_le (gate_calls clk sc rpm msg) 1" for clk sc rpm msg by (auto simp: gate_calls_def)
  have "calls_le (run_calls L clk c ip cc p) (1 + (1 + 3))" for clk c ip cc p
    unfolding run_calls_def by (intro calls_le_and_then [OF gate]) (auto split: option.splits intro!: calls_le_and_then [OF gate, of _ 3, simplified] trigger)
  then have run: "calls_le (run_calls L clk c ip cc p) 5" for clk c ip cc p by (simp add: numeral_eq_Suc)
  have switch: "calls_le (switch_calls L arn p w r) 1" for arn p w r
    by (auto simp: switch_calls_def publish_calls_def split: prod.splits option.splits Action.splits sum.splits)
  have "calls_le (body_calls L clk c cc r w) (5 + 1)" for c cc
    using calls_le_and_then [OF run switch] by (auto simp: body_calls_def split: prod.splits option.splits)
  then have body: "calls_le (body_calls L clk c cc r w) 6" for c cc by simp
  have config: "calls_le (config_calls clk' i) 3" for clk' i by (auto simp: config_calls_def split: option.splits sum.splits)
  have "calls_le (notify_calls L clk r w) (3 + 6)"
    unfolding notify_calls_def Let_def
    by (auto split: sum.splits option.splits intro!: calls_le_and_then [OF config, of _ 6, simplified] body)
  then show ?thesis by simp
qed

lemma route_calls_le: "calls_le (route_calls mux L clk r w) 9"
  by (simp add: route_calls_def notify_calls_le)

section \<open>Guarantees\<close>

text \<open>
  \<open>A\<close> is what is assumed of a call with its reply, \<open>G\<close> what is guaranteed of a call after the calls before it, and \<open>Q\<close> of
  the result.
\<close>

primrec obeys ::
    "(event \<Rightarrow> bool) \<Rightarrow> (event list \<Rightarrow> event \<Rightarrow> bool) \<Rightarrow> (event list \<Rightarrow> 'r \<Rightarrow> bool) \<Rightarrow> 'r calls \<Rightarrow> event list \<Rightarrow> bool" where
  "obeys A G Q (Ret x) hist = Q hist x"
| "obeys A G Q (CacheGet i t k) hist =
     (\<forall>r. let ev = EvCacheGet i t r in G hist ev \<and> (A ev \<longrightarrow> obeys A G Q (k r) (hist @ [ev])))"
| "obeys A G Q (CacheSet i cc dur t k) hist =
     (let ev = EvCacheSet i cc dur t in G hist ev \<and> (A ev \<longrightarrow> obeys A G Q (k ()) (hist @ [ev])))"
| "obeys A G Q (CallGet i k) hist =
     (\<forall>r. let ev = EvGet i r in G hist ev \<and> (A ev \<longrightarrow> obeys A G Q (k r) (hist @ [ev])))"
| "obeys A G Q (CallAcquire clk sc n w k) hist =
     (\<forall>r. let ev = EvAcquire clk sc n w r in G hist ev \<and> (A ev \<longrightarrow> obeys A G Q (k r) (hist @ [ev])))"
| "obeys A G Q (CallLoad c sk k) hist =
     (\<forall>r. let ev = EvLoad c sk r in G hist ev \<and> (A ev \<longrightarrow> obeys A G Q (k r) (hist @ [ev])))"
| "obeys A G Q (CallUpsert c sk pv e k) hist =
     (\<forall>r. let ev = EvUpsert c sk pv e r in G hist ev \<and> (A ev \<longrightarrow> obeys A G Q (k r) (hist @ [ev])))"
| "obeys A G Q (CallPublish arn m k) hist =
     (\<forall>r. let ev = EvPublish arn m r in G hist ev \<and> (A ev \<longrightarrow> obeys A G Q (k r) (hist @ [ev])))"

lemma obeys_and_then: "obeys A G Q (and_then p f) hist \<longleftrightarrow> obeys A G (\<lambda>hist x. obeys A G Q (f x) hist) p hist"
  by (induction p arbitrary: hist) (simp_all add: Let_def)

lemma obeys_mono: "obeys A G Q p hist \<Longrightarrow> (\<And>hist x. Q hist x \<Longrightarrow> Q' hist x) \<Longrightarrow> obeys A G Q' p hist"
  by (induction p arbitrary: hist) (simp_all add: Let_def)

lemma obeys_call:
  assumes "obeys A G Q p hist" and "do_call h p st = Some (ev, p', st')"
  shows "G hist ev \<and> (A ev \<longrightarrow> obeys A G Q p' (hist @ [ev]))"
  using assms by (cases p; cases st) (auto simp: Let_def split: prod.splits)

text \<open>
  The rule for a whole system.  \<open>I\<close> is an invariant of the shared state, in view of the calls so far, that every guaranteed
  call keeps and that makes its reply as assumed; \<open>E\<close> is what is known from outside of the calls that happen.
\<close>

lemma interleaved_sound:
  fixes ps :: "nat \<Rightarrow> 'r calls"
  assumes "interleaved h (ps, st) tr (ps', st')" and "\<And>i. obeys A (G i) Q (ps i) []" and "I [] st"
    and step: "\<And>tr1 i ev tr2 (p :: 'r calls) p' st1 st2 hist. tr = tr1 @ (i, ev) # tr2 \<Longrightarrow> I tr1 st1 \<Longrightarrow> G i hist ev \<Longrightarrow>
      do_call h p st1 = Some (ev, p', st2) \<Longrightarrow> A ev \<and> I (tr1 @ [(i, ev)]) st2"
  shows "I tr st' \<and> (\<forall>i. obeys A (G i) Q (ps' i) (own i tr)) \<and> (\<forall>tr1 j ev tr2. tr = tr1 @ (j, ev) # tr2 \<longrightarrow> G j (own j tr1) ev)"
  using assms(1) step
proof (induction tr "(ps', st')" arbitrary: ps' st' rule: interleaved.induct)
  case no_call
  then show ?case using assms(2,3) by simp
next
  case (one_call tr ps1 st1 j ev p' st2)
  have IH: "I tr st1 \<and> (\<forall>i. obeys A (G i) Q (ps1 i) (own i tr)) \<and> (\<forall>tr1 k e tr2. tr = tr1 @ (k, e) # tr2 \<longrightarrow> G k (own k tr1) e)"
  proof (rule one_call.hyps(2))
    fix tr1 k e tr2 and p :: "'r calls" and p'' sta stb hist
    assume "tr = tr1 @ (k, e) # tr2" "I tr1 sta" "G k hist e" "do_call h p sta = Some (e, p'', stb)"
    then show "A e \<and> I (tr1 @ [(k, e)]) stb"
      using one_call.prems [of tr1 k e "tr2 @ [(j, ev)]"] by simp
  qed
  then have "obeys A (G j) Q (ps1 j) (own j tr)" by blast
  from obeys_call [OF this one_call.hyps(3)]
  have G: "G j (own j tr) ev" "A ev \<longrightarrow> obeys A (G j) Q p' (own j tr @ [ev])" by auto
  have A: "A ev \<and> I (tr @ [(j, ev)]) st2" using one_call.prems [of tr j ev "[]", OF _ _ G(1) one_call.hyps(3)] IH by simp
  have "G k (own k tr1) e" if "tr @ [(j, ev)] = tr1 @ (k, e) # tr2" for tr1 k e tr2
    using that IH G(1) by (cases tr2 rule: rev_cases) auto
  then show ?case using IH A G(2) by simp
qed

end
