(* ===== verification/Request_Guarantees.thy ===== *)
theory Request_Guarantees
  imports Interleaving Flow_Limits
begin

text \<open>
  What a request guarantees of its calls, whatever the other requests do: at most nine calls, each within the range the
  store's contract speaks of; the publication, if any, is the last one, for an authenticated client, to its topic, and
  after the rate limits have granted it.
\<close>

section \<open>The guarantee\<close>

text \<open>\<open>C i cc\<close>: what is known of the configurations \<open>cc\<close> that client \<open>i\<close> can have.\<close>

type_synonym policy = "string \<Rightarrow> ClientConfig \<Rightarrow> bool"

fun call_ok :: "policy \<Rightarrow> event \<Rightarrow> bool" where
  "call_ok C (EvAcquire clk sc n w r) \<longleftrightarrow> 0 < n \<and> n \<le> max_int64 \<and> 0 < w"
| "call_ok C (EvLoad c k r) \<longleftrightarrow> scope_ok k"
| "call_ok C (EvUpsert c k pv e r) \<longleftrightarrow> scope_ok k \<and> edge_range e \<and> 0 \<le> pv \<and> pv < max_int64"
| "call_ok C (EvCacheSet i cc d t) \<longleftrightarrow> C i cc"
| "call_ok C ev \<longleftrightarrow> True"

fun reply_ok :: "policy \<Rightarrow> event \<Rightarrow> bool" where
  "reply_ok C (EvCacheGet i t r) \<longleftrightarrow> (\<forall>cc. r = Some cc \<longrightarrow> C i cc)"
| "reply_ok C (EvGet i r) \<longleftrightarrow> (\<forall>cc. r = Inr cc \<longrightarrow> C i cc)"
| "reply_ok C (EvLoad c k (eo, v, err)) \<longleftrightarrow>
     (err = None \<longrightarrow> 0 \<le> v \<and> v < max_int64 \<and> (\<forall>e. eo = Some e \<longrightarrow> edge_range e))"
| "reply_ok C ev \<longleftrightarrow> True"

fun is_publish :: "event \<Rightarrow> bool" where
  "is_publish (EvPublish arn m r) = True"
| "is_publish ev = False"

definition granted_in :: "string \<Rightarrow> int \<Rightarrow> int \<Rightarrow> event list \<Rightarrow> bool" where
  "granted_in sc n m hist \<longleftrightarrow> (\<exists>clk w. EvAcquire clk sc n w (True, None) \<in> set hist \<and> epoch_minute (clk 0) = m)"

text \<open>A configuration under which every publication goes through the trigger.\<close>

definition always_triggers :: "ClientConfig \<Rightarrow> bool" where
  "always_triggers cc \<longleftrightarrow> PassFieldExpr (Passthrough cc) = [] \<and> FieldExpr (Trigger cc) \<noteq> []"

definition client_granted :: "run_clock \<Rightarrow> string \<Rightarrow> ClientConfig \<Rightarrow> event list \<Rightarrow> bool" where
  "client_granted clk c cc hist \<longleftrightarrow>
     (0 < ClientRPM cc \<longrightarrow> granted_in (''CLIENT:'' @ c) (ClientRPM cc) (epoch_minute (clk_client clk 0)) hist)"

definition target_granted :: "run_clock \<Rightarrow> string \<Rightarrow> ClientConfig \<Rightarrow> event list \<Rightarrow> bool" where
  "target_granted clk c cc hist \<longleftrightarrow>
     (0 < SNSRPM (Target (Trigger cc)) \<longrightarrow>
        granted_in (target_scope c cc) (SNSRPM (Target (Trigger cc))) (epoch_minute (clk_target clk 0)) hist)"

text \<open>
  The request has moved the edge on from version \<open>pv\<close>: its update of that version was accepted, and the value it wrote
  differs from the one it had loaded (or it had found no edge).
\<close>

definition wrote :: "string \<Rightarrow> string \<Rightarrow> int \<Rightarrow> string \<Rightarrow> event list \<Rightarrow> bool" where
  "wrote c k pv v hist \<longleftrightarrow> (\<exists>e. EvUpsert c k pv e (True, None) \<in> set hist \<and> LastValue e = v)"

definition change_in :: "string \<Rightarrow> string \<Rightarrow> int \<Rightarrow> event list \<Rightarrow> bool" where
  "change_in c k pv hist \<longleftrightarrow>
     (\<exists>eo ver v. EvLoad c k (eo, ver, None) \<in> set hist \<and> pv = (case eo of None \<Rightarrow> 0 | Some _ \<Rightarrow> ver)
        \<and> (\<forall>old. eo = Some old \<longrightarrow> LastValue old \<noteq> v) \<and> wrote c k pv v hist)"

definition trigger_granted :: "run_clock \<Rightarrow> string \<Rightarrow> ClientConfig \<Rightarrow> event list \<Rightarrow> bool" where
  "trigger_granted clk c cc hist \<longleftrightarrow>
     target_granted clk c cc hist \<and> (\<exists>pv. change_in c (ComputeKey (FieldExpr (Trigger cc))) pv hist)"

definition publish_ok :: "policy \<Rightarrow> req_clock \<Rightarrow> Request \<Rightarrow> event list \<Rightarrow> string \<Rightarrow> bool" where
  "publish_ok C clk r hist arn \<longleftrightarrow>
     (\<exists>cc. C (request_client r) cc \<and> Auth cc (request_client r) (request_key r) = None \<and> arn = SNSArn (Target (Trigger cc))
        \<and> client_granted (clk_run clk) (request_client r) cc hist
        \<and> (always_triggers cc \<longrightarrow> trigger_granted (clk_run clk) (request_client r) cc hist))"

definition quiet :: "nat \<Rightarrow> event list \<Rightarrow> bool" where
  "quiet n hist \<longleftrightarrow> length hist \<le> n \<and> (\<forall>ev \<in> set hist. \<not> is_publish ev)"

definition guarantee :: "policy \<Rightarrow> req_clock \<Rightarrow> Request \<Rightarrow> event list \<Rightarrow> event \<Rightarrow> bool" where
  "guarantee C clk r hist ev \<longleftrightarrow>
     quiet 8 hist \<and> call_ok C ev \<and> (\<forall>arn m x. ev = EvPublish arn m x \<longrightarrow> publish_ok C clk r hist arn)"

text \<open>The trigger values of a request are valid texts.\<close>

definition values_ok :: "Libs \<Rightarrow> policy \<Rightarrow> Request \<Rightarrow> bool" where
  "values_ok L C r \<longleftrightarrow>
     (\<forall>cc body p v. C (request_client r) cc \<longrightarrow> read_limited body_limit (Body r) = (body, None) \<longrightarrow>
        json_unmarshal L body = (p, None) \<longrightarrow> EvalString L (FieldExpr (Trigger cc)) p = Inr (Some v) \<longrightarrow> ValidString v)"

section \<open>Requests keep it\<close>

lemma granted_in_mono: "granted_in sc n m hist \<Longrightarrow> set hist \<subseteq> set hist' \<Longrightarrow> granted_in sc n m hist'"
  by (auto simp: granted_in_def)

lemma client_granted_mono: "client_granted clk c cc hist \<Longrightarrow> set hist \<subseteq> set hist' \<Longrightarrow> client_granted clk c cc hist'"
  by (auto simp: client_granted_def intro: granted_in_mono)

lemma wrote_mono: "wrote c k pv v hist \<Longrightarrow> set hist \<subseteq> set hist' \<Longrightarrow> wrote c k pv v hist'"
  by (auto simp: wrote_def)

lemma change_in_mono: "change_in c k pv hist \<Longrightarrow> set hist \<subseteq> set hist' \<Longrightarrow> change_in c k pv hist'"
  unfolding change_in_def using wrote_mono by blast

lemma guarantee_call:
  "quiet 8 hist \<Longrightarrow> call_ok C ev \<Longrightarrow> \<not> is_publish ev \<Longrightarrow> guarantee C clk r hist ev"
  by (auto simp: guarantee_def)

lemma quiet_snoc: "quiet n hist \<Longrightarrow> \<not> is_publish ev \<Longrightarrow> quiet (Suc n) (hist @ [ev])"
  by (auto simp: quiet_def)

lemma quiet_le: "quiet n hist \<Longrightarrow> n \<le> m \<Longrightarrow> quiet m hist"
  by (auto simp: quiet_def)

text \<open>What a part of the request leaves, having started after \<open>hist0\<close>: at most \<open>n\<close> calls, no publication.\<close>

definition after_calls :: "nat \<Rightarrow> event list \<Rightarrow> event list \<Rightarrow> bool" where
  "after_calls n hist0 hist \<longleftrightarrow> quiet n hist \<and> set hist0 \<subseteq> set hist"

lemma after_calls_refl: "quiet n hist \<Longrightarrow> n \<le> m \<Longrightarrow> after_calls m hist hist"
  by (auto simp: after_calls_def intro: quiet_le)

lemma after_calls_snoc: "quiet n hist \<Longrightarrow> \<not> is_publish ev \<Longrightarrow> Suc n \<le> m \<Longrightarrow> after_calls m hist (hist @ [ev])"
  using quiet_snoc [of n hist ev] by (auto simp: after_calls_def intro: quiet_le)

text \<open>The calls.\<close>

lemma acquire_obeys:
  assumes q: "quiet n hist" "n \<le> 8" and rate: "0 < rate" "rate \<le> max_int64"
    and k: "\<And>ok err hist'. after_calls (Suc n) hist hist' \<Longrightarrow>
      (ok \<Longrightarrow> err = None \<Longrightarrow> granted_in sc rate (epoch_minute (clk 0)) hist') \<Longrightarrow>
      obeys (reply_ok C) (guarantee C rc r) Q (k (ok, err)) hist'"
  shows "obeys (reply_ok C) (guarantee C rc r) Q (CallAcquire clk sc rate minute k) hist"
proof -
  have "guarantee C rc r hist (EvAcquire clk sc rate minute x)" for x
    by (rule guarantee_call) (use q rate minute_pos in \<open>auto intro: quiet_le\<close>)
  moreover have "obeys (reply_ok C) (guarantee C rc r) Q (k (ok, err)) (hist @ [EvAcquire clk sc rate minute (ok, err)])" for ok err
    by (rule k) (auto simp: granted_in_def intro: after_calls_snoc [OF q(1)])
  ultimately show ?thesis by (simp add: Let_def)
qed

lemma load_obeys:
  assumes q: "quiet n hist" "n \<le> 8" and "scope_ok sk"
    and k: "\<And>eo v err hist'. after_calls (Suc n) hist hist' \<Longrightarrow> EvLoad c sk (eo, v, err) \<in> set hist' \<Longrightarrow>
      (err = None \<Longrightarrow> 0 \<le> v \<and> v < max_int64 \<and> (\<forall>e. eo = Some e \<longrightarrow> edge_range e)) \<Longrightarrow>
      obeys (reply_ok C) (guarantee C rc r) Q (k (eo, v, err)) hist'"
  shows "obeys (reply_ok C) (guarantee C rc r) Q (CallLoad c sk k) hist"
proof -
  have "guarantee C rc r hist (EvLoad c sk x)" for x
    by (rule guarantee_call) (use q assms(3) in \<open>auto intro: quiet_le\<close>)
  moreover have "reply_ok C (EvLoad c sk (eo, v, err)) \<longrightarrow>
      obeys (reply_ok C) (guarantee C rc r) Q (k (eo, v, err)) (hist @ [EvLoad c sk (eo, v, err)])" for eo v err
    by (rule impI, rule k) (auto intro: after_calls_snoc [OF q(1)])
  ultimately show ?thesis by (simp add: Let_def)
qed

lemma upsert_obeys:
  assumes q: "quiet n hist" "n \<le> 8" and "scope_ok sk" and "edge_range e" and "0 \<le> pv" and "pv < max_int64"
    and k: "\<And>x hist'. after_calls (Suc n) hist hist' \<Longrightarrow> (x = (True, None) \<Longrightarrow> wrote c sk pv (LastValue e) hist') \<Longrightarrow>
      obeys (reply_ok C) (guarantee C rc r) Q (k x) hist'"
  shows "obeys (reply_ok C) (guarantee C rc r) Q (CallUpsert c sk pv e k) hist"
proof -
  have "guarantee C rc r hist (EvUpsert c sk pv e x)" for x
    by (rule guarantee_call) (use q assms(3-6) in \<open>auto intro: quiet_le\<close>)
  moreover have "obeys (reply_ok C) (guarantee C rc r) Q (k x) (hist @ [EvUpsert c sk pv e x])" for x
    by (rule k) (auto simp: wrote_def intro: after_calls_snoc [OF q(1)])
  ultimately show ?thesis by (simp add: Let_def)
qed

text \<open>The parts of the handler.\<close>

lemma gate_obeys:
  assumes q: "quiet n hist" "n \<le> 8" and "rpm \<le> max_int64"
    and k: "\<And>hist' e. after_calls (Suc n) hist hist' \<Longrightarrow>
      (e = None \<Longrightarrow> 0 < rpm \<Longrightarrow> granted_in sc rpm (epoch_minute (clk 0)) hist') \<Longrightarrow> Q hist' e"
  shows "obeys (reply_ok C) (guarantee C rc r) Q (gate_calls clk sc rpm msg) hist"
proof (cases "rpm > 0")
  case True
  then show ?thesis
    unfolding gate_calls_def if_P [OF True] by (intro acquire_obeys [OF q _ assms(3)]) (auto intro!: k split: if_splits)
next
  case False
  then show ?thesis by (simp add: gate_calls_def k after_calls_refl [OF q(1)])
qed

lemma target_obeys:
  assumes q: "quiet n hist" "n \<le> 8" and "SNSRPM (Target (Trigger cc)) \<le> max_int64" and "a \<noteq> ForwardedAsIs"
    and k: "\<And>hist' res. after_calls (Suc n) hist hist' \<Longrightarrow> fst res \<noteq> ForwardedAsIs \<Longrightarrow>
      (to_target res \<Longrightarrow> target_granted clk c cc hist' \<and> publishes a) \<Longrightarrow> Q hist' res"
  shows "obeys (reply_ok C) (guarantee C rc r) Q (target_calls (clk_target clk) c cc a g) hist"
proof (cases "publishes a \<and> 0 < SNSRPM (Target (Trigger cc))")
  case True
  then have c: "(a = EdgeTriggeredForward \<or> a = AggregateSent) \<and> SNSRPM (Target (Trigger cc)) > 0" by (simp add: publishes_def)
  show ?thesis
    unfolding target_calls_def if_P [OF c]
    by (rule acquire_obeys [OF q _ assms(3)])
      (use assms(4) c in \<open>auto intro!: k simp: target_granted_def target_scope_def to_target_def admitted_def publishes_def
        split: if_splits\<close>)
next
  case False
  then have c: "\<not> ((a = EdgeTriggeredForward \<or> a = AggregateSent) \<and> SNSRPM (Target (Trigger cc)) > 0)" by (simp add: publishes_def)
  show ?thesis
    unfolding target_calls_def if_not_P [OF c]
    using assms(4) False by (auto intro!: k after_calls_refl [OF q(1)] simp: target_granted_def to_target_def)
qed

lemma flip_obeys:
  assumes q: "quiet n hist" "n \<le> 8" and sk: "scope_ok sk" and e: "edge_range e" and now: "in_int64 now"
    and ver: "0 \<le> ver" "ver < max_int64"
    and k: "\<And>hist' x. after_calls (Suc n) hist hist' \<Longrightarrow> fst x \<noteq> ForwardedAsIs \<Longrightarrow>
      (publishes (fst x) \<Longrightarrow> snd (snd x) = None \<Longrightarrow> wrote c sk ver (LastValue e) hist') \<Longrightarrow> Q hist' x"
  shows "obeys (reply_ok C) (guarantee C rc r) Q (flip_calls L now c sk flap ver e) hist"
proof -
  note up = upsert_obeys [OF q sk _ ver]
  have fw: "obeys (reply_ok C) (guarantee C rc r) Q (CallUpsert c sk ver e1 (\<lambda>(ok, err).
      Ret (case err of Some x \<Rightarrow> (NoOp, None, Some x)
           | None \<Rightarrow> if ok then (EdgeTriggeredForward, None, None) else (NoOp, None, None)))) hist"
    if "edge_range e1" "LastValue e1 = LastValue e" for e1
    by (rule up [OF that(1)]) (auto intro!: k simp: publishes_def that(2) split: option.splits)
  show ?thesis
  proof (cases flap)
    case None
    then show ?thesis using fw [OF e] by (simp add: flip_calls_def)
  next
    case (Some f)
    obtain e1 nw where w: "roll_window f now e = (e1, nw)" by (cases "roll_window f now e")
    obtain e2 a g where ta: "try_aggregate L f now e1 = (e2, a, g)" by (cases "try_aggregate L f now e1")
    have e1: "edge_range e1" "LastValue e1 = LastValue e"
      using roll_window_range [OF e now w] w by (auto simp: roll_window_def Let_def split: if_splits)
    have e2: "edge_range e2" "LastValue e2 = LastValue e" "a \<noteq> ForwardedAsIs"
      using try_aggregate_range [OF e1(1) ta] ta e1(2) by (auto simp: try_aggregate_def Let_def split: if_splits)
    have "obeys (reply_ok C) (guarantee C rc r) Q (CallUpsert c sk ver e1 (\<lambda>_. Ret (SuppressFlapping, None, None))) hist"
      by (rule up [OF e1(1)]) (auto intro!: k simp: publishes_def)
    moreover have "obeys (reply_ok C) (guarantee C rc r) Q (CallUpsert c sk ver e2 (\<lambda>(ok, err).
        Ret (case err of Some x \<Rightarrow> (SuppressFlapping, None, Some x)
             | None \<Rightarrow> if ok then (a, g, None) else (NoOp, None, None)))) hist"
      by (rule up [OF e2(1)]) (use e2 in \<open>auto intro!: k simp: publishes_def split: option.splits\<close>)
    ultimately show ?thesis using fw [OF e1] by (simp add: flip_calls_def Some w ta)
  qed
qed

lemma loaded_obeys:
  assumes q: "quiet n hist" "n \<le> 8" and sk: "scope_ok sk" and now: "in_int64 now" and v: "ValidString v"
    and ld: "EvLoad c sk (eo, ver, err) \<in> set hist"
    and l: "err = None \<Longrightarrow> 0 \<le> ver \<and> ver < max_int64 \<and> (\<forall>e. eo = Some e \<longrightarrow> edge_range e)"
    and k: "\<And>hist' x. after_calls (Suc n) hist hist' \<Longrightarrow> fst x \<noteq> ForwardedAsIs \<Longrightarrow>
      (publishes (fst x) \<Longrightarrow> snd (snd x) = None \<Longrightarrow> \<exists>pv. change_in c sk pv hist') \<Longrightarrow> Q hist' x"
  shows "obeys (reply_ok C) (guarantee C rc r) Q (loaded_calls L now c sk v flap p (eo, ver, err)) hist"
proof -
  have fin: "Q hist (NoOp, g, e)" for g e by (rule k [OF after_calls_refl [OF q(1)]]) (simp_all add: publishes_def)
  have chg: "\<exists>pv. change_in c sk pv hist'"
    if "err = None" "after_calls (Suc n) hist hist'" "wrote c sk (case eo of None \<Rightarrow> 0 | Some _ \<Rightarrow> ver) v hist'"
      "\<forall>old. eo = Some old \<longrightarrow> LastValue old \<noteq> v" for hist'
    using ld that unfolding change_in_def after_calls_def by blast
  have new: "obeys (reply_ok C) (guarantee C rc r) Q (CallUpsert c sk 0 (initial_edge now v) (\<lambda>(ok, err2).
      Ret (case err2 of Some x \<Rightarrow> (NoOp, None, Some x)
           | None \<Rightarrow> if ok then (EdgeTriggeredForward, None, None) else (SuppressFlapping, None, None)))) hist"
    if "err = None" "eo = None"
    by (rule upsert_obeys [OF q sk initial_edge_range [OF now v]])
      (use that in \<open>auto intro!: k chg simp: max_int64_def publishes_def initial_edge_def split: option.splits\<close>)
  have flip: "obeys (reply_ok C) (guarantee C rc r) Q (flip_calls L now c sk flap ver (observe_flip now v enc e)) hist"
    if "err = None" "eo = Some e" "EncodePayload L p = Inr enc" "LastValue e \<noteq> v" for e enc
    by (rule flip_obeys [OF q sk observe_flip_range now])
      (use that l now v EncodePayload_text in \<open>auto intro!: k chg simp: observe_flip_def\<close>)
  show ?thesis using new flip by (auto simp: loaded_calls_def fin split: option.splits sum.splits)
qed

lemma after_calls_trans: "after_calls n hist0 hist \<Longrightarrow> after_calls m hist hist' \<Longrightarrow> after_calls m hist0 hist'"
  by (auto simp: after_calls_def)

lemma after_calls_quiet: "after_calls n hist0 hist \<Longrightarrow> quiet n hist"
  by (simp add: after_calls_def)

lemma edge_obeys:
  assumes q: "quiet n hist" "n \<le> 6" and cc: "config_range cc" and now: "in_int64 (unix (clk_edge clk))"
    and v: "ValidString v" and sk: "scope_ok sk" and ld: "EvLoad c sk (eo, ver, err) \<in> set hist"
    and l: "err = None \<Longrightarrow> 0 \<le> ver \<and> ver < max_int64 \<and> (\<forall>e. eo = Some e \<longrightarrow> edge_range e)"
    and k: "\<And>hist' res. after_calls (n + 2) hist hist' \<Longrightarrow> fst res \<noteq> ForwardedAsIs \<Longrightarrow>
      (to_target res \<Longrightarrow> target_granted clk c cc hist' \<and> (\<exists>pv. change_in c sk pv hist')) \<Longrightarrow> Q hist' res"
  shows "obeys (reply_ok C) (guarantee C rc r) Q (edge_calls L clk c cc p sk v (eo, ver, err)) hist"
  unfolding edge_calls_def obeys_and_then
proof (rule loaded_obeys [OF q(1) _ sk _ v ld l], goal_cases)
  case (4 hist1 x)
  obtain a g e where x: "x = (a, g, e)" by (cases x)
  have h: "after_calls (n + 2) hist hist1" using 4(1) by (auto simp: after_calls_def intro: quiet_le)
  have "obeys (reply_ok C) (guarantee C rc r) Q (target_calls (clk_target clk) c cc a g) hist1" if "e = None"
  proof (rule target_obeys [OF after_calls_quiet [OF 4(1)]])
    fix hist' res
    assume "after_calls (Suc (Suc n)) hist1 hist'" "fst res \<noteq> ForwardedAsIs"
      "to_target res \<Longrightarrow> target_granted clk c cc hist' \<and> publishes a"
    then show "Q hist' res" using 4 x that by (intro k) (auto simp: after_calls_def intro: change_in_mono)
  qed (use 4(2) x q(2) cc in \<open>auto simp: config_range_def in_int64_def\<close>)
  moreover have "Q hist1 (a, StatusInternalServerError, g, Some y)" for y
    using h 4(2) x by (intro k) (simp_all add: to_target_def admitted_def)
  ultimately show ?case by (simp add: x)
qed (use q(2) now in \<open>auto simp: EpochTime_def\<close>)

lemma trigger_obeys:
  assumes q: "quiet n hist" "n \<le> 5" and cc: "config_range cc" and now: "in_int64 (unix (clk_edge clk))"
    and v: "\<And>v. EvalString L (FieldExpr (Trigger cc)) p = Inr (Some v) \<Longrightarrow> ValidString v"
    and k: "\<And>hist' res. after_calls (n + 3) hist hist' \<Longrightarrow> fst res \<noteq> ForwardedAsIs \<Longrightarrow>
      (to_target res \<Longrightarrow> trigger_granted clk c cc hist') \<Longrightarrow> Q hist' res"
  shows "obeys (reply_ok C) (guarantee C rc r) Q (trigger_calls L clk c cc p) hist"
proof -
  have ld: "obeys (reply_ok C) (guarantee C rc r) Q
      (CallLoad c (ComputeKey (FieldExpr (Trigger cc))) (edge_calls L clk c cc p (ComputeKey (FieldExpr (Trigger cc))) v)) hist"
    if "ValidString v" for v
  proof (rule load_obeys [OF q(1)])
    fix eo ver and err :: "go_error option" and hist1
    assume h1: "after_calls (Suc n) hist hist1"
      and ld: "EvLoad c (ComputeKey (FieldExpr (Trigger cc))) (eo, ver, err) \<in> set hist1"
      and l: "err = None \<Longrightarrow> 0 \<le> ver \<and> ver < max_int64 \<and> (\<forall>e. eo = Some e \<longrightarrow> edge_range e)"
    show "obeys (reply_ok C) (guarantee C rc r) Q
        (edge_calls L clk c cc p (ComputeKey (FieldExpr (Trigger cc))) v (eo, ver, err)) hist1"
      by (rule edge_obeys [OF after_calls_quiet [OF h1] _ cc now that _ ld l])
        (use q(2) after_calls_trans [OF h1] in \<open>auto intro!: k simp: trigger_granted_def numeral_3_eq_3\<close>)
  qed (use q(2) in auto)
  have no: "Q hist (NoOp, code, g, e)" for code g e
    by (rule k [OF after_calls_refl [OF q(1)]]) (simp_all add: to_target_def publishes_def)
  then show ?thesis
    using ld v by (auto simp: trigger_calls_def target_calls_def Let_def split: sum.splits option.splits)
qed

text \<open>What a finished \<^verbatim>\<open>Run\<close> that asks for a publication has been granted.\<close>

definition run_granted :: "run_clock \<Rightarrow> string \<Rightarrow> ClientConfig \<Rightarrow> event list \<Rightarrow> run_result \<Rightarrow> bool" where
  "run_granted clk c cc hist res \<longleftrightarrow>
     (snd (snd (snd res)) = None \<longrightarrow> fst res \<in> {AggregateSent, EdgeTriggeredForward, ForwardedAsIs} \<longrightarrow>
        client_granted clk c cc hist \<and> (always_triggers cc \<longrightarrow> trigger_granted clk c cc hist))"

lemma run_obeys:
  assumes q: "quiet n hist" "n \<le> 3" and cc: "config_range cc" and now: "in_int64 (unix (clk_edge clk))"
    and v: "\<And>v. EvalString L (FieldExpr (Trigger cc)) p = Inr (Some v) \<Longrightarrow> ValidString v"
    and k: "\<And>hist' res. after_calls (n + 5) hist hist' \<Longrightarrow> run_granted clk c cc hist' res \<Longrightarrow> Q hist' res"
  shows "obeys (reply_ok C) (guarantee C rc r) Q (run_calls L clk c ip cc p) hist"
  unfolding run_calls_def obeys_and_then
proof (rule gate_obeys [OF q(1)], goal_cases)
  case (3 hist1 e1)
  have e: "Q hist' (NoOp, code, p, e)" if "after_calls m hist hist'" "m \<le> n + 5" for hist' code e m
    by (rule k) (use that in \<open>auto simp: run_granted_def after_calls_def intro: quiet_le\<close>)
  show ?case
  proof (cases e1)
    case (Some x)
    then show ?thesis using e [OF 3(1)] by simp
  next
    case None
    have "obeys (reply_ok C) (guarantee C rc r) Q (case e2 of
        Some e \<Rightarrow> Ret (NoOp, StatusAccepted, p, Some e)
      | None \<Rightarrow>
          if CheckPassthrough L (Passthrough cc) p then Ret (ForwardedAsIs, StatusAccepted, p, None)
          else if FieldExpr (Trigger cc) = [] then Ret (ForwardedAsIs, StatusAccepted, p, None)
          else trigger_calls L clk c cc p) hist2"
      if h: "after_calls (Suc (Suc n)) hist1 hist2"
        and g: "e2 = None \<Longrightarrow> 0 < ClientRPM cc \<Longrightarrow> granted_in (''CLIENT:'' @ c) (ClientRPM cc) (epoch_minute (clk_client clk 0)) hist2"
      for hist2 e2
    proof (cases e2)
      case (Some x)
      then show ?thesis using e [OF after_calls_trans [OF 3(1) h]] by simp
    next
      case None
      note h2 = after_calls_trans [OF 3(1) h]
      have cg: "client_granted clk c cc hist2" using g None by (simp add: client_granted_def)
      have "Q hist2 (ForwardedAsIs, StatusAccepted, p, None)" if "\<not> always_triggers cc"
        by (rule k) (use h2 cg that in \<open>auto simp: run_granted_def after_calls_def intro: quiet_le\<close>)
      moreover have "\<not> always_triggers cc" if "CheckPassthrough L (Passthrough cc) p \<or> FieldExpr (Trigger cc) = []"
        using that by (auto simp: always_triggers_def CheckPassthrough_iff)
      moreover have "obeys (reply_ok C) (guarantee C rc r) Q (trigger_calls L clk c cc p) hist2"
      proof (rule trigger_obeys [OF after_calls_quiet [OF h2] _ cc now v], goal_cases)
        case (3 hist' res)
        show ?case
          by (rule k [OF after_calls_trans [OF h2]])
            (use 3 client_granted_mono [OF cg] in
              \<open>auto simp: run_granted_def to_target_def admitted_def publishes_def after_calls_def algebra_simps\<close>)
      qed (use q(2) in auto)
      ultimately show ?thesis using None by auto
    qed
    then show ?thesis
      unfolding None option.case obeys_and_then
      by (intro gate_obeys [OF after_calls_quiet [OF 3(1)]]) (use q(2) cc in \<open>auto simp: config_range_def in_int64_def\<close>)
  qed
qed (use q(2) cc in \<open>auto simp: config_range_def in_int64_def\<close>)

lemma config_obeys:
  assumes k: "\<And>hist' x. quiet 3 hist' \<Longrightarrow> (\<And>cc. x = Inr cc \<Longrightarrow> C i cc) \<Longrightarrow> Q hist' x"
  shows "obeys (reply_ok C) (guarantee C rc r) Q (config_calls clk i) []"
proof -
  have q: "quiet 8 (take n [EvCacheGet i t0 x, EvGet i y])" for n t0 x y
    by (auto simp: quiet_def dest!: in_set_takeD)
  have g: "guarantee C rc r [] (EvCacheGet i t x)" "guarantee C rc r [EvCacheGet i t x] (EvGet i y)"
    "C i cc \<Longrightarrow> guarantee C rc r [EvCacheGet i t x, EvGet i y] (EvCacheSet i cc d t')" for t x y cc d t'
    using q [of 0] q [of 1 t x y] q [of 2 t x y] by (auto intro!: guarantee_call simp: quiet_def)
  show ?thesis
    by (auto simp: config_calls_def Let_def g quiet_def intro!: k split: option.splits sum.splits)
qed

lemma publish_obeys:
  assumes "quiet 8 hist" and "publish_ok C rc r hist arn"
  shows "obeys (reply_ok C) (guarantee C rc r) (\<lambda>_ _. True) (publish_calls L arn p a w) hist"
  using assms by (auto simp: publish_calls_def guarantee_def Let_def split: sum.splits)

lemma switch_obeys:
  assumes "quiet 8 hist" and "C (request_client r) cc" and "Auth cc (request_client r) (request_key r) = None"
    and "run_granted (clk_run rc) (request_client r) cc hist res"
  shows "obeys (reply_ok C) (guarantee C rc r) (\<lambda>_ _. True) (switch_calls L (SNSArn (Target (Trigger cc))) p w res) hist"
proof -
  obtain a code g err where res: "res = (a, code, g, err)" by (cases res)
  have "publish_ok C rc r hist (SNSArn (Target (Trigger cc)))" if "err = None" "a \<in> {AggregateSent, EdgeTriggeredForward, ForwardedAsIs}"
    using that assms(2-4) unfolding publish_ok_def run_granted_def res by auto
  then show ?thesis using publish_obeys [OF assms(1)] by (cases err; cases a) (simp_all add: switch_calls_def res)
qed

lemma notify_obeys:
  assumes cfg: "\<And>cc. C (request_client r) cc \<Longrightarrow> config_range cc" and v: "values_ok L C r"
    and now: "in_int64 (unix (clk_edge (clk_run rc)))"
  shows "obeys (reply_ok C) (guarantee C rc r) (\<lambda>_ _. True) (notify_calls L rc r w) []"
proof -
  have body: "obeys (reply_ok C) (guarantee C rc r) (\<lambda>_ _. True) (body_calls L rc (request_client r) cc r w) hist"
    if q: "quiet 3 hist" and c: "C (request_client r) cc" and a: "Auth cc (request_client r) (request_key r) = None" for hist cc
  proof -
    have "obeys (reply_ok C) (guarantee C rc r)
        (\<lambda>hist res. obeys (reply_ok C) (guarantee C rc r) (\<lambda>_ _. True) (switch_calls L (SNSArn (Target (Trigger cc))) p w res) hist)
        (run_calls L (clk_run rc) (request_client r) (clientIP r) cc p) hist"
      if "read_limited body_limit (Body r) = (b, None)" "json_unmarshal L b = (p, None)" for b p
    proof (rule run_obeys [OF q order_refl cfg [OF c] now])
      show "ValidString x" if "EvalString L (FieldExpr (Trigger cc)) p = Inr (Some x)" for x
        using v c that \<open>read_limited body_limit (Body r) = (b, None)\<close> \<open>json_unmarshal L b = (p, None)\<close>
        unfolding values_ok_def by blast
    qed (use c a in \<open>auto intro!: switch_obeys dest: after_calls_quiet\<close>)
    then show ?thesis by (auto simp: body_calls_def obeys_and_then split: prod.splits option.splits)
  qed
  show ?thesis
    unfolding notify_calls_def Let_def request_client_def [symmetric] request_key_def [symmetric]
    by (auto simp: obeys_and_then intro!: config_obeys body split: sum.splits option.splits)
qed

lemma route_obeys:
  assumes "\<And>cc. C (request_client r) cc \<Longrightarrow> config_range cc" and "values_ok L C r" and "in_int64 (unix (clk_edge (clk_run rc)))"
  shows "obeys (reply_ok C) (guarantee C rc r) (\<lambda>_ _. True) (route_calls mux L rc r w) []"
  using notify_obeys [OF assms] by (simp add: route_calls_def)

end
