(* ===== verification/Concurrent_Requests.thy ===== *)
theory Concurrent_Requests
  imports Request_Guarantees Concurrency
begin

text \<open>
  Requests over a store whose operations are atomic and that refuses stale versions.  However their calls are
  interleaved, and whatever fails, the store keeps its invariant, and the grants of a rate window bound the
  publications that needed them.
\<close>

text \<open>The calls of \<^verbatim>\<open>Acquire\<close> that a rate window granted at a rate of at most \<open>R\<close>.\<close>

definition window_grant :: "string \<Rightarrow> int \<Rightarrow> int \<Rightarrow> event \<Rightarrow> bool" where
  "window_grant sc m R ev \<longleftrightarrow> (\<exists>clk n w. ev = EvAcquire clk sc n w (True, None) \<and> n \<le> R \<and> epoch_minute (clk 0) = m)"

definition window_grants :: "string \<Rightarrow> int \<Rightarrow> int \<Rightarrow> trace \<Rightarrow> trace" where
  "window_grants sc m R tr = filter (\<lambda>x. window_grant sc m R (snd x)) tr"

lemma window_grants_snoc [simp]:
  "window_grants sc m R (tr @ [(i, ev)]) = window_grants sc m R tr @ (if window_grant sc m R ev then [(i, ev)] else [])"
  by (simp add: window_grants_def)

text \<open>The versions from which the accepted calls of \<^verbatim>\<open>UpsertCAS\<close> moved an edge on.\<close>

fun won_version :: "string \<times> string \<Rightarrow> event \<Rightarrow> int list" where
  "won_version x (EvUpsert c k pv e (True, None)) = (if (c, k) = x then [pv] else [])"
| "won_version x ev = []"

definition won_versions :: "string \<times> string \<Rightarrow> trace \<Rightarrow> int list" where
  "won_versions x tr = concat (map (\<lambda>y. won_version x (snd y)) tr)"

lemma won_versions_snoc [simp]: "won_versions x (tr @ [(i, ev)]) = won_versions x tr @ won_version x ev"
  by (simp add: won_versions_def)

lemma won_once:
  assumes "distinct (won_versions x tr)" and "(i, ev) \<in> set tr" and "(j, ev') \<in> set tr"
    and "pv \<in> set (won_version x ev)" and "pv \<in> set (won_version x ev')"
  shows "i = j"
  using assms
proof (induction tr rule: rev_induct)
  case (snoc y tr)
  obtain l ev1 where y: "y = (l, ev1)" by (cases y)
  have old: "v \<in> set (won_versions x tr)" if "(m, e) \<in> set tr" "v \<in> set (won_version x e)" for m e v
    using that by (force simp: won_versions_def)
  have "set (won_versions x tr) \<inter> set (won_version x ev1) = {}" "distinct (won_versions x tr)"
    using snoc.prems(1) by (auto simp: y)
  then show ?case using snoc.IH snoc.prems(2-5) old [of i ev pv] old [of j ev' pv] by (auto simp: y)
qed simp

text \<open>Requests that each made a call of some kind are at most as many as those calls.\<close>

lemma card_callers:
  assumes "\<And>i. i \<in> S \<Longrightarrow> \<exists>ev. (i, ev) \<in> set tr \<and> P ev"
  shows "card S \<le> length (filter (\<lambda>x. P (snd x)) tr)"
proof -
  have "S \<subseteq> set (map fst (filter (\<lambda>x. P (snd x)) tr))" using assms by force
  then have "card S \<le> card (set (map fst (filter (\<lambda>x. P (snd x)) tr)))" by (intro card_mono) auto
  then show ?thesis using card_length [of "map fst (filter (\<lambda>x. P (snd x)) tr)"] by simp
qed

lemma granted_in_window:
  "granted_in sc n m (own i tr1) \<Longrightarrow> n \<le> R \<Longrightarrow> \<exists>ev. (i, ev) \<in> set tr1 \<and> window_grant sc m R ev"
  by (auto simp: granted_in_def own_iff window_grant_def)

lemma change_in_own:
  "change_in c k pv (own i tr1) \<Longrightarrow> \<exists>ev. (i, ev) \<in> set tr1 \<and> pv \<in> set (won_version (c, k) ev)"
  by (force simp: change_in_def wrote_def own_iff)

text \<open>The configurations that occur are known, and the requests come with clocks and values in range.\<close>

definition known_configs :: "policy \<Rightarrow> cfg_cache \<Rightarrow> trace \<Rightarrow> bool" where
  "known_configs C cache tr \<longleftrightarrow>
     (\<forall>j e. cache j = Some e \<longrightarrow> C j (val e)) \<and> (\<forall>i j cc. (i, EvGet j (Inr cc)) \<in> set tr \<longrightarrow> C j cc)
     \<and> (\<forall>j cc. C j cc \<longrightarrow> config_range cc)"

definition requests_ok :: "Libs \<Rightarrow> policy \<Rightarrow> (nat \<Rightarrow> req_clock) \<Rightarrow> (nat \<Rightarrow> Request) \<Rightarrow> bool" where
  "requests_ok L C rc rq \<longleftrightarrow> (\<forall>i. values_ok L C (rq i) \<and> in_int64 (unix (clk_edge (clk_run (rc i)))))"

text \<open>The requests that asked a topic to publish.\<close>

definition publishers :: "trace \<Rightarrow> nat set" where
  "publishers tr = {i. \<exists>ev. (i, ev) \<in> set tr \<and> is_publish ev}"

lemma finite_publishers: "finite (publishers tr)"
  by (rule finite_subset [of _ "fst ` set tr"]) (force simp: publishers_def)+

lemma own_distinct:
  assumes "\<And>tr1 i ev tr2. tr = tr1 @ (i, ev) # tr2 \<Longrightarrow> P ev \<Longrightarrow> \<forall>ev' \<in> set (own i tr1). \<not> P ev'"
  shows "distinct (map fst (filter (\<lambda>x. P (snd x)) tr)) \<and> length (filter P (own i tr)) \<le> 1"
  using assms
proof (induction tr rule: rev_induct)
  case (snoc x tr)
  obtain j ev where x: "x = (j, ev)" by (cases x)
  have IH: "distinct (map fst (filter (\<lambda>x. P (snd x)) tr)) \<and> length (filter P (own i tr)) \<le> 1"
    by (rule snoc.IH) (use snoc.prems in \<open>metis append_Cons append_assoc\<close>)
  have new: "P ev \<Longrightarrow> \<forall>ev' \<in> set (own j tr). \<not> P ev'" using snoc.prems [of tr j ev "[]"] by (simp add: x)
  have "P ev \<Longrightarrow> j \<notin> fst ` set (filter (\<lambda>x. P (snd x)) tr)" using new by (force simp: own_iff)
  moreover have "P ev \<Longrightarrow> i = j \<Longrightarrow> filter P (own i tr) = []" using new by (simp add: filter_empty_conv)
  ultimately show ?case using IH by (auto simp: x)
qed simp

lemma own_last:
  assumes "tr = tr1 @ (i, ev) # tr2" and "\<And>tr1 ev' tr2. tr = tr1 @ (i, ev') # tr2 \<Longrightarrow> \<forall>x \<in> set (own i tr1). \<not> P x" and "P ev"
  shows "own i tr2 = []"
proof (rule ccontr)
  assume "own i tr2 \<noteq> []"
  then obtain ev' where "(i, ev') \<in> set tr2" by (metis list.set_intros(1) neq_Nil_conv own_iff)
  then obtain u v where "tr2 = u @ (i, ev') # v" by (meson split_list)
  then show False using assms(2) [of "tr1 @ (i, ev) # u" ev' v] assms(1,3) by (simp add: own_def)
qed

text \<open>The topics receive nothing but what the requests publish.\<close>

context notify_stores
begin

lemma call_log:
  assumes "do_call \<lparr>h_ClientStore = cs, h_DataStore = ds, h_Pub = pub\<rparr> p (cache, s) = Some (ev, p', cache', s')"
  shows "length (log s') \<le> length (log s) + (if is_publish ev then 1 else 0)"
proof (cases p)
  case (CallPublish arn m k)
  obtain pr s1 where q: "PublishRaw pub arn m s = (pr, s1)" by (cases "PublishRaw pub arn m s")
  then show ?thesis using publish [OF q] assms CallPublish by (auto simp: log_write_def split: if_splits)
qed (use assms in \<open>auto simp: Let_def split: prod.splits dest: get_quiet acquire_quiet load_quiet upsert_quiet\<close>)

lemma interleaved_log:
  assumes "interleaved \<lparr>h_ClientStore = cs, h_DataStore = ds, h_Pub = pub\<rparr> (ps, cache, s) tr (ps', cache', s')"
  shows "length (log s') \<le> length (log s) + length (filter (\<lambda>x. is_publish (snd x)) tr)"
  using assms
proof (induction tr "(ps', cache', s')" arbitrary: ps' cache' s' rule: interleaved.induct)
  case (one_call tr ps1 st j ev p')
  obtain c1 s1 where st: "st = (c1, s1)" by (cases st)
  show ?case using one_call.hyps(2) [OF st] call_log [OF one_call.hyps(3) [unfolded st]] st by auto
qed simp

end

locale concurrent_system = notify_system ds edges granted inv up cs log pub + data_store ds edges granted inv up
  for ds :: "'s DataStore" and edges granted inv up cs log pub
begin

lemma load_reply:
  assumes i: "inv s" and k: "scope_ok k" and v: "version_at (edges s (c, k)) < max_int64" and l: "Load ds c k s = (lr, s')"
  shows "inv s' \<and> edges s' = edges s \<and> granted s' = granted s \<and> reply_ok C (EvLoad c k lr)"
proof -
  obtain eo ver err where lr: "lr = (eo, ver, err)" by (cases lr)
  note law = load [OF i k l [unfolded lr]]
  have "0 \<le> ver \<and> ver < max_int64 \<and> (\<forall>e. eo = Some e \<longrightarrow> edge_range e)" if "err = None"
  proof (cases "edges s (c, k)")
    case None
    then show ?thesis using law that by (simp add: max_int64_def)
  next
    case (Some x)
    obtain e0 n where x: "x = (e0, n)" by (cases x)
    have "0 < n" "edge_range e0" using stored_edge [OF i Some [unfolded x]] by auto
    then show ?thesis using law that Some x v by auto
  qed
  then show ?thesis using law load_granted [OF i k l] by (simp add: lr)
qed

lemma upsert_reply:
  assumes i: "inv s" and ok: "scope_ok k" "edge_range e" "0 \<le> pv" "pv < max_int64" and u: "UpsertCAS ds c k pv e s = (ur, s')"
  shows "inv s' \<and> granted s' = granted s \<and> version_at (edges s' x) \<le> version_at (edges s x) + 1
    \<and> version_at (edges s x) \<le> version_at (edges s' x)
    \<and> (\<forall>v \<in> set (won_version x (EvUpsert c k pv e ur)). v = version_at (edges s x) \<and> v < version_at (edges s' x))"
proof -
  obtain won err where ur: "ur = (won, err)" by (cases ur)
  show ?thesis
  proof (cases "pv = version_at (edges s (c, k))")
    case True
    show ?thesis
      using upsert_current [OF i ok(1,2) True ok(4) u [unfolded ur]] upsert_granted [OF i ok(1) u] True
      by (cases err; cases won) (auto simp: ur split: if_splits)
  next
    case False
    show ?thesis using upsert_stale [OF i ok False u [unfolded ur]] upsert_granted [OF i ok(1) u] by (cases err; cases won) (simp_all add: ur)
  qed
qed

text \<open>What a grant does to its window, and that no call takes a grant back.\<close>

definition grants_step where
  "grants_step ev s s' \<longleftrightarrow>
     (\<forall>b. granted s b \<le> granted s' b)
     \<and> (\<forall>clk sc n w. ev = EvAcquire clk sc n w (True, None) \<longrightarrow>
          granted s (sc, epoch_minute (clk 0)) < n
          \<and> granted s' (sc, epoch_minute (clk 0)) = granted s (sc, epoch_minute (clk 0)) + 1)"

lemma acquire_reply:
  assumes i: "inv s" and n: "0 < n" "n \<le> max_int64" "0 < w" and a: "Acquire ds clk sc n w s = (ar, s')"
  shows "inv s' \<and> edges s' = edges s \<and> grants_step (EvAcquire clk sc n w ar) s s'"
proof -
  obtain ok err where ar: "ar = (ok, err)" by (cases ar)
  show ?thesis
    using acquire [OF i n a [unfolded ar] refl] acquire_edges [OF i n(2,3) a]
    by (cases err) (auto simp: grants_step_def ar)
qed

text \<open>One call of any request.\<close>

lemma call_step:
  assumes d: "do_call \<lparr>h_ClientStore = cs, h_DataStore = ds, h_Pub = pub\<rparr> p (cache, s) = Some (ev, p', cache', s')"
    and i: "inv s" and v: "\<And>x. version_at (edges s x) < max_int64" and c: "\<And>j e. cache j = Some e \<Longrightarrow> C j (val e)"
    and ok: "call_ok C ev" and get: "\<And>j cc. ev = EvGet j (Inr cc) \<Longrightarrow> C j cc"
  shows "reply_ok C ev \<and> inv s' \<and> (\<forall>x. version_at (edges s' x) \<le> version_at (edges s x) + 1
      \<and> version_at (edges s x) \<le> version_at (edges s' x)
      \<and> (\<forall>v \<in> set (won_version x ev). v = version_at (edges s x) \<and> v < version_at (edges s' x)))
    \<and> (\<forall>j e. cache' j = Some e \<longrightarrow> C j (val e)) \<and> grants_step ev s s'"
proof (cases p)
  case (CacheGet j t k)
  then show ?thesis using d i c by (auto simp: Let_def TTL_Get_def grants_step_def split: option.splits if_splits)
next
  case (CacheSet j cc dur t k)
  then show ?thesis using d i c ok by (auto simp: TTL_Set_def grants_step_def split: if_splits)
next
  case (CallGet j k)
  obtain gr s1 where g: "GetClientConfig cs j s = (gr, s1)" by (cases "GetClientConfig cs j s")
  then show ?thesis using get_frame [OF g i] d c get CallGet by (auto simp: grants_step_def)
next
  case (CallAcquire clk sc n w k)
  obtain ar s1 where a: "Acquire ds clk sc n w s = (ar, s1)" by (cases "Acquire ds clk sc n w s")
  then show ?thesis using acquire_reply [OF i _ _ _ a] d c ok CallAcquire by auto
next
  case (CallLoad cl sk k)
  obtain lr s1 where l: "Load ds cl sk s = (lr, s1)" by (cases "Load ds cl sk s")
  then show ?thesis using load_reply [OF i _ v l, of C] d c ok CallLoad by (auto simp: grants_step_def)
next
  case (CallUpsert cl sk pv e k)
  obtain ur s1 where u: "UpsertCAS ds cl sk pv e s = (ur, s1)" by (cases "UpsertCAS ds cl sk pv e s")
  have ev: "ev = EvUpsert cl sk pv e ur" "s' = s1" "cache' = cache" using d u CallUpsert by auto
  have "inv s1 \<and> granted s1 = granted s \<and> version_at (edges s1 x) \<le> version_at (edges s x) + 1
      \<and> version_at (edges s x) \<le> version_at (edges s1 x)
      \<and> (\<forall>v \<in> set (won_version x ev). v = version_at (edges s x) \<and> v < version_at (edges s1 x))" for x
    using upsert_reply [OF i _ _ _ _ u, of x] ok unfolding ev by simp
  then show ?thesis using c unfolding ev by (simp add: grants_step_def)
next
  case (CallPublish arn m k)
  obtain pr s1 where q: "PublishRaw pub arn m s = (pr, s1)" by (cases "PublishRaw pub arn m s")
  then show ?thesis using publish_frame [OF q i] d c CallPublish by (auto simp: grants_step_def)
qed (use d in simp)

text \<open>The state of the system after the calls \<^term>\<open>tr\<close>, in view of its start in \<^term>\<open>s0\<close>.\<close>

definition system_inv where
  "system_inv C s0 sc m R tr cache s \<longleftrightarrow>
     inv s \<and> (\<forall>x. version_at (edges s x) \<le> version_at (edges s0 x) + int (length tr))
     \<and> (\<forall>x. version_at (edges s0 x) \<le> version_at (edges s x) \<and> sorted_wrt (<) (won_versions x tr)
          \<and> (\<forall>v \<in> set (won_versions x tr). version_at (edges s0 x) \<le> v \<and> v < version_at (edges s x)))
     \<and> (\<forall>j e. cache j = Some e \<longrightarrow> C j (val e))
     \<and> granted s0 (sc, m) + int (length (window_grants sc m R tr)) \<le> granted s (sc, m)
     \<and> (window_grants sc m R tr \<noteq> [] \<longrightarrow> granted s0 (sc, m) + int (length (window_grants sc m R tr)) \<le> R)"

lemma system_inv_init:
  "inv s0 \<Longrightarrow> (\<And>j e. cache j = Some e \<Longrightarrow> C j (val e)) \<Longrightarrow> system_inv C s0 sc m R [] cache s0"
  by (simp add: system_inv_def window_grants_def won_versions_def)

lemma system_inv_step:
  assumes "system_inv C s0 sc m R tr cache s"
    and "do_call \<lparr>h_ClientStore = cs, h_DataStore = ds, h_Pub = pub\<rparr> p (cache, s) = Some (ev, p', cache', s')"
    and "\<And>x. version_at (edges s0 x) + int (length tr) < max_int64"
    and "call_ok C ev" and "\<And>j cc. ev = EvGet j (Inr cc) \<Longrightarrow> C j cc"
  shows "reply_ok C ev \<and> system_inv C s0 sc m R (tr @ [(i, ev)]) cache' s'"
proof -
  have inv: "inv s" and old: "version_at (edges s x) \<le> version_at (edges s0 x) + int (length tr)"
    and c: "cache j = Some e \<Longrightarrow> C j (val e)" and won: "version_at (edges s0 x) \<le> version_at (edges s x) \<and> sorted_wrt (<) (won_versions x tr)
      \<and> (\<forall>v \<in> set (won_versions x tr). version_at (edges s0 x) \<le> v \<and> v < version_at (edges s x))"
    for x j e
    using assms(1) unfolding system_inv_def by blast+
  have v: "version_at (edges s x) < max_int64" for x using old [of x] assms(3) [of x] by simp
  note step = call_step [where C = C, OF assms(2) inv v c assms(4,5)]
  have "version_at (edges s' x) \<le> version_at (edges s0 x) + int (length (tr @ [(i, ev)]))" for x
  proof -
    have "version_at (edges s' x) \<le> version_at (edges s x) + 1" using step by blast
    then show ?thesis using old [of x] by simp
  qed
  moreover have "version_at (edges s0 x) \<le> version_at (edges s' x) \<and> sorted_wrt (<) (won_versions x (tr @ [(i, ev)]))
      \<and> (\<forall>v \<in> set (won_versions x (tr @ [(i, ev)])). version_at (edges s0 x) \<le> v \<and> v < version_at (edges s' x))" for x
  proof -
    have x: "version_at (edges s x) \<le> version_at (edges s' x)"
      "\<forall>v \<in> set (won_version x ev). v = version_at (edges s x) \<and> v < version_at (edges s' x)" using step by blast+
    have "sorted_wrt (<) (won_version x ev)" by (cases "(x, ev)" rule: won_version.cases) auto
    then show ?thesis using won [of x] x by (fastforce simp: sorted_wrt_append)
  qed
  moreover have "granted s0 (sc, m) + int (length (window_grants sc m R (tr @ [(i, ev)]))) \<le> granted s' (sc, m)
      \<and> (window_grants sc m R (tr @ [(i, ev)]) \<noteq> [] \<longrightarrow>
           granted s0 (sc, m) + int (length (window_grants sc m R (tr @ [(i, ev)]))) \<le> R)"
  proof (cases "window_grant sc m R ev")
    case True
    then obtain clk n w where "ev = EvAcquire clk sc n w (True, None)" "n \<le> R" "epoch_minute (clk 0) = m"
      by (auto simp: window_grant_def)
    then have "granted s (sc, m) < R" "granted s' (sc, m) = granted s (sc, m) + 1"
      using step by (auto simp: grants_step_def)
    then show ?thesis using assms(1) True by (simp add: system_inv_def)
  next
    case False
    have "granted s (sc, m) \<le> granted s' (sc, m)" using step by (simp add: grants_step_def)
    then show ?thesis using assms(1) False by (simp add: system_inv_def)
  qed
  ultimately show ?thesis using step unfolding system_inv_def by blast
qed

text \<open>Any number of requests, each with its clock, in any interleaving.\<close>

lemma requests_sound:
  assumes run: "interleaved \<lparr>h_ClientStore = cs, h_DataStore = ds, h_Pub = pub\<rparr>
      (\<lambda>i. route_calls mux L (rc i) (rq i) (wr i), cache, s) tr (ps, cache', s')"
    and inv: "inv s" and ver: "\<And>x. version_at (edges s x) + int (length tr) \<le> max_int64"
    and cache: "\<And>j e. cache j = Some e \<Longrightarrow> C j (val e)" and get: "\<And>i j cc. (i, EvGet j (Inr cc)) \<in> set tr \<Longrightarrow> C j cc"
    and cfg: "\<And>j cc. C j cc \<Longrightarrow> config_range cc" and vals: "\<And>i. values_ok L C (rq i)"
    and now: "\<And>i. in_int64 (unix (clk_edge (clk_run (rc i))))"
  shows "system_inv C s sc m R tr cache' s' \<and>
    (\<forall>tr1 i ev tr2. tr = tr1 @ (i, ev) # tr2 \<longrightarrow> guarantee C (rc i) (rq i) (own i tr1) ev)"
proof -
  have "(\<lambda>(c, x). system_inv C s sc m R tr c x) (cache', s')
    \<and> (\<forall>i. obeys (reply_ok C) (guarantee C (rc i) (rq i)) (\<lambda>_ _. True) (ps i) (own i tr))
    \<and> (\<forall>tr1 i ev tr2. tr = tr1 @ (i, ev) # tr2 \<longrightarrow> guarantee C (rc i) (rq i) (own i tr1) ev)"
  proof (rule interleaved_sound [OF run, where I = "\<lambda>tr (c, x). system_inv C s sc m R tr c x"], goal_cases)
    case (1 i)
    show ?case by (rule route_obeys [OF cfg vals now])
  next
    case 2
    show ?case using system_inv_init [of s cache C, OF inv] cache by simp
  next
    case (3 tr1 i ev tr2 p p' st1 st2 hist)
    obtain c1 s1 c2 s2 where st: "st1 = (c1, s1)" "st2 = (c2, s2)" by (cases st1; cases st2)
    have "reply_ok C ev \<and> system_inv C s sc m R (tr1 @ [(i, ev)]) c2 s2"
    proof (rule system_inv_step)
      show "version_at (edges s x) + int (length tr1) < max_int64" for x using ver [of x] 3(1) by simp
      show "C j cc" if "ev = EvGet j (Inr cc)" for j cc using get 3(1) that by auto
    qed (use 3 st in \<open>auto simp: guarantee_def\<close>)
    then show ?case by (simp add: st)
  qed
  then show ?thesis by auto
qed

text \<open>What was published was allowed, and each limit, and each edge, bounds what was published.\<close>

lemma publisher_ok:
  assumes run: "interleaved \<lparr>h_ClientStore = cs, h_DataStore = ds, h_Pub = pub\<rparr>
      (\<lambda>i. route_calls mux L (rc i) (rq i) (wr i), cache, s) tr (ps, cache', s')"
    and "inv s" and "\<forall>x. version_at (edges s x) + int (length tr) \<le> max_int64"
    and "known_configs C cache tr" and "requests_ok L C rc rq"
  shows "system_inv C s sc m R tr cache' s' \<and>
    (\<forall>tr1 i ev tr2. tr = tr1 @ (i, ev) # tr2 \<longrightarrow> guarantee C (rc i) (rq i) (own i tr1) ev)"
  by (rule requests_sound [OF run]) (use assms in \<open>auto simp: known_configs_def requests_ok_def\<close>)

lemma published_after:
  assumes "\<forall>tr1 i ev tr2. tr = tr1 @ (i, ev) # tr2 \<longrightarrow> guarantee C (rc i) (rq i) (own i tr1) ev" and "i \<in> publishers tr"
  obtains cc tr1 where "set tr1 \<subseteq> set tr" and "C (request_client (rq i)) cc"
    and "client_granted (clk_run (rc i)) (request_client (rq i)) cc (own i tr1)"
    and "always_triggers cc \<Longrightarrow> trigger_granted (clk_run (rc i)) (request_client (rq i)) cc (own i tr1)"
proof -
  obtain ev where "(i, ev) \<in> set tr" "is_publish ev" using assms(2) by (auto simp: publishers_def)
  then obtain arn msg err where "(i, EvPublish arn msg err) \<in> set tr" by (cases ev) auto
  then obtain tr1 tr2 where tr: "tr = tr1 @ (i, EvPublish arn msg err) # tr2" by (meson split_list)
  with assms(1) have "publish_ok C (rc i) (rq i) (own i tr1) arn" by (simp add: guarantee_def)
  then show ?thesis using that [of tr1] tr by (auto simp: publish_ok_def)
qed

lemma window_bound:
  assumes "system_inv C s sc m R tr cache' s'" and "\<And>i. i \<in> S \<Longrightarrow> \<exists>ev. (i, ev) \<in> set tr \<and> window_grant sc m R ev"
  shows "int (card S) \<le> max 0 (R - granted s (sc, m))"
proof -
  have "card S \<le> length (window_grants sc m R tr)" using card_callers [of S, OF assms(2)] by (simp add: window_grants_def)
  then show ?thesis using assms(1) by (cases "window_grants sc m R tr") (auto simp: system_inv_def)
qed

lemma client_window:
  assumes "interleaved \<lparr>h_ClientStore = cs, h_DataStore = ds, h_Pub = pub\<rparr>
      (\<lambda>i. route_calls mux L (rc i) (rq i) (wr i), cache, s) tr (ps, cache', s')"
    and "inv s" and "\<forall>x. version_at (edges s x) + int (length tr) \<le> max_int64"
    and "known_configs C cache tr" and "requests_ok L C rc rq"
    and rate: "\<forall>cc. C c cc \<longrightarrow> 0 < ClientRPM cc \<and> ClientRPM cc \<le> R"
  shows "int (card {i \<in> publishers tr. request_client (rq i) = c \<and> epoch_minute (clk_client (clk_run (rc i)) 0) = m})
    \<le> max 0 (R - granted s (''CLIENT:'' @ c, m))"
proof -
  let ?S = "{i \<in> publishers tr. request_client (rq i) = c \<and> epoch_minute (clk_client (clk_run (rc i)) 0) = m}"
  note sound = publisher_ok [OF assms(1-5), of "''CLIENT:'' @ c" m R]
  have "\<exists>ev. (i, ev) \<in> set tr \<and> window_grant (''CLIENT:'' @ c) m R ev" if "i \<in> ?S" for i
  proof -
    from that have i: "i \<in> publishers tr" "request_client (rq i) = c" "epoch_minute (clk_client (clk_run (rc i)) 0) = m" by auto
    show ?thesis
      by (rule published_after [OF conjunct2 [OF sound] i(1)])
        (use i(2,3) rate in \<open>auto simp: client_granted_def dest!: granted_in_window [where R = R]\<close>)
  qed
  then show ?thesis by (rule window_bound [OF conjunct1 [OF sound], of ?S])
qed

lemma target_window:
  assumes "interleaved \<lparr>h_ClientStore = cs, h_DataStore = ds, h_Pub = pub\<rparr>
      (\<lambda>i. route_calls mux L (rc i) (rq i) (wr i), cache, s) tr (ps, cache', s')"
    and "inv s" and "\<forall>x. version_at (edges s x) + int (length tr) \<le> max_int64"
    and "known_configs C cache tr" and "requests_ok L C rc rq"
    and rate: "\<forall>cc. C c cc \<longrightarrow> always_triggers cc \<and> SNSArn (Target (Trigger cc)) = arn
      \<and> 0 < SNSRPM (Target (Trigger cc)) \<and> SNSRPM (Target (Trigger cc)) \<le> R"
  shows "int (card {i \<in> publishers tr. request_client (rq i) = c \<and> epoch_minute (clk_target (clk_run (rc i)) 0) = m})
    \<le> max 0 (R - granted s (''TARGET:'' @ c @ '':'' @ arn, m))"
proof -
  let ?S = "{i \<in> publishers tr. request_client (rq i) = c \<and> epoch_minute (clk_target (clk_run (rc i)) 0) = m}"
  let ?sc = "''TARGET:'' @ c @ '':'' @ arn"
  note sound = publisher_ok [OF assms(1-5), of ?sc m R]
  have "\<exists>ev. (i, ev) \<in> set tr \<and> window_grant ?sc m R ev" if "i \<in> ?S" for i
  proof -
    from that have i: "i \<in> publishers tr" "request_client (rq i) = c" "epoch_minute (clk_target (clk_run (rc i)) 0) = m" by auto
    show ?thesis
      by (rule published_after [OF conjunct2 [OF sound] i(1)])
        (use i(2,3) rate in \<open>auto simp: trigger_granted_def target_granted_def target_scope_def dest!: granted_in_window [where R = R]\<close>)
  qed
  then show ?thesis by (rule window_bound [OF conjunct1 [OF sound], of ?S])
qed

lemma publications_of_changes:
  assumes "interleaved \<lparr>h_ClientStore = cs, h_DataStore = ds, h_Pub = pub\<rparr>
      (\<lambda>i. route_calls mux L (rc i) (rq i) (wr i), cache, s) tr (ps, cache', s')"
    and "inv s" and "\<forall>x. version_at (edges s x) + int (length tr) \<le> max_int64"
    and "known_configs C cache tr" and "requests_ok L C rc rq"
    and trig: "\<forall>cc. C c cc \<longrightarrow> always_triggers cc \<and> ComputeKey (FieldExpr (Trigger cc)) = k"
  shows "\<exists>v. inj_on v {i \<in> publishers tr. request_client (rq i) = c}
    \<and> (\<forall>i \<in> publishers tr. request_client (rq i) = c \<longrightarrow>
         change_in c k (v i) (own i tr) \<and> version_at (edges s (c, k)) \<le> v i \<and> v i < version_at (edges s' (c, k)))"
proof -
  let ?S = "{i \<in> publishers tr. request_client (rq i) = c}"
  note sound = publisher_ok [OF assms(1-5)]
  have own_sub: "set (own i tr1) \<subseteq> set (own i tr)" if "set tr1 \<subseteq> set tr" for i tr1 using that by (auto simp: own_iff)
  have "\<exists>pv. change_in c k pv (own i tr)" if "i \<in> ?S" for i
  proof -
    from that have i: "i \<in> publishers tr" "request_client (rq i) = c" by auto
    show ?thesis
      by (rule published_after [OF conjunct2 [OF sound] i(1)])
        (use i(2) trig own_sub change_in_mono in \<open>metis (no_types, lifting) trigger_granted_def\<close>)
  qed
  then obtain v where v: "change_in c k (v i) (own i tr)" if "i \<in> ?S" for i by metis
  have won: "sorted_wrt (<) (won_versions (c, k) tr)"
    "\<And>x. x \<in> set (won_versions (c, k) tr) \<Longrightarrow> version_at (edges s (c, k)) \<le> x \<and> x < version_at (edges s' (c, k))"
    using conjunct1 [OF sound] unfolding system_inv_def by blast+
  have d: "distinct (won_versions (c, k) tr)" using won(1) by (simp add: strict_sorted_iff)
  have "inj_on v ?S"
  proof (rule inj_onI)
    fix i j
    assume "i \<in> ?S" "j \<in> ?S" "v i = v j"
    then show "i = j" using change_in_own [OF v [of i]] change_in_own [OF v [of j]] won_once [OF d] by metis
  qed
  moreover have "v i \<in> set (won_versions (c, k) tr)" if "i \<in> ?S" for i
    using change_in_own [OF v [OF that]] by (force simp: won_versions_def)
  ultimately show ?thesis using v won(2) by (intro exI [of _ v]) auto
qed

lemma publications_allowed:
  assumes run: "interleaved \<lparr>h_ClientStore = cs, h_DataStore = ds, h_Pub = pub\<rparr>
      (\<lambda>i. route_calls mux L (rc i) (rq i) (wr i), cache, s) tr (ps, cache', s')"
    and "inv s" and "\<forall>x. version_at (edges s x) + int (length tr) \<le> max_int64"
    and "known_configs C cache tr" and "requests_ok L C rc rq"
  shows "inv s' \<and> length (log s') \<le> length (log s) + card (publishers tr)
    \<and> (\<forall>i arn msg err. (i, EvPublish arn msg err) \<in> set tr \<longrightarrow>
         (\<exists>cc hist. own i tr = hist @ [EvPublish arn msg err] \<and> C (request_client (rq i)) cc
            \<and> Auth cc (request_client (rq i)) (request_key (rq i)) = None \<and> arn = SNSArn (Target (Trigger cc))))"
proof -
  note sound = publisher_ok [OF assms]
  have q: "\<forall>ev' \<in> set (own i tr1). \<not> is_publish ev'" if "tr = tr1 @ (i, ev) # tr2" for tr1 i ev tr2
    using conjunct2 [OF sound, THEN spec, of tr1, THEN spec, of i, THEN spec, of ev] that by (simp add: guarantee_def quiet_def)
  have "distinct (map fst (filter (\<lambda>x. is_publish (snd x)) tr))" using own_distinct [of tr is_publish] q by blast
  moreover have "publishers tr = set (map fst (filter (\<lambda>x. is_publish (snd x)) tr))" by (force simp: publishers_def)
  ultimately have "card (publishers tr) = length (filter (\<lambda>x. is_publish (snd x)) tr)" by (metis distinct_card length_map)
  then have "length (log s') \<le> length (log s) + card (publishers tr)" using interleaved_log [OF run] by simp
  moreover have "\<exists>cc hist. own i tr = hist @ [EvPublish arn msg err] \<and> C (request_client (rq i)) cc
            \<and> Auth cc (request_client (rq i)) (request_key (rq i)) = None \<and> arn = SNSArn (Target (Trigger cc))"
    if "(i, EvPublish arn msg err) \<in> set tr" for i arn msg err
  proof -
    from that obtain tr1 tr2 where tr: "tr = tr1 @ (i, EvPublish arn msg err) # tr2" by (meson split_list)
    have "own i tr2 = []" by (rule own_last [OF tr q]) auto
    then have "own i tr = own i tr1 @ [EvPublish arn msg err]" by (simp add: tr own_def)
    moreover have "publish_ok C (rc i) (rq i) (own i tr1) arn" using conjunct2 [OF sound] tr by (simp add: guarantee_def)
    ultimately show ?thesis by (auto simp: publish_ok_def)
  qed
  ultimately show ?thesis using conjunct1 [OF sound] unfolding system_inv_def by blast
qed

end

end
