(* ===== verification/Serving.thy ===== *)
theory Serving
  imports Server Concurrent_Requests
begin

text \<open>
  \<^verbatim>\<open>internal/api/app.go\<close> as a whole: the server that is built, the two ways to run it, and the requests it accepts, each
  served in its own goroutine while the lifecycle of \<open>Server\<close> goes on.
\<close>

section \<open>The entry points\<close>

record 's http_Server =
  srv_Addr :: string
  srv_Handler :: "'s Handler"
  ReadHeaderTimeout :: duration

definition new_Server :: "int \<Rightarrow> 's ClientStore \<Rightarrow> 's DataStore \<Rightarrow> 's Publisher \<Rightarrow> 's http_Server" where
  "new_Server port clientStore dataStore pub =
     \<lparr>srv_Addr = '':'' @ FormatInt port, srv_Handler = NewHandler clientStore dataStore pub,
      ReadHeaderTimeout = 10 * second\<rparr>"

text \<open>\<^verbatim>\<open>log.Fatal\<close> prints its argument and ends the process with status 1.\<close>

definition RunServer ::
    "('s http_Server \<Rightarrow> 's \<Rightarrow> go_error \<times> 's) \<Rightarrow> int \<Rightarrow> 's ClientStore \<Rightarrow> 's DataStore \<Rightarrow> 's Publisher \<Rightarrow> 's \<Rightarrow>
       (string \<times> int) \<times> 's" where
  "RunServer ListenAndServe port clientStore dataStore pub s =
     (case ListenAndServe (new_Server port clientStore dataStore pub) s of (err, s1) \<Rightarrow> ((error_text err, 1), s1))"

text \<open>The entry point for events from a topic is not implemented: it accepts the event and does nothing.\<close>

datatype SNSInboundEvent = SNSInboundEvent

definition RunSNSLambdaEntryPoint ::
    "SNSInboundEvent \<Rightarrow> 's ClientStore \<Rightarrow> 's DataStore \<Rightarrow> 's Publisher \<Rightarrow> 's \<Rightarrow> go_error option \<times> 's" where
  "RunSNSLambdaEntryPoint event clientStore edgeStore pub s = (None, s)"

section \<open>Requests of a running server\<close>

text \<open>
  The server with its connections: \<open>conns i\<close> is what is left to do of request \<open>i\<close>, the requests below \<open>accepted\<close> have been
  accepted, and those in \<open>answered\<close> have got their answer.
\<close>

record 's serving =
  life :: server
  accepted :: nat
  answered :: "nat set"
  conns :: "nat \<Rightarrow> ResponseWriter calls"
  shared :: "cfg_cache \<times> 's"

inductive serving_step :: "'s Handler \<Rightarrow> 's serving \<Rightarrow> 's serving \<Rightarrow> bool" for h where
  lives: "server_step (life x) l \<Longrightarrow> in_flight l = in_flight (life x) \<Longrightarrow> serving_step h x (x\<lparr>life := l\<rparr>)"
| accepts: "server_step (life x) l \<Longrightarrow> in_flight l = Suc (in_flight (life x)) \<Longrightarrow>
    serving_step h x (x\<lparr>life := l, accepted := Suc (accepted x)\<rparr>)"
| calls: "i < accepted x \<Longrightarrow> do_call h (conns x i) (shared x) = Some (ev, p, st) \<Longrightarrow>
    serving_step h x (x\<lparr>conns := (conns x)(i := p), shared := st\<rparr>)"
| answers: "i < accepted x \<Longrightarrow> i \<notin> answered x \<Longrightarrow> conns x i = Ret w \<Longrightarrow> server_step (life x) l \<Longrightarrow>
    Suc (in_flight l) = in_flight (life x) \<Longrightarrow> serving_step h x (x\<lparr>life := l, answered := insert i (answered x)\<rparr>)"

inductive_cases serving_stepE: "serving_step h x x'"

definition serving_init :: "(nat \<Rightarrow> ResponseWriter calls) \<Rightarrow> cfg_cache \<times> 's \<Rightarrow> 's serving" where
  "serving_init ps st = \<lparr>life = server_init, accepted = 0, answered = {}, conns = ps, shared = st\<rparr>"

definition serves :: "'s Handler \<Rightarrow> (nat \<Rightarrow> ResponseWriter calls) \<Rightarrow> cfg_cache \<times> 's \<Rightarrow> 's serving \<Rightarrow> bool" where
  "serves h ps st x \<longleftrightarrow> (serving_step h)\<^sup>*\<^sup>* (serving_init ps st) x"

section \<open>The invariant\<close>

definition serving_inv :: "'s Handler \<Rightarrow> (nat \<Rightarrow> ResponseWriter calls) \<Rightarrow> cfg_cache \<times> 's \<Rightarrow> 's serving \<Rightarrow> bool" where
  "serving_inv h ps st x \<longleftrightarrow>
     reachable (life x) \<and> answered x \<subseteq> {..<accepted x} \<and> in_flight (life x) + card (answered x) = accepted x
     \<and> (\<forall>i \<in> answered x. \<exists>w. conns x i = Ret w)
     \<and> (\<exists>tr. interleaved h (ps, st) tr (conns x, shared x) \<and> (\<forall>(i, ev) \<in> set tr. i < accepted x))"

lemma reachable_step: "reachable l \<Longrightarrow> server_step l l' \<Longrightarrow> reachable l'"
  unfolding reachable_def by (rule rtranclp.rtrancl_into_rtrancl)

lemma serving_inv_step:
  assumes "serving_step h x x'" and "serving_inv h ps st x"
  shows "serving_inv h ps st x'"
  using assms(1)
proof cases
  case (lives l)
  then show ?thesis using assms(2) by (auto simp: serving_inv_def intro: reachable_step)
next
  case (accepts l)
  then show ?thesis using assms(2) unfolding serving_inv_def by (fastforce intro: reachable_step)
next
  case (calls i ev p st1)
  obtain tr where tr: "interleaved h (ps, st) tr (conns x, shared x)" "\<forall>(i, ev) \<in> set tr. i < accepted x"
    using assms(2) unfolding serving_inv_def by blast
  have "interleaved h (ps, st) (tr @ [(i, ev)]) ((conns x)(i := p), st1)" by (rule one_call [OF tr(1) calls(3)])
  moreover have "\<forall>(j, e) \<in> set (tr @ [(i, ev)]). j < accepted x" using tr(2) calls(2) by auto
  ultimately have "\<exists>tr. interleaved h (ps, st) tr ((conns x)(i := p), st1) \<and> (\<forall>(j, e) \<in> set tr. j < accepted x)" by blast
  moreover have "\<exists>w. ((conns x)(i := p)) j = Ret w" if "j \<in> answered x" for j
    using assms(2) that calls(3) by (auto simp: serving_inv_def)
  ultimately show ?thesis using assms(2) unfolding serving_inv_def calls(1) by simp
next
  case (answers i w l)
  have "finite (answered x)" using assms(2) finite_subset unfolding serving_inv_def by blast
  then show ?thesis using assms(2) answers by (auto simp: serving_inv_def intro: reachable_step)
qed

lemma serves_inv: "serves h ps st x \<Longrightarrow> serving_inv h ps st x"
  unfolding serves_def
proof (induction rule: rtranclp_induct)
  case base
  show ?case by (auto simp: serving_inv_def serving_init_def reachable_def server_init_def intro!: exI [of _ "[]"] no_call)
qed (rule serving_inv_step)

text \<open>When no request is in flight, all that were accepted have their answer.\<close>

lemma idle_answered:
  assumes "serving_inv h ps st x" and "in_flight (life x) = 0" and "i < accepted x"
  shows "\<exists>w. conns x i = Ret w"
proof -
  have "answered x = {..<accepted x}" using assms(1,2) by (intro card_subset_eq) (auto simp: serving_inv_def)
  then show ?thesis using assms(1,3) by (auto simp: serving_inv_def)
qed

section \<open>Shutting down\<close>

text \<open>Once \<^verbatim>\<open>Shutdown\<close> was called it stays so, and nothing more is accepted.\<close>

lemma shutdown_step: "server_step l l' \<Longrightarrow> shutdown l \<Longrightarrow> shutdown l' \<and> in_flight l' \<le> in_flight l"
  by (induction rule: server_step.induct) auto

lemma serving_shutdown:
  assumes "(serving_step h)\<^sup>*\<^sup>* x x'" and "shutdown (life x)"
  shows "shutdown (life x') \<and> accepted x' = accepted x"
  using assms
proof (induction rule: rtranclp_induct)
  case (step y z)
  then show ?case by (auto elim!: serving_stepE dest: shutdown_step)
qed simp

text \<open>A request that was accepted can be run to its end.\<close>

lemma finish_calls:
  assumes "i < accepted x"
  shows "\<exists>w st. (serving_step h)\<^sup>*\<^sup>* x (x\<lparr>conns := (conns x)(i := Ret w), shared := st\<rparr>)"
  using assms
proof (induction "conns x i" arbitrary: x rule: do_call_induct [where h = h])
  case (Ret w)
  have "x\<lparr>conns := (conns x)(i := Ret w), shared := shared x\<rparr> = x" using Ret(1) by (simp add: fun_upd_idem)
  then show ?case by (metis rtranclp.rtrancl_refl)
next
  case call
  obtain ev p st where d: "do_call h (conns x i) (shared x) = Some (ev, p, st)" using do_call_Some [OF call(1)] by metis
  let ?y = "x\<lparr>conns := (conns x)(i := p), shared := st\<rparr>"
  have "\<exists>w st'. (serving_step h)\<^sup>*\<^sup>* ?y (?y\<lparr>conns := (conns ?y)(i := Ret w), shared := st'\<rparr>)"
    by (rule call(2) [of "shared x" ev ?y st]) (use call.prems d in simp_all)
  then obtain w st' where y: "(serving_step h)\<^sup>*\<^sup>* ?y (x\<lparr>conns := (conns x)(i := Ret w), shared := st'\<rparr>)" by auto
  show ?case using converse_rtranclp_into_rtranclp [OF calls [OF call.prems d] y] by blast
qed

lemma drain:
  assumes "serving_inv h ps st x" and "in_flight (life x) = n"
  shows "\<exists>x'. (serving_step h)\<^sup>*\<^sup>* x x' \<and> in_flight (life x') = 0"
  using assms
proof (induction n arbitrary: x)
  case (Suc n)
  have "answered x \<noteq> {..<accepted x}" using Suc.prems by (auto simp: serving_inv_def)
  then obtain i where i: "i < accepted x" "i \<notin> answered x" using Suc.prems(1) by (auto simp: serving_inv_def)
  obtain w st1 where run: "(serving_step h)\<^sup>*\<^sup>* x (x\<lparr>conns := (conns x)(i := Ret w), shared := st1\<rparr>)"
    using finish_calls [OF i(1)] by blast
  let ?y = "x\<lparr>conns := (conns x)(i := Ret w), shared := st1\<rparr>"
  let ?l = "(life x)\<lparr>in_flight := in_flight (life x) - 1\<rparr>"
  let ?z = "?y\<lparr>life := ?l, answered := insert i (answered x)\<rparr>"
  have "server_step (life ?y) ?l" using request_ends [of "life x"] Suc.prems(2) by simp
  then have "serving_step h ?y ?z" using answers [of i ?y w ?l h] i Suc.prems(2) by simp
  with run have xz: "(serving_step h)\<^sup>*\<^sup>* x ?z" by (rule rtranclp.rtrancl_into_rtrancl)
  then have "serving_inv h ps st ?z"
    using Suc.prems(1) by (induction rule: rtranclp_induct) (auto intro: serving_inv_step)
  from Suc.IH [OF this] obtain x' where "(serving_step h)\<^sup>*\<^sup>* ?z x'" "in_flight (life x') = 0" using Suc.prems(2) by auto
  then show ?case using rtranclp_trans [OF xz] by blast
qed blast

text \<open>The steps of an idle server that is shutting down are steps of its lifecycle only.\<close>

lemma idle_lives:
  assumes "server_step\<^sup>*\<^sup>* l l'" and "life x = l" and "shutdown l" and "in_flight l = 0"
  shows "(serving_step h)\<^sup>*\<^sup>* x (x\<lparr>life := l'\<rparr>) \<and> shutdown l' \<and> in_flight l' = 0"
  using assms
proof (induction rule: rtranclp_induct)
  case base
  have "x\<lparr>life := life x\<rparr> = x" by simp
  then show ?case using base by (metis rtranclp.rtrancl_refl)
next
  case (step l1 l2)
  then have IH: "(serving_step h)\<^sup>*\<^sup>* x (x\<lparr>life := l1\<rparr>)" "shutdown l1" "in_flight l1 = 0" by auto
  have l2: "shutdown l2" "in_flight l2 = 0" using shutdown_step [OF step(2) IH(2)] IH(3) by auto
  have "serving_step h (x\<lparr>life := l1\<rparr>) (x\<lparr>life := l1\<rparr>\<lparr>life := l2\<rparr>)"
    by (rule lives) (use step(2) l2 IH(3) in simp_all)
  then show ?case using rtranclp.rtrancl_into_rtrancl [OF IH(1)] l2 by simp
qed

lemma idle_shutdown:
  assumes "reachable l" and "shutdown l" and "in_flight l = 0"
  shows "\<exists>l'. server_step\<^sup>*\<^sup>* l l' \<and> serve_at l' = Serve_exited \<and> stop_at l' = Stop_exited"
proof -
  obtain l1 where l1: "server_step\<^sup>*\<^sup>* l l1" "serve_at l1 = Serve_exited" "in_flight l1 = 0" "stop_at l1 = stop_at l"
    using shutdown_reports [OF assms(1,2)] assms(3) by (cases "serve_at l = Serve_exited") auto
  show ?thesis
  proof (cases "stop_at l1 = Stop_exited")
    case False
    then have "stop_at l1 = Stop_shutting_down" using reachable_inv [OF assms(1)] assms(2) l1(4) by (auto simp: server_inv_def)
    then have "server_step l1 (l1\<lparr>stop_at := Stop_exited\<rparr>)" using shutdown_returns l1(3) by blast
    then show ?thesis using l1 by (intro exI [of _ "l1\<lparr>stop_at := Stop_exited\<rparr>"]) (auto intro: rtranclp.rtrancl_into_rtrancl)
  qed (use l1 in blast)
qed

lemma serving_drains:
  assumes x: "serves h ps st x" and sd: "shutdown (life x)"
  shows "\<exists>x'. (serving_step h)\<^sup>*\<^sup>* x x' \<and> (\<forall>i < accepted x. \<exists>w. conns x' i = Ret w)
    \<and> serve_at (life x') = Serve_exited \<and> stop_at (life x') = Stop_exited \<and> length (sent_values (life x')) = 1"
proof -
  obtain y where y: "(serving_step h)\<^sup>*\<^sup>* x y" "in_flight (life y) = 0" using drain [OF serves_inv [OF x]] by blast
  have inv: "serving_inv h ps st y" by (rule serves_inv) (use x y(1) in \<open>auto simp: serves_def\<close>)
  have s: "shutdown (life y)" "accepted y = accepted x" using serving_shutdown [OF y(1) sd] by auto
  have "reachable (life y)" using inv by (simp add: serving_inv_def)
  then obtain l where l: "server_step\<^sup>*\<^sup>* (life y) l" "serve_at l = Serve_exited" "stop_at l = Stop_exited"
    using idle_shutdown [OF _ s(1) y(2)] by blast
  then have "reachable l" using \<open>reachable (life y)\<close> unfolding reachable_def by (meson rtranclp_trans)
  then have "length (sent_values l) = 1" using reachable_inv l(2) by (simp add: server_inv_def)
  moreover have "(serving_step h)\<^sup>*\<^sup>* x (y\<lparr>life := l\<rparr>)"
    using idle_lives [OF l(1) refl s(1) y(2), of h] rtranclp_trans [OF y(1)] by blast
  moreover have "\<exists>w. conns y i = Ret w" if "i < accepted x" for i using idle_answered [OF inv y(2)] that s(2) by simp
  ultimately show ?thesis using l by (intro exI [of _ "y\<lparr>life := l\<rparr>"]) simp
qed

end
