(* ===== verification/Concurrent_Properties.thy ===== *)
theory Concurrent_Properties
  imports Serving Notify_Properties
begin

text \<open>
  What holds of requests that run at the same time, over collaborators that keep their contracts.
\<close>

section \<open>Requests whose configuration is cached\<close>

text \<open>They make no call for the configuration but the one to the cache.\<close>

fun warm_call :: "string \<Rightarrow> time \<Rightarrow> event \<Rightarrow> bool" where
  "warm_call c t (EvCacheGet j u r) \<longleftrightarrow> j = c \<and> u = t"
| "warm_call c t (EvCacheSet j cc d u) \<longleftrightarrow> False"
| "warm_call c t (EvGet j r) \<longleftrightarrow> False"
| "warm_call c t ev \<longleftrightarrow> True"

definition cache_hit :: "event \<Rightarrow> bool" where
  "cache_hit ev \<longleftrightarrow> (\<forall>j u. ev \<noteq> EvCacheGet j u None)"

abbreviation "warm c t \<equiv> obeys cache_hit (\<lambda>_. warm_call c t) (\<lambda>_ _. True)"

lemma warm_and_then: "(\<And>hist. warm c t p hist) \<Longrightarrow> (\<And>x hist. warm c t (f x) hist) \<Longrightarrow> warm c t (and_then p f) hist"
  unfolding obeys_and_then by (rule obeys_mono)

lemma warm_requests:
  "request_client r = c \<Longrightarrow> clk_cache clk 0 = t \<Longrightarrow> warm c t (route_calls mux L clk r w) []"
proof -
  have gate: "warm c t (gate_calls clk sc rpm msg) hist" for clk sc rpm msg hist by (simp add: gate_calls_def)
  have target: "warm c t (target_calls clk cl cc a g) hist" for clk cl cc a g hist by (auto simp: target_calls_def)
  have flip: "warm c t (flip_calls L now cl k flap ver e) hist" for now cl k flap ver e hist
    by (auto simp: flip_calls_def Let_def split: option.splits prod.splits)
  have loaded: "warm c t (loaded_calls L now cl k v flap p l) hist" for now cl k v flap p l hist
    by (auto simp: loaded_calls_def flip split: prod.splits option.splits sum.splits)
  have edge: "warm c t (edge_calls L clk cl cc p sk v l) hist" for clk cl cc p sk v l hist
    unfolding edge_calls_def by (intro warm_and_then loaded) (auto intro: target)
  have trigger: "warm c t (trigger_calls L clk cl cc p) hist" for clk cl cc p hist
    by (auto simp: trigger_calls_def Let_def target edge split: sum.splits option.splits)
  have run: "warm c t (run_calls L clk cl ip cc p) hist" for clk cl ip cc p hist
    unfolding run_calls_def by (intro warm_and_then gate) (auto split: option.splits intro!: warm_and_then gate trigger)
  have switch: "warm c t (switch_calls L arn p w r) hist" for arn p w r hist
    by (auto simp: switch_calls_def publish_calls_def split: prod.splits option.splits Action.splits sum.splits)
  have body: "warm c t (body_calls L clk cl cc r w) hist" for clk cl cc r w hist
    by (auto simp: body_calls_def intro!: warm_and_then run switch split: prod.splits option.splits)
  assume "request_client r = c" "clk_cache clk 0 = t"
  then show ?thesis
    by (auto simp: route_calls_def notify_calls_def request_client_def Let_def config_calls_def cache_hit_def body split: sum.splits option.splits)
qed

lemma warm_run:
  assumes run: "interleaved h (\<lambda>i. route_calls mux L (rc i) (rq i) (wr i), cache, s) tr (ps, cache', s')"
    and "\<And>i. request_client (rq i) = c" and "\<And>i. clk_cache (rc i) 0 = t" and hit: "TTL_Get cache c t = Some cc"
  shows "cache' = cache \<and> (\<forall>i j r. (i, EvGet j r) \<notin> set tr)"
proof -
  have "fst (cache', s') = cache \<and> (\<forall>i. obeys cache_hit (\<lambda>_. warm_call c t) (\<lambda>_ _. True) (ps i) (own i tr))
      \<and> (\<forall>tr1 i ev tr2. tr = tr1 @ (i, ev) # tr2 \<longrightarrow> warm_call c t ev)"
  proof (rule interleaved_sound [OF run, where I = "\<lambda>_ st. fst st = cache"], goal_cases)
    case (1 i)
    show ?case by (rule warm_requests) (rule assms)+
  next
    case (3 tr1 i ev tr2 p p' st1 st2 hist)
    then show ?case using hit by (cases p; cases st1) (auto simp: cache_hit_def Let_def split: prod.splits)
  qed simp
  then show ?thesis by (metis fst_conv split_list warm_call.simps(3))
qed

text \<open>
  Two requests of one client: the second asks the cache, then the first runs to its end, then the second.
\<close>

definition warm_cache :: cfg_cache where
  "warm_cache = TTL_Set NewTTL ''c'' sample_config (300 * second) second"

abbreviation "race_requests \<equiv> \<lambda>i :: nat. route_calls (\<lambda>_ w. w) ref_libs (ref_req_clock 1) ref_request ref_writer"

lemma warm_load:
  "LoadCachedClientConfig (clk_cache (ref_req_clock 1)) ref_clients ''c'' (warm_cache, client_world)
     = (Inr sample_config, warm_cache, client_world)"
  by (simp add: LoadCachedClientConfig_def warm_cache_def ref_req_clock_def TTL_Get_Set_same second_def)

lemma ref_message_result:
  "marshals ref_libs (ref_payload ''a'') (EdgeTriggeredForward, 202, None, None)"
  "messages ref_libs sample_config (ref_payload ''a'') (EdgeTriggeredForward, 202, None, None) = [(''arn'', ''{a}'')]"
  by (simp_all add: marshals_def messages_def to_publish_def status_body_def ref_libs_def ref_marshal_json_def ref_payload_def
      sample_config_def)

lemma first_request:
  "\<exists>w s. handleNotify ref_libs (ref_req_clock 1) ref_handler ref_request ref_writer (warm_cache, client_world) = (w, warm_cache, s)
     \<and> sent s = [(''arn'', ''{a}'')]"
proof -
  obtain V where spec: "spec_run ref_libs (ref_clock 1) ''c'' ''1.2.3.4'' sample_config (ref_payload ''a'')
        (ref_edges client_world, ref_granted client_world) = ((EdgeTriggeredForward, 202, None, None), V)"
    using ref_spec_run by blast
  note n = notify_system.notify_refines [OF refn.notify_system_axioms, of client_world ref_writer ref_request "ref_req_clock 1" warm_cache
      sample_config _ _ "''{a}''" ref_libs "ref_payload ''a''", unfolded ref_request_simps(1-3),
      OF client_world_ok(1,2) ref_writer_fresh(1) ref_request_simps(4) warm_load ref_auth ref_body]
  from n [OF _ ref_unmarshal sample_config_range _ ref_trigger_ok _ _ ref_message_result(1), of V] spec client_world_ok(3) show ?thesis
    by (simp add: ref_req_clock_def ref_clock_def unix_def second_def in_int64_def min_int64_def max_int64_def
        ValidString_one client_world_ok(5) ref_message_result(2)) blast
qed

definition race :: "trace \<Rightarrow> (nat \<Rightarrow> ResponseWriter calls) \<Rightarrow> world \<Rightarrow> bool" where
  "race tr ps s \<longleftrightarrow>
     interleaved ref_handler (race_requests, warm_cache, client_world) tr (ps, warm_cache, s) \<and> publishers tr \<noteq> {} \<and> length tr \<le> 19"

interpretation refc: concurrent_system ref_store ref_edges ref_granted ref_inv w_up ref_clients sent "NewSNS ref_sns"
  by (rule concurrent_system.intro [OF refn.notify_system_axioms ref.store.data_store_axioms])

lemma race_cached:
  "interleaved ref_handler (race_requests, warm_cache, client_world) tr (ps, cache, s) \<Longrightarrow>
     cache = warm_cache \<and> (\<forall>i j r. (i, EvGet j r) \<notin> set tr)"
  by (erule warm_run [where c = "''c''" and t = second and cc = sample_config])
    (simp_all add: ref_request_simps ref_req_clock_def warm_cache_def TTL_Get_Set_same second_def)

lemma race_exists: "\<exists>tr ps s. race tr ps s"
proof -
  let ?run = "interleaved ref_handler (race_requests, warm_cache, client_world)"
  let ?st = "(warm_cache, client_world)"
  have post: "race_requests i \<noteq> Ret w" for i w
    by (simp add: route_calls_def ref_request_simps(6) notify_calls_def ref_request_simps(4) Let_def config_calls_def)
  obtain ev p st1 where d: "do_call ref_handler (race_requests 1) ?st = Some (ev, p, st1)"
    using do_call_Some [OF post] by metis
  have st1: "st1 = ?st" using d by (auto simp: route_calls_def ref_request_simps(6) notify_calls_def ref_request_simps(4) Let_def config_calls_def)
  from one_call [OF no_call d] have r1: "?run [(1, ev)] (race_requests(1 := p), ?st)" by (simp add: st1)
  obtain w s where h: "handleNotify ref_libs (ref_req_clock 1) ref_handler ref_request ref_writer ?st = (w, warm_cache, s)"
    and sent: "sent s = [(''arn'', ''{a}'')]" using first_request by blast
  obtain es where r2: "?run ([(1, ev)] @ map (Pair 0) es) ((race_requests(1 := p))(0 := Ret w), warm_cache, s)"
    using interleaved_exec [OF r1, of 0] h by (auto simp: exec_route Router_def ref_request_simps(6))
  obtain w' c' s' where x: "exec ref_handler p (warm_cache, s) = (w', c', s')" by (metis surj_pair)
  obtain es' where r3: "?run (([(1, ev)] @ map (Pair 0) es) @ map (Pair 1) es') ((race_requests(1 := p, 0 := Ret w))(1 := Ret w'), c', s')"
    using interleaved_exec [OF r2, of 1] x by auto
  have "length (own 0 ([(1, ev)] @ map (Pair 0) es)) \<le> 9" "length (own 1 (([(1, ev)] @ map (Pair 0) es) @ map (Pair 1) es')) \<le> 9"
    using interleaved_calls_le [OF r2 route_calls_le, of 0] interleaved_calls_le [OF r3 route_calls_le, of 1] by auto
  then have len: "length (([(1, ev)] @ map (Pair 0) es) @ map (Pair 1) es') \<le> 19"
    by (simp add: own_def filter_map o_def)
  define t2 :: trace where "t2 = [(1, ev)] @ map (Pair 0) es"
  have "length (sent s) \<le> length (sent client_world) + length (filter (\<lambda>x. is_publish (snd x)) t2)"
    by (rule notify_stores.interleaved_log [OF refn.notify_stores_axioms r2 [folded t2_def]])
  then have "filter (\<lambda>x. is_publish (snd x)) t2 \<noteq> []" using sent client_world_ok(5) by auto
  then obtain y where "y \<in> set t2" "is_publish (snd y)" by (auto simp: filter_empty_conv)
  then have "fst y \<in> publishers (([(1, ev)] @ map (Pair 0) es) @ map (Pair 1) es')"
    unfolding publishers_def t2_def by (intro CollectI exI [of _ "snd y"]) auto
  then have "publishers (([(1, ev)] @ map (Pair 0) es) @ map (Pair 1) es') \<noteq> {}" by (metis empty_iff)
  with r3 len have "race (([(1, ev)] @ map (Pair 0) es) @ map (Pair 1) es') ((race_requests(1 := p, 0 := Ret w))(1 := Ret w')) s'"
    unfolding race_def using conjunct1 [OF race_cached [OF r3]] by (intro conjI) simp_all
  then show ?thesis by (intro exI)
qed

lemma race_hyps:
  assumes "race tr ps s"
  shows "interleaved ref_handler (race_requests, warm_cache, client_world) tr (ps, warm_cache, s)"
    "\<forall>x. version_at (ref_edges client_world x) + int (length tr) \<le> max_int64"
    "known_configs (\<lambda>_ cc. cc = sample_config) warm_cache tr"
    "requests_ok ref_libs (\<lambda>_ cc. cc = sample_config) (\<lambda>_. ref_req_clock 1) (\<lambda>_. ref_request)"
proof -
  show run: "interleaved ref_handler (race_requests, warm_cache, client_world) tr (ps, warm_cache, s)"
    and "\<forall>x. version_at (ref_edges client_world x) + int (length tr) \<le> max_int64"
    using assms by (simp_all add: race_def client_world_ok(3) max_int64_def)
  show "known_configs (\<lambda>_ cc. cc = sample_config) warm_cache tr"
    using race_cached [OF run] sample_config_range
    by (auto simp: known_configs_def warm_cache_def TTL_Set_def NewTTL_def split: if_splits)
  show "requests_ok ref_libs (\<lambda>_ cc. cc = sample_config) (\<lambda>_. ref_req_clock 1) (\<lambda>_. ref_request)"
    using ref_trigger_ok [of "''a''"] ValidString_one
    by (auto simp: requests_ok_def values_ok_def ref_body ref_unmarshal trigger_ok_def ref_req_clock_def ref_clock_def unix_def
        second_def in_int64_def min_int64_def max_int64_def)
qed

section \<open>Properties\<close>

text \<open>
  C22: requests cannot hold each other up.  In any interleaving of any number of requests, over
  any collaborators, a request has made at most nine calls, and from there it can always be run to its end, with an answer.
\<close>

theorem requests_terminate:
  assumes "interleaved h (\<lambda>i. route_calls mux L (rc i) (rq i) (wr i), st) tr (ps, st')"
  shows "length (own i tr) \<le> 9
    \<and> (\<exists>evs w st''. interleaved h (\<lambda>i. route_calls mux L (rc i) (rq i) (wr i), st) (tr @ map (Pair i) evs) (ps(i := Ret w), st'')
         \<and> length (own i tr) + length evs \<le> 9)"
  by (rule request_finishes [OF assms route_calls_le])

theorem requests_terminate_witness:
  "\<exists>evs w st. interleaved ref_handler (race_requests, NewTTL, client_world) ([] @ map (Pair 3) evs) (race_requests(3 := Ret w), st)
     \<and> length (own 3 []) + length evs \<le> 9"
  using requests_terminate [OF no_call [of ref_handler "(race_requests, NewTTL, client_world)"], of 3] by blast

text \<open>
  C13: whatever the interleaving of the requests of all clients, of those of client \<open>c\<close> whose client limit is taken from
  minute \<open>m\<close> at most as many publish as that minute still had to grant.
\<close>

theorem concurrent_client_limit:
  assumes "concurrent_system ds edges granted Inv up cs log pub"
    and "interleaved \<lparr>h_ClientStore = cs, h_DataStore = ds, h_Pub = pub\<rparr>
      (\<lambda>i. route_calls mux L (rc i) (rq i) (wr i), cache, s) tr (ps, cache', s')"
    and "Inv s" and "\<forall>x. version_at (edges s x) + int (length tr) \<le> max_int64"
    and "known_configs C cache tr" and "requests_ok L C rc rq"
    and "\<forall>cc. C c cc \<longrightarrow> 0 < ClientRPM cc \<and> ClientRPM cc \<le> R"
  shows "int (card {i \<in> publishers tr. request_client (rq i) = c \<and> epoch_minute (clk_client (clk_run (rc i)) 0) = m})
    \<le> max 0 (R - granted s (''CLIENT:'' @ c, m))"
  by (rule concurrent_system.client_window [OF assms])

theorem concurrent_client_limit_witness:
  "\<exists>tr ps s. race tr ps s \<and> int (card {i \<in> publishers tr. request_client ref_request = ''c'' \<and> epoch_minute second = 0}) \<le> 2"
proof -
  obtain tr ps s where r: "race tr ps s" using race_exists by blast
  note h = race_hyps [OF r]
  have "int (card {i \<in> publishers tr. request_client ref_request = ''c'' \<and> epoch_minute (clk_client (clk_run (ref_req_clock 1)) 0) = 0})
      \<le> max 0 (2 - ref_granted client_world (''CLIENT:'' @ ''c'', 0))"
    by (rule concurrent_client_limit [OF refc.concurrent_system_axioms, OF h(1), OF client_world_ok(1) h(2,3,4)]) (simp add: sample_config_def)
  then have "int (card {i \<in> publishers tr. request_client ref_request = ''c'' \<and> epoch_minute second = 0}) \<le> 2"
    unfolding client_world_ok(4) by (simp add: ref_req_clock_def ref_clock_def)
  then show ?thesis using r by blast
qed

text \<open>
  C14: the limit of a topic holds too, for a client whose configurations have no passthrough rule and a trigger (so that
  all it publishes comes from the trigger).  Whatever the interleaving of the requests of all clients, of those of client \<open>c\<close>
  whose target limit is taken from minute \<open>m\<close> at most as many publish as that minute still had to grant for the topic.
\<close>

theorem concurrent_target_limit:
  assumes "concurrent_system ds edges granted Inv up cs log pub"
    and "interleaved \<lparr>h_ClientStore = cs, h_DataStore = ds, h_Pub = pub\<rparr>
      (\<lambda>i. route_calls mux L (rc i) (rq i) (wr i), cache, s) tr (ps, cache', s')"
    and "Inv s" and "\<forall>x. version_at (edges s x) + int (length tr) \<le> max_int64"
    and "known_configs C cache tr" and "requests_ok L C rc rq"
    and "\<forall>cc. C c cc \<longrightarrow> always_triggers cc \<and> SNSArn (Target (Trigger cc)) = arn
      \<and> 0 < SNSRPM (Target (Trigger cc)) \<and> SNSRPM (Target (Trigger cc)) \<le> R"
  shows "int (card {i \<in> publishers tr. request_client (rq i) = c \<and> epoch_minute (clk_target (clk_run (rc i)) 0) = m})
    \<le> max 0 (R - granted s (''TARGET:'' @ c @ '':'' @ arn, m))"
  by (rule concurrent_system.target_window [OF assms])

theorem concurrent_target_limit_witness:
  "\<exists>tr ps s. race tr ps s \<and> int (card {i \<in> publishers tr. request_client ref_request = ''c'' \<and> epoch_minute second = 0}) \<le> 1"
proof -
  obtain tr ps s where r: "race tr ps s" using race_exists by blast
  note h = race_hyps [OF r]
  have "int (card {i \<in> publishers tr. request_client ref_request = ''c'' \<and> epoch_minute (clk_target (clk_run (ref_req_clock 1)) 0) = 0})
      \<le> max 0 (1 - ref_granted client_world (''TARGET:'' @ ''c'' @ '':'' @ ''arn'', 0))"
    by (rule concurrent_target_limit [OF refc.concurrent_system_axioms, OF h(1), OF client_world_ok(1) h(2,3,4)])
      (simp add: sample_config_def always_triggers_def)
  then have "int (card {i \<in> publishers tr. request_client ref_request = ''c'' \<and> epoch_minute second = 0}) \<le> 1"
    unfolding client_world_ok(4) by (simp add: ref_req_clock_def ref_clock_def)
  then show ?thesis using r by blast
qed

text \<open>
  C7: no change of a value is notified twice, however many requests report it at the same time.  For a client whose
  configurations have no passthrough rule and one trigger expression (so that it publishes nothing but edges and
  aggregates), every request that publishes has itself made one change of the edge: it loaded the edge, its update of the
  loaded version was accepted, and the value it wrote is not the one it had loaded.  In any interleaving, and whatever
  fails, no two publishing requests have made the same change: the versions \<open>v i\<close> they replaced are different, and all
  lie between the versions the edge had before and after.
\<close>

theorem concurrent_change_published_once:
  assumes "concurrent_system ds edges granted Inv up cs log pub"
    and "interleaved \<lparr>h_ClientStore = cs, h_DataStore = ds, h_Pub = pub\<rparr>
      (\<lambda>i. route_calls mux L (rc i) (rq i) (wr i), cache, s) tr (ps, cache', s')"
    and "Inv s" and "\<forall>x. version_at (edges s x) + int (length tr) \<le> max_int64"
    and "known_configs C cache tr" and "requests_ok L C rc rq"
    and "\<forall>cc. C c cc \<longrightarrow> always_triggers cc \<and> ComputeKey (FieldExpr (Trigger cc)) = k"
  shows "\<exists>v. inj_on v {i \<in> publishers tr. request_client (rq i) = c}
    \<and> (\<forall>i \<in> publishers tr. request_client (rq i) = c \<longrightarrow>
         change_in c k (v i) (own i tr) \<and> version_at (edges s (c, k)) \<le> v i \<and> v i < version_at (edges s' (c, k)))"
  by (rule concurrent_system.publications_of_changes [OF assms])

theorem concurrent_change_published_once_witness:
  "\<exists>tr ps s v. race tr ps s \<and> publishers tr \<noteq> {} \<and> inj_on v (publishers tr)
     \<and> (\<forall>i \<in> publishers tr. change_in ''c'' (ComputeKey ''v'') (v i) (own i tr))"
proof -
  obtain tr ps s where r: "race tr ps s" using race_exists by blast
  note h = race_hyps [OF r]
  have "\<exists>v. inj_on v {i \<in> publishers tr. request_client ref_request = ''c''}
      \<and> (\<forall>i \<in> publishers tr. request_client ref_request = ''c'' \<longrightarrow>
           change_in ''c'' (ComputeKey ''v'') (v i) (own i tr) \<and> version_at (ref_edges client_world (''c'', ComputeKey ''v'')) \<le> v i
           \<and> v i < version_at (ref_edges s (''c'', ComputeKey ''v'')))"
    by (rule concurrent_change_published_once [OF refc.concurrent_system_axioms, OF h(1), OF client_world_ok(1) h(2,3,4)])
      (simp add: sample_config_def always_triggers_def)
  then obtain v where "inj_on v (publishers tr)" "\<forall>i \<in> publishers tr. change_in ''c'' (ComputeKey ''v'') (v i) (own i tr)"
    by (auto simp: ref_request_simps)
  then show ?thesis using r unfolding race_def by blast
qed

text \<open>
  C9: whatever the interleaving and whatever fails, the store keeps its invariant, the topics receive at most one message
  per publishing request, and a publication is the last call of a request whose client has a configuration, whose key is
  right, and goes to the topic of that client.
\<close>

theorem concurrent_requests_safe:
  assumes "concurrent_system ds edges granted Inv up cs log pub"
    and "interleaved \<lparr>h_ClientStore = cs, h_DataStore = ds, h_Pub = pub\<rparr>
      (\<lambda>i. route_calls mux L (rc i) (rq i) (wr i), cache, s) tr (ps, cache', s')"
    and "Inv s" and "\<forall>x. version_at (edges s x) + int (length tr) \<le> max_int64"
    and "known_configs C cache tr" and "requests_ok L C rc rq"
  shows "Inv s' \<and> length (log s') \<le> length (log s) + card (publishers tr)
    \<and> (\<forall>i arn msg err. (i, EvPublish arn msg err) \<in> set tr \<longrightarrow>
         (\<exists>cc hist. own i tr = hist @ [EvPublish arn msg err] \<and> C (request_client (rq i)) cc
            \<and> Auth cc (request_client (rq i)) (request_key (rq i)) = None \<and> arn = SNSArn (Target (Trigger cc))))"
  by (rule concurrent_system.publications_allowed [OF assms])

theorem concurrent_requests_safe_witness:
  "\<exists>tr ps s. race tr ps s \<and> ref_inv s \<and> length (sent s) \<le> card (publishers tr)"
proof -
  obtain tr ps s where r: "race tr ps s" using race_exists by blast
  note h = race_hyps [OF r]
  note safe = concurrent_requests_safe [OF refc.concurrent_system_axioms, OF h(1), OF client_world_ok(1) h(2,3,4)]
  have "length (sent s) \<le> card (publishers tr)"
    using conjunct1 [OF conjunct2 [OF safe]] unfolding client_world_ok(5) by (simp only: list.size add_0)
  with conjunct1 [OF safe] r show ?thesis by blast
qed

section \<open>A server that is running\<close>

text \<open>A server that has accepted a request and is then told to stop.\<close>

definition stopping :: "world serving" where
  "stopping = (serving_init race_requests (NewTTL, client_world))
     \<lparr>life := server_init\<lparr>serve_at := Serve_listening, stop_at := Stop_shutting_down, shutdown := True, in_flight := 1\<rparr>,
      accepted := 1\<rparr>"

lemma stopping_serves: "serves ref_handler race_requests (NewTTL, client_world) stopping"
proof -
  let ?x = "serving_init race_requests (NewTTL, client_world)"
  let ?l1 = "server_init\<lparr>serve_at := Serve_listening\<rparr>"
  let ?l2 = "?l1\<lparr>in_flight := 1\<rparr>"
  let ?l3 = "?l2\<lparr>stop_at := Stop_signalled\<rparr>"
  let ?l4 = "?l3\<lparr>stop_at := Stop_shutting_down, shutdown := True\<rparr>"
  have l: "server_step server_init ?l1" "server_step ?l1 ?l2" "server_step ?l2 ?l3" "server_step ?l3 ?l4"
    using listen [of server_init] accept [of ?l1] receive_stop [of ?l2] call_shutdown [of ?l3] by (simp_all add: server_init_def)
  have "serving_step ref_handler ?x (?x\<lparr>life := ?l1\<rparr>)" by (rule lives) (use l in \<open>simp_all add: serving_init_def\<close>)
  moreover have "serving_step ref_handler (?x\<lparr>life := ?l1\<rparr>) (?x\<lparr>life := ?l2, accepted := 1\<rparr>)"
    using accepts [of "?x\<lparr>life := ?l1\<rparr>" ?l2 ref_handler] l by (simp add: serving_init_def server_init_def)
  moreover have "serving_step ref_handler (?x\<lparr>life := ?l2, accepted := 1\<rparr>) (?x\<lparr>life := ?l3, accepted := 1\<rparr>)"
    using lives [of "?x\<lparr>life := ?l2, accepted := 1\<rparr>" ?l3 ref_handler] l by (simp add: serving_init_def server_init_def)
  moreover have "serving_step ref_handler (?x\<lparr>life := ?l3, accepted := 1\<rparr>) stopping"
    using lives [of "?x\<lparr>life := ?l3, accepted := 1\<rparr>" ?l4 ref_handler] l
    by (simp add: serving_init_def server_init_def stopping_def)
  ultimately show ?thesis unfolding serves_def by (meson converse_rtranclp_into_rtranclp rtranclp.rtrancl_refl)
qed

text \<open>
  C29: a server that was told to stop accepts nothing more, and it can always finish gracefully: there is a continuation in
  which every request it had accepted gets its answer, \<^verbatim>\<open>Shutdown\<close> returns because nothing is in flight any more,
  serving ends and the caller is told exactly once.
\<close>

theorem stopped_server_drains:
  assumes "serves h (\<lambda>i. route_calls mux L (rc i) (rq i) (wr i)) st x" and "shutdown (life x)"
  shows "(\<forall>x'. (serving_step h)\<^sup>*\<^sup>* x x' \<longrightarrow> accepted x' = accepted x)
    \<and> (\<exists>x'. (serving_step h)\<^sup>*\<^sup>* x x' \<and> (\<forall>i < accepted x. \<exists>w. conns x' i = Ret w)
         \<and> serve_at (life x') = Serve_exited \<and> stop_at (life x') = Stop_exited \<and> length (sent_values (life x')) = 1)"
  using serving_drains [OF assms] serving_shutdown [OF _ assms(2)] by blast

theorem stopped_server_drains_witness:
  "\<exists>x'. (serving_step ref_handler)\<^sup>*\<^sup>* stopping x' \<and> (\<exists>w. conns x' 0 = Ret w) \<and> length (sent_values (life x')) = 1"
proof -
  have "shutdown (life stopping)" "accepted stopping = 1" by (simp_all add: stopping_def)
  with stopped_server_drains [OF stopping_serves] show ?thesis by (metis less_one)
qed

end
