(* ===== verification/Spec2Isabelle.thy ===== *)
theory Spec2Isabelle
  imports Errors Edge_Properties Flow_Properties Api_Properties Concurrent_Properties
begin

text \<open>
  \<^bold>\<open>enoti\<close> receives notifications over HTTP or from a queue, decides for each whether it is news, and forwards
  the news to an SNS topic.  This development models the Go program under \<^verbatim>\<open>src/\<close> and proves what it promises.

  \<^bold>\<open>The program and its parts.\<close>  A request names a client and its key.  The handler (\<^verbatim>\<open>internal/api\<close>, or
  \<^verbatim>\<open>cmd/lambda-sqs\<close> for a queue) reads the client's configuration through a cache, authenticates it, and runs the
  pipeline \<^verbatim>\<open>Run\<close> (\<^verbatim>\<open>internal/flow/flow.go\<close>): limits per address and client, the passthrough rule, the
  evaluation of the trigger field, and the limit per target.  The evaluation (\<^verbatim>\<open>edge_flap.go\<close>) compares the observed value with
  the stored edge of its scope, counts the flips of a window, and suppresses, forwards or aggregates.  Edges, rate
  windows and configurations live in a store (\<^verbatim>\<open>internal/ports\<close>), which is DynamoDB or Redis
  (\<^verbatim>\<open>internal/backends\<close>) as the environment selects; messages leave through \<^verbatim>\<open>internal/pub\<close>.

  \<^bold>\<open>How Go is modelled.\<close>  Strings and byte slices are \<^typ>\<open>string\<close>.  Integers are \<^typ>\<open>int\<close> with the wrap-around of 64 bits
  written out (\<open>add64\<close>, \<open>sub64\<close>), the FNV hash works on 32-bit words.  Times are nanoseconds; every reading of the
  clock is an argument, numbered where a function reads it more than once.  Errors are values of \<open>go_error\<close>, nil is
  \<^const>\<open>None\<close>, a process exit is the result \<^const>\<open>None\<close>.  State is passed explicitly; a store is a record of operations
  on a state of any type.  Packages outside the repository are records of functions (\<open>Libs\<close> for JMESPath, JSON and zstd,
  \<open>DynamoDB\<close>, \<open>AvCodec\<close>, \<open>Redis\<close>, \<open>JsonCodec\<close>, \<open>SnsClient\<close>, \<open>StdJson\<close>, \<open>Services\<close>), and what their documentation
  promises for the calls made here are the assumptions of locales.  What is used of Go's standard library is modelled.

  \<^bold>\<open>The theories, from the bottom up.\<close>

  \<^item> \<open>Prelude\<close>, \<open>Strconv\<close>, \<open>Utf8\<close>, \<open>Base64\<close>, \<open>Go_Strings\<close>: machine integers, times and errors, and the parts of the
    standard library in use, with their round trips.
  \<^item> \<open>Types\<close>, \<open>Errors\<close> (\<^verbatim>\<open>internal/types\<close>), \<open>Expressions\<close> (\<^verbatim>\<open>common.go\<close>, \<^verbatim>\<open>jmes.go\<close>, \<^verbatim>\<open>passthrough.go\<close>),
    \<open>TTL_Cache\<close> (\<^verbatim>\<open>ttl.go\<close>): the structs, validation, error values, expressions and the cache.
  \<^item> \<open>Ports\<close> (\<^verbatim>\<open>internal/ports\<close>): the interfaces, and their contracts as locales.  \<open>seq_data_store\<close> is what a store
    does for callers one after the other; \<open>data_store\<close> adds that stale versions are refused; \<open>client_store\<close> is the
    contract for configurations.  Each speaks of abstract edges, grants or configurations, and of errors at any call; \<open>up\<close>
    is a state in which the service answers.
  \<^item> \<open>Edge_Flap\<close>, \<open>Edge_Runs\<close> (\<^verbatim>\<open>edge_flap.go\<close>): \<open>EvaluateEdgeAndFlap\<close> as the code has it, the pure
    specification \<open>edge_step\<close>, and series of observations.  \<open>Concurrency\<close>: interleaved evaluations as a step relation.
  \<^item> \<open>Flow\<close>, \<open>Flow_Limits\<close> (\<^verbatim>\<open>flow.go\<close>): \<open>Run\<close>, its specification \<open>spec_run\<close>, and the limits over series of calls.
  \<^item> \<open>Dynamodb\<close>, \<open>Ddb_Store\<close>, \<open>Ddb_Clients\<close> (\<^verbatim>\<open>internal/backends/ddb\<close>): requests as syntax trees with their
    documented meaning, and the two stores; the locale \<open>ddb_backend\<close> holds their laws.
  \<^item> \<open>Redis\<close>, \<open>Redis_Store\<close>, \<open>Redis_Clients\<close> (\<^verbatim>\<open>internal/backends/redis\<close>): the same over Redis commands, in \<open>redis_backend\<close>.
  \<^item> \<open>Sns\<close> (\<^verbatim>\<open>internal/pub\<close>), \<open>Http_Api\<close>, \<open>Notify\<close> (\<^verbatim>\<open>httphandler.go\<close>), \<open>Lambda\<close>, \<open>Batches\<close> (\<^verbatim>\<open>cmd/lambda-sqs/main.go\<close>):
    the publisher and the two entry points.  \<open>notify_system\<close> is the contract of all collaborators of a handler together.
  \<^item> \<open>Backends_Env\<close> (\<^verbatim>\<open>helpers.go\<close> and \<^verbatim>\<open>main\<close>), \<open>Frames\<close>, \<open>Deployment\<close>: what the environment builds; a store
    changes nothing outside its service; so a deployment is a \<open>notify_system\<close>.
  \<^item> \<open>Calls\<close>, \<open>Interleaving\<close>: the HTTP handler once more as a resumption, one call of the cache, a store or a topic after
    the other (\<open>exec_route\<close>: run alone it is the handler of \<open>Http_Api\<close>), and any number of such requests whose calls come in
    any order.  \<open>Request_Guarantees\<close>: what a request
    guarantees of its calls whatever the others do (a rely-guarantee argument, \<open>obeys\<close> and \<open>interleaved_sound\<close>).
    \<open>Concurrent_Requests\<close>: the locale \<open>concurrent_system\<close>, requests over a store that refuses stale versions.
  \<^item> \<open>Server\<close>, \<open>Serving\<close> (\<^verbatim>\<open>app.go\<close>): the goroutines of \<open>RunServerInterruptible\<close> as a step relation with its invariant,
    then together with the requests that \<^verbatim>\<open>net/http\<close> serves for it, one goroutine each; the other entry points.
  \<^item> \<open>Ref_Libs\<close>, \<open>Ddb_Reference\<close>, \<open>Redis_Reference\<close>, \<open>Notify_Reference\<close>, \<open>Deployment_Reference\<close>: executable
    in-memory services, with scheduled faults, on which every locale is interpreted and the witnesses run.

  \<^bold>\<open>What is shown.\<close>

  \<^item> \<open>Edge_Properties\<close>: one evaluation is one \<open>edge_step\<close>; over a series, exactly the changes are forwarded, the flips of a
    window are treated by the thresholds, an aggregate lists the flips since the last one, and aggregates are a cooldown
    apart; nothing is published that was not committed, whatever fails; concurrent evaluations are equivalent to running
    those that committed in order, and each finishes.
  \<^item> \<open>Flow_Properties\<close>: \<open>Run\<close> refines \<open>spec_run\<close>; the limits per client and target hold for every series of
    calls, faults included; scope keys and the cache.
  \<^item> \<open>Store_Properties\<close>: the DynamoDB store keeps the whole contract, the Redis store the sequential part of it, with the
    interleavings in which it loses an update or grants too much; configurations survive a round trip.
  \<^item> \<open>Notify_Properties\<close>: a request does from end to end what \<open>spec_run\<close> says, publishes at most once and only when
    authenticated.  A queue message under the attribute names the code reads agrees with HTTP, and a batch folds
    \<open>spec_run\<close> over its records; messages as the README has them are refused, and a failed record is overtaken by later ones.
  \<^item> \<open>Api_Properties\<close>: payload encoding, validation, the limited address, the deployed function and the stopping of the server.
  \<^item> \<open>Concurrent_Properties\<close>: whole requests that run at the same time.  In any interleaving, and whatever fails, a request
    makes at most nine calls and can finish; only authenticated requests publish, once and as their last call; the limit
    per client holds; and for clients whose publications all come from a trigger, the limit per target holds, and every
    publication goes back to a change of the edge that the same request made and that no other publication goes back to.
    A server that is told to stop can always finish what it has accepted.

  \<^bold>\<open>Bounds and termination.\<close>  No definition uses fuel.  Loops over slices are structural recursion, or \<open>function\<close>s with
  a termination proof: \<open>agg_loop\<close> counts down an index, the scanners of \<open>Go_Strings\<close> shorten their input.  The hypotheses that
  a version is below \<open>max_int64\<close> and that times and configured numbers fit 64 bits are those under which the additions
  of the code do not wrap.  \<open>HardLimitRecentItems\<close> (128) and the limit on a request body (one MiB) are those of the source.

  \<^bold>\<open>Not modelled.\<close>  Log output: no function depends on it.  The texts of JSON, JMESPath and zstd: third-party or,
  for JSON, dependent on the printing of floating-point numbers; they are parameters.  Contexts: a
  call that fails because its context was cancelled or ran out of time is a call that returns an error.  The expiry of
  rows by the services: the contracts speak of rows and keys that are there, and a rate window is taken to outlive its
  minute, as its expiry makes it; only for \<^verbatim>\<open>Suppress\<close> is the deletion of expired rows part of the statement.  What the HTTP multiplexer answers by itself to other paths (a parameter), and the TLS and listener
  set-up of the server.  A request is not interrupted between two calls: a connection that breaks or a process that is
  killed leaves the calls made so far, which the interleavings contain.  The text of the certificate in \<^verbatim>\<open>helpers.go\<close>
  enters only through whether it parses, and the formatting verbs of \<^verbatim>\<open>fmt.Errorf\<close> in \<open>Err\<close>, which nothing calls, are an
  argument.
\<close>

end
